(* ===== verification/Prelude.thy ===== *)
theory Prelude
  imports Main "HOL-Library.Word" "HOL-Library.Multiset"
begin

text \<open>
  Shared vocabulary of the development: the machine types of the C++ sources, the outcome of
  code that can fail, and the lemmas on lists that several components use.

  \<^item> \<open>unsigned\<close> is a 32-bit word and \<open>uint64_t\<close> a 64-bit word; arithmetic wraps.
  \<^item> A function that can hit an \<open>assert\<close>, a null dereference, an access past the end of a
    container or \<open>std::string::at\<close> out of range returns an \<open>outcome\<close>: \<open>Inl\<close> of the failure or
    \<open>Inr\<close> of its result. The failure carries the text of the assertion or the name of the
    offending operation.
\<close>

section \<open>Machine types and failures\<close>

type_synonym uint = "32 word"
type_synonym u64 = "64 word"

datatype failure =
    Assertion string
  | Undefined string
  | Out_Of_Range string

type_synonym 'a outcome = "failure + 'a"

named_theorems outcome_simps \<open>equations for running fallible code\<close>
named_theorems inv_simps \<open>definitions of the component invariants\<close>

definition bind_outcome :: "'a outcome \<Rightarrow> ('a \<Rightarrow> 'b outcome) \<Rightarrow> 'b outcome" where
  "bind_outcome r f = (case r of Inl e \<Rightarrow> Inl e | Inr x \<Rightarrow> f x)"

definition assert_that :: "bool \<Rightarrow> string \<Rightarrow> unit outcome" where
  "assert_that b msg = (if b then Inr () else Inl (Assertion msg))"

lemma bind_Inr [simp]: "bind_outcome (Inr x) f = f x"
  by (simp add: bind_outcome_def)

lemma bind_Inl [simp]: "bind_outcome (Inl e) f = Inl e"
  by (simp add: bind_outcome_def)

lemma bind_eq_Inr_iff [outcome_simps]:
  "bind_outcome r f = Inr y \<longleftrightarrow> (\<exists>x. r = Inr x \<and> f x = Inr y)"
  by (cases r) auto

lemma assert_that_Inr_iff [outcome_simps]: "assert_that b msg = Inr u \<longleftrightarrow> b"
  by (simp add: assert_that_def)

lemma assert_that_True [simp]: "assert_that True msg = Inr ()"
  by (simp add: assert_that_def)

lemma assert_that_False [simp]: "assert_that False msg = Inl (Assertion msg)"
  by (simp add: assert_that_def)

lemma case_sum_Inr [outcome_simps]:
  "(case r of Inl e \<Rightarrow> Inl (f e) | Inr x \<Rightarrow> g x) = Inr y \<longleftrightarrow> (\<exists>x. r = Inr x \<and> g x = Inr y)"
  by (auto split: sum.splits)

lemma case_prod_Inr [outcome_simps]:
  "(case p of (a, b) \<Rightarrow> f a b) = Inr y \<longleftrightarrow> (\<exists>a b. p = (a, b) \<and> f a b = Inr y)"
  by (cases p) simp

lemma case_option_Inr [outcome_simps]:
  "(case r of None \<Rightarrow> Inl e | Some x \<Rightarrow> g x) = Inr y \<longleftrightarrow> (\<exists>x. r = Some x \<and> g x = Inr y)"
  by (auto split: option.splits)

text \<open>A loop whose body can fail stops at the first failure.\<close>

fun fold_outcome :: "('a \<Rightarrow> 's \<Rightarrow> 's outcome) \<Rightarrow> 'a list \<Rightarrow> 's \<Rightarrow> 's outcome" where
  "fold_outcome f [] s = Inr s"
| "fold_outcome f (x # xs) s = bind_outcome (f x s) (fold_outcome f xs)"

lemma fold_outcome_append:
  "fold_outcome f (xs @ ys) s = bind_outcome (fold_outcome f xs s) (fold_outcome f ys)"
  by (induction xs arbitrary: s) (simp_all add: bind_outcome_def split: sum.splits)

lemma fold_outcome_invariant:
  assumes "fold_outcome f xs s = Inr s'" and "P s"
    and "\<And>x s s'. x \<in> set xs \<Longrightarrow> P s \<Longrightarrow> f x s = Inr s' \<Longrightarrow> P s'"
  shows "P s'"
  using assms by (induction xs arbitrary: s) (auto simp: outcome_simps)

lemma fold_outcome_cong [fundef_cong]:
  "xs = ys \<Longrightarrow> s = t \<Longrightarrow> (\<And>x s. x \<in> set ys \<Longrightarrow> f x s = g x s) \<Longrightarrow> fold_outcome f xs s = fold_outcome g ys t"
proof (induction ys arbitrary: xs s t)
  case (Cons y ys)
  then show ?case by (auto simp: bind_outcome_def split: sum.splits)
qed simp

lemma bind_outcome_cong [fundef_cong]:
  "r = r' \<Longrightarrow> (\<And>x. r' = Inr x \<Longrightarrow> f x = g x) \<Longrightarrow> bind_outcome r f = bind_outcome r' g"
  by (cases r') auto


section \<open>Sequences\<close>

text \<open>
  \<open>std::list::erase\<close> of the first element that satisfies a test, with the element found: the
  shape of every \<open>removeItem\<close> of the schedulers.
\<close>

fun take_first :: "('a \<Rightarrow> bool) \<Rightarrow> 'a list \<Rightarrow> 'a option \<times> 'a list" where
  "take_first P [] = (None, [])"
| "take_first P (x # xs) =
     (if P x then (Some x, xs) else (case take_first P xs of (r, ys) \<Rightarrow> (r, x # ys)))"

lemma take_first_None_iff: "fst (take_first P xs) = None \<longleftrightarrow> (\<forall>x\<in>set xs. \<not> P x)"
  by (induction xs) (auto split: prod.splits)

lemma take_first_None: "take_first P xs = (None, ys) \<Longrightarrow> ys = xs \<and> (\<forall>x\<in>set xs. \<not> P x)"
  by (induction xs arbitrary: ys) (auto split: prod.splits if_splits)

lemma take_first_Some:
  "take_first P xs = (Some x, ys) \<Longrightarrow>
     P x \<and> (\<exists>as bs. xs = as @ x # bs \<and> ys = as @ bs \<and> (\<forall>a\<in>set as. \<not> P a))"
proof (induction xs arbitrary: ys)
  case Nil
  then show ?case by simp
next
  case (Cons z zs)
  show ?case
  proof (cases "P z")
    case True
    with Cons.prems show ?thesis
      by (intro conjI exI [of _ "[]"] exI [of _ ys]) auto
  next
    case False
    with Cons.prems obtain ws where ws: "take_first P zs = (Some x, ws)" "ys = z # ws"
      by (auto split: prod.splits)
    with Cons.IH obtain as bs where
      "P x" "zs = as @ x # bs" "ws = as @ bs" "\<forall>a\<in>set as. \<not> P a" by blast
    with ws False show ?thesis
      by (intro conjI exI [of _ "z # as"] exI [of _ bs]) auto
  qed
qed

lemma take_first_mset:
  "take_first P xs = (Some x, ys) \<Longrightarrow> mset xs = add_mset x (mset ys)"
  by (drule take_first_Some) auto

lemma take_first_remove1: "take_first (\<lambda>y. y = x) xs = (if x \<in> set xs then Some x else None, remove1 x xs)"
  by (induction xs) auto

lemma mset_butlast_last: "xs \<noteq> [] \<Longrightarrow> mset xs = add_mset (last xs) (mset (butlast xs))"
  by (cases xs rule: rev_cases) simp_all

lemma rev_last_butlast: "xs \<noteq> [] \<Longrightarrow> rev xs = last xs # rev (butlast xs)"
  by (cases xs rule: rev_cases) simp_all

lemma takeWhile_shorter: "\<exists>x\<in>set xs. \<not> P x \<Longrightarrow> length (takeWhile P xs) < length xs"
  by (induction xs) auto

text \<open>\<open>std::list::front\<close>, \<open>back\<close> and \<open>vector::back\<close>: undefined on an empty container.\<close>

definition front_of :: "'a list \<Rightarrow> 'a outcome" where
  "front_of xs = (case xs of [] \<Rightarrow> Inl (Undefined ''front'') | x # _ \<Rightarrow> Inr x)"

definition back_of :: "'a list \<Rightarrow> 'a outcome" where
  "back_of xs = (if xs = [] then Inl (Undefined ''back'') else Inr (last xs))"

lemma front_of_simps [simp]: "front_of (x # xs) = Inr x" "front_of [] = Inl (Undefined ''front'')"
  by (simp_all add: front_of_def)

lemma front_of_eq_Inr_iff [outcome_simps]: "front_of xs = Inr x \<longleftrightarrow> xs \<noteq> [] \<and> hd xs = x"
  by (cases xs) auto

lemma back_of_eq_Inr_iff [outcome_simps]: "back_of xs = Inr x \<longleftrightarrow> xs \<noteq> [] \<and> last xs = x"
  by (auto simp: back_of_def)

text \<open>\<open>vector::operator[]\<close>: undefined past the end.\<close>

definition at_index :: "'a list \<Rightarrow> nat \<Rightarrow> 'a outcome" where
  "at_index xs i = (if i < length xs then Inr (xs ! i) else Inl (Undefined ''operator[]''))"

lemma at_index_eq_Inr_iff [outcome_simps]:
  "at_index xs i = Inr x \<longleftrightarrow> i < length xs \<and> xs ! i = x"
  by (auto simp: at_index_def)

definition set_index :: "'a list \<Rightarrow> nat \<Rightarrow> 'a \<Rightarrow> 'a list outcome" where
  "set_index xs i v = (if i < length xs then Inr (xs[i := v]) else Inl (Undefined ''operator[]''))"

lemma set_index_eq_Inr_iff [outcome_simps]:
  "set_index xs i v = Inr ys \<longleftrightarrow> i < length xs \<and> ys = xs[i := v]"
  by (auto simp: set_index_def)

text \<open>\<open>std::map::insert\<close> keeps the value a key already has.\<close>

definition map_insert :: "'k \<Rightarrow> 'v \<Rightarrow> ('k \<rightharpoonup> 'v) \<Rightarrow> ('k \<rightharpoonup> 'v)" where
  "map_insert k v m = (case m k of None \<Rightarrow> m(k \<mapsto> v) | Some _ \<Rightarrow> m)"

lemma dom_map_insert [simp]: "dom (map_insert k v m) = insert k (dom m)"
  by (auto simp: map_insert_def split: option.splits)

lemma map_insert_fresh: "m k = None \<Longrightarrow> map_insert k v m = m(k \<mapsto> v)"
  by (simp add: map_insert_def)

lemma map_insert_apply:
  "map_insert k v m x = (if x = k \<and> m k = None then Some v else m x)"
  by (auto simp: map_insert_def split: option.splits)

lemma map_insert_keeps: "m x = Some y \<Longrightarrow> map_insert k v m x = Some y"
  by (auto simp: map_insert_apply)

lemma map_insert_other: "x \<noteq> k \<Longrightarrow> map_insert k v m x = m x"
  by (simp add: map_insert_apply)

lemma ran_map_insert: "ran (map_insert k v m) \<subseteq> insert v (ran m)"
  by (auto simp: ran_def map_insert_apply split: if_splits)

end
