(* ===== verification/Scheduler_Spec.thy ===== *)
theory Scheduler_Spec
  imports Prelude
begin

text \<open>
  The interfaces the schedulers of \<^verbatim>\<open>src/lib/Core\<close> promise to their clients. A waiting-queue
  scheduler (\<^verbatim>\<open>CondScheduler\<close>, \<^verbatim>\<open>MutexScheduler\<close> and the templates of \<^verbatim>\<open>Scheduler.h\<close>) hands out
  each item it was given exactly once; the two policies of the sources, first in first served
  and last in first served, refine this by fixing the order. The contract of a thread
  scheduler, which selects without removing, is at the end.
\<close>

section \<open>Waiting queues\<close>

text \<open>Selecting a given number of times, the loop a client runs to serve the queue.\<close>

fun drain :: "('q \<Rightarrow> ('a \<times> 'q) outcome) \<Rightarrow> nat \<Rightarrow> 'q \<Rightarrow> ('a list \<times> 'q) outcome" where
  "drain select 0 q = Inr ([], q)"
| "drain select (Suc n) q =
     bind_outcome (select q)
       (\<lambda>(x, q'). bind_outcome (drain select n q') (\<lambda>(xs, q''). Inr (x # xs, q'')))"

locale wait_queue =
  fixes items :: "'q \<Rightarrow> 'a list"
    and addItem :: "'q \<Rightarrow> 'a \<Rightarrow> 'q"
    and selectNextItem :: "'q \<Rightarrow> ('a \<times> 'q) outcome"
    and popAllItem :: "'q \<Rightarrow> 'a list \<times> 'q"
    and itemNum :: "'q \<Rightarrow> nat"
    and isQueueEmpty :: "'q \<Rightarrow> bool"
  assumes items_add: "mset (items (addItem q x)) = add_mset x (mset (items q))"
    and select_some: "items q \<noteq> [] \<Longrightarrow>
        \<exists>x q'. selectNextItem q = Inr (x, q') \<and> mset (items q) = add_mset x (mset (items q'))"
    and select_none: "items q = [] \<Longrightarrow> \<exists>e. selectNextItem q = Inl e"
    and pop_all: "mset (fst (popAllItem q)) = mset (items q)" "items (snd (popAllItem q)) = []"
    and num_items: "itemNum q = length (items q)"
    and empty_items: "isQueueEmpty q \<longleftrightarrow> items q = []"
begin

lemma select_Inr_mset:
  assumes "selectNextItem q = Inr (x, q')"
  shows "mset (items q) = add_mset x (mset (items q'))"
proof (cases "items q = []")
  case True
  with select_none [of q] assms show ?thesis by auto
next
  case False
  with select_some [of q] assms show ?thesis by auto
qed

lemma select_ok_iff: "(\<exists>r. selectNextItem q = Inr r) \<longleftrightarrow> \<not> isQueueEmpty q"
proof
  assume "\<exists>r. selectNextItem q = Inr r"
  then show "\<not> isQueueEmpty q"
    using select_none [of q] by (auto simp: empty_items)
next
  assume "\<not> isQueueEmpty q"
  then show "\<exists>r. selectNextItem q = Inr r"
    using select_some [of q] by (auto simp: empty_items)
qed

lemma num_after_select:
  assumes "selectNextItem q = Inr (x, q')"
  shows "itemNum q = Suc (itemNum q')"
proof -
  have "size (mset (items q)) = size (add_mset x (mset (items q')))"
    by (simp only: select_Inr_mset [OF assms])
  then show ?thesis by (simp add: num_items)
qed

lemma drain_serves_each_once:
  "\<exists>xs q'. drain selectNextItem (itemNum q) q = Inr (xs, q') \<and> mset xs = mset (items q) \<and> items q' = []"
proof (induction "itemNum q" arbitrary: q)
  case 0
  then show ?case by (simp add: num_items)
next
  case (Suc n)
  then have "items q \<noteq> []" by (auto simp: num_items)
  then obtain x q1 where q1: "selectNextItem q = Inr (x, q1)"
    using select_some [of q] by blast
  then have "n = itemNum q1" using num_after_select [OF q1] Suc(2) by simp
  with Suc(1) obtain xs q2 where
    "drain selectNextItem n q1 = Inr (xs, q2)" "mset xs = mset (items q1)" "items q2 = []"
    by blast
  with q1 select_Inr_mset [OF q1] Suc(2) [symmetric] show ?case by simp
qed

end

text \<open>First in, first served.\<close>

locale fifo_queue =
  fixes items :: "'q \<Rightarrow> 'a list"
    and addItem :: "'q \<Rightarrow> 'a \<Rightarrow> 'q"
    and selectNextItem :: "'q \<Rightarrow> ('a \<times> 'q) outcome"
    and popAllItem :: "'q \<Rightarrow> 'a list \<times> 'q"
    and itemNum :: "'q \<Rightarrow> nat"
    and isQueueEmpty :: "'q \<Rightarrow> bool"
  assumes fifo_add: "items (addItem q x) = items q @ [x]"
    and fifo_select: "items q \<noteq> [] \<Longrightarrow>
        \<exists>q'. selectNextItem q = Inr (hd (items q), q') \<and> items q' = tl (items q)"
    and fifo_select_none: "items q = [] \<Longrightarrow> \<exists>e. selectNextItem q = Inl e"
    and fifo_pop_all: "fst (popAllItem q) = items q" "items (snd (popAllItem q)) = []"
    and fifo_num: "itemNum q = length (items q)"
    and fifo_empty: "isQueueEmpty q \<longleftrightarrow> items q = []"

sublocale fifo_queue \<subseteq> wait_queue items addItem selectNextItem popAllItem itemNum isQueueEmpty
proof
  show "mset (items (addItem q x)) = add_mset x (mset (items q))" for q x
    by (simp add: fifo_add)
  show "\<exists>x q'. selectNextItem q = Inr (x, q') \<and> mset (items q) = add_mset x (mset (items q'))"
    if "items q \<noteq> []" for q
    using fifo_select [OF that] that
    by (metis list.exhaust_sel mset.simps(2))
qed (simp_all add: fifo_select_none fifo_pop_all fifo_num fifo_empty)

context fifo_queue
begin

lemma drain_in_arrival_order:
  "\<exists>q'. drain selectNextItem (length (items q)) q = Inr (items q, q') \<and> items q' = []"
proof (induction "length (items q)" arbitrary: q)
  case 0
  then show ?case by simp
next
  case (Suc n)
  then have ne: "items q \<noteq> []" by auto
  then obtain q1 where q1: "selectNextItem q = Inr (hd (items q), q1)" "items q1 = tl (items q)"
    using fifo_select by blast
  then have "n = length (items q1)" using Suc(2) by simp
  with Suc(1) obtain q2 where "drain selectNextItem n q1 = Inr (items q1, q2)" "items q2 = []"
    by blast
  with q1 Suc(2) [symmetric] ne show ?case by simp
qed

end

text \<open>Last in, first served.\<close>

locale lifo_queue =
  fixes items :: "'q \<Rightarrow> 'a list"
    and addItem :: "'q \<Rightarrow> 'a \<Rightarrow> 'q"
    and selectNextItem :: "'q \<Rightarrow> ('a \<times> 'q) outcome"
    and popAllItem :: "'q \<Rightarrow> 'a list \<times> 'q"
    and itemNum :: "'q \<Rightarrow> nat"
    and isQueueEmpty :: "'q \<Rightarrow> bool"
  assumes lifo_add: "items (addItem q x) = items q @ [x]"
    and lifo_select: "items q \<noteq> [] \<Longrightarrow>
        \<exists>q'. selectNextItem q = Inr (last (items q), q') \<and> items q' = butlast (items q)"
    and lifo_select_none: "items q = [] \<Longrightarrow> \<exists>e. selectNextItem q = Inl e"
    and lifo_pop_all: "fst (popAllItem q) = items q" "items (snd (popAllItem q)) = []"
    and lifo_num: "itemNum q = length (items q)"
    and lifo_empty: "isQueueEmpty q \<longleftrightarrow> items q = []"

sublocale lifo_queue \<subseteq> wait_queue items addItem selectNextItem popAllItem itemNum isQueueEmpty
proof
  show "mset (items (addItem q x)) = add_mset x (mset (items q))" for q x
    by (simp add: lifo_add)
  show "\<exists>x q'. selectNextItem q = Inr (x, q') \<and> mset (items q) = add_mset x (mset (items q'))"
    if "items q \<noteq> []" for q
    using lifo_select [OF that] mset_butlast_last [OF that] by force
qed (simp_all add: lifo_select_none lifo_pop_all lifo_num lifo_empty)

context lifo_queue
begin

lemma select_latest_added:
  "\<exists>q'. selectNextItem (addItem q x) = Inr (x, q') \<and> items q' = items q"
  using lifo_select [of "addItem q x"] by (simp add: lifo_add)

lemma drain_in_reverse_order:
  "\<exists>q'. drain selectNextItem (length (items q)) q = Inr (rev (items q), q') \<and> items q' = []"
proof (induction "length (items q)" arbitrary: q)
  case 0
  then show ?case by simp
next
  case (Suc n)
  then have ne: "items q \<noteq> []" by auto
  then obtain q1 where q1: "selectNextItem q = Inr (last (items q), q1)" "items q1 = butlast (items q)"
    using lifo_select by blast
  then have "n = length (items q1)" using Suc(2) by simp
  with Suc(1) obtain q2 where "drain selectNextItem n q1 = Inr (rev (items q1), q2)" "items q2 = []"
    by blast
  with q1 Suc(2) [symmetric] show ?case by (simp add: rev_last_butlast [OF ne])
qed

end


section \<open>Thread schedulers\<close>

text \<open>
  \<^verbatim>\<open>ThreadScheduler\<close>: selecting leaves the queue's contents as they are, \<open>removeItem\<close> deletes one
  occurrence, and \<open>reSchedule\<close> only permutes. The result of selecting is left open here, since a
  guided scheduler may name a thread that is not in its queue.
\<close>

locale thread_pool =
  fixes threads :: "'q \<Rightarrow> 'a list"
    and addItem :: "'q \<Rightarrow> 'a \<Rightarrow> 'q"
    and removeItem :: "'q \<Rightarrow> 'a \<Rightarrow> 'q"
    and selectNextItem :: "'q \<Rightarrow> ('r \<times> 'q) outcome"
    and reSchedule :: "'q \<Rightarrow> 'q outcome"
    and isSchedulerEmpty :: "'q \<Rightarrow> bool"
  assumes threads_add: "mset (threads (addItem q x)) = add_mset x (mset (threads q))"
    and threads_remove: "mset (threads (removeItem q x)) = mset (threads q) - {#x#}"
    and threads_select: "selectNextItem q = Inr (r, q') \<Longrightarrow> mset (threads q') = mset (threads q)"
    and threads_reSchedule: "reSchedule q = Inr q' \<Longrightarrow> mset (threads q') = mset (threads q)"
    and threads_empty: "isSchedulerEmpty q \<longleftrightarrow> threads q = []"
begin

lemma add_distinct:
  "distinct (threads q) \<Longrightarrow> x \<notin> set (threads q) \<Longrightarrow> distinct (threads (addItem q x))"
  by (metis threads_add distinct.simps(2) mset.simps(2) mset_eq_imp_distinct_iff)

lemma add_set: "set (threads (addItem q x)) = insert x (set (threads q))"
  by (metis threads_add set_mset_mset set_mset_add_mset_insert)

lemma remove_distinct: "distinct (threads q) \<Longrightarrow> distinct (threads (removeItem q x))"
  by (metis threads_remove distinct_remove1 mset_remove1 mset_eq_imp_distinct_iff)

lemma remove_set: "distinct (threads q) \<Longrightarrow> set (threads (removeItem q x)) = set (threads q) - {x}"
  by (metis threads_remove mset_remove1 mset_eq_setD set_remove1_eq)

lemma select_keeps_set: "selectNextItem q = Inr (r, q') \<Longrightarrow> set (threads q') = set (threads q)"
  by (metis threads_select mset_eq_setD)

lemma select_keeps_distinct:
  "selectNextItem q = Inr (r, q') \<Longrightarrow> distinct (threads q') = distinct (threads q)"
  using threads_select mset_eq_imp_distinct_iff by blast

lemma reSchedule_keeps_set: "reSchedule q = Inr q' \<Longrightarrow> set (threads q') = set (threads q)"
  by (metis threads_reSchedule mset_eq_setD)

lemma reSchedule_keeps_distinct:
  "reSchedule q = Inr q' \<Longrightarrow> distinct (threads q') = distinct (threads q)"
  using threads_reSchedule mset_eq_imp_distinct_iff by blast

end

text \<open>A scheduler that chooses among the threads it holds.\<close>

locale thread_queue = thread_pool threads addItem removeItem selectNextItem reSchedule isSchedulerEmpty
  for threads :: "'q \<Rightarrow> 'a list"
    and addItem :: "'q \<Rightarrow> 'a \<Rightarrow> 'q"
    and removeItem :: "'q \<Rightarrow> 'a \<Rightarrow> 'q"
    and selectNextItem :: "'q \<Rightarrow> ('a \<times> 'q) outcome"
    and reSchedule :: "'q \<Rightarrow> 'q outcome"
    and isSchedulerEmpty :: "'q \<Rightarrow> bool" +
  assumes selects_member: "selectNextItem q = Inr (x, q') \<Longrightarrow> x \<in> set (threads q)"
    and select_defined: "threads q \<noteq> [] \<Longrightarrow> \<exists>r. selectNextItem q = Inr r"
begin

lemma select_total:
  assumes "\<not> isSchedulerEmpty q"
  obtains x q' where "selectNextItem q = Inr (x, q')" "x \<in> set (threads q)"
    "mset (threads q') = mset (threads q)"
proof -
  from assms obtain x q' where "selectNextItem q = Inr (x, q')"
    using select_defined [of q] by (auto simp: threads_empty)
  with selects_member threads_select show ?thesis using that by blast
qed

end

end
