(* ===== verification/Decimal_Names.thy ===== *)
theory Decimal_Names
  imports Prelude
begin

text \<open>
  \<^verbatim>\<open>Transfer::uint64toString\<close> of \<^verbatim>\<open>src/lib/Core/Transfer.cpp\<close>: the decimal text of an unsigned
  number, which is what the runtime uses to name mutexes, condition variables, barriers and
  events. The point of the theory is that distinct numbers get distinct names, and that a
  decimal text never contains the letters that separate the parts of a variable name.
\<close>

section \<open>Decimal text\<close>

fun dec_of_nat :: "nat \<Rightarrow> string" where
  "dec_of_nat n =
     (if n < 10 then [char_of (48 + n)] else dec_of_nat (n div 10) @ [char_of (48 + n mod 10)])"

declare dec_of_nat.simps [simp del]

text \<open>\<open>ss.str(""); ss << input; return ss.str();\<close>\<close>

definition uint64toString :: "u64 \<Rightarrow> string" where
  "uint64toString input = dec_of_nat (unat input)"

text \<open>Reading the text back.\<close>

definition digit_value :: "char \<Rightarrow> nat" where
  "digit_value c = of_char c - 48"

definition nat_of_dec :: "string \<Rightarrow> nat" where
  "nat_of_dec s = foldl (\<lambda>acc c. 10 * acc + digit_value c) 0 s"

definition is_digit :: "char \<Rightarrow> bool" where
  "is_digit c \<longleftrightarrow> 48 \<le> (of_char c :: nat) \<and> (of_char c :: nat) \<le> 57"

lemma of_char_digit: "d < 10 \<Longrightarrow> (of_char (char_of (48 + d :: nat) :: char) :: nat) = 48 + d"
  by (simp add: of_char_of)

lemma digit_value_char_of [simp]: "d < 10 \<Longrightarrow> digit_value (char_of (48 + d :: nat)) = d"
  by (simp add: digit_value_def of_char_digit)

lemma is_digit_char_of [simp]: "d < 10 \<Longrightarrow> is_digit (char_of (48 + d :: nat))"
  by (simp add: is_digit_def of_char_digit)

lemma nat_of_dec_snoc: "nat_of_dec (s @ [c]) = 10 * nat_of_dec s + digit_value c"
  by (simp add: nat_of_dec_def)

lemma nat_of_dec_of_nat: "nat_of_dec (dec_of_nat n) = n"
proof (induction n rule: dec_of_nat.induct)
  case (1 n)
  show ?case
  proof (cases "n < 10")
    case True
    then show ?thesis by (simp add: dec_of_nat.simps [of n] nat_of_dec_def)
  next
    case False
    with 1 have "nat_of_dec (dec_of_nat (n div 10)) = n div 10" by simp
    with False show ?thesis by (simp add: dec_of_nat.simps [of n] nat_of_dec_snoc)
  qed
qed

lemma dec_of_nat_digits: "c \<in> set (dec_of_nat n) \<Longrightarrow> is_digit c"
proof (induction n rule: dec_of_nat.induct)
  case (1 n)
  then show ?case by (cases "n < 10") (auto simp: dec_of_nat.simps [of n])
qed

lemma dec_of_nat_nonempty [simp]: "dec_of_nat n \<noteq> []"
  by (simp add: dec_of_nat.simps [of n])

lemma dec_of_nat_inject: "dec_of_nat m = dec_of_nat n \<longleftrightarrow> m = n"
  by (metis nat_of_dec_of_nat)

lemma uint64toString_inject [simp]: "uint64toString a = uint64toString b \<longleftrightarrow> a = b"
  by (simp add: uint64toString_def dec_of_nat_inject word_unat_eq_iff)

lemma letter_not_digit: "\<not> is_digit CHR ''S''" "\<not> is_digit CHR ''L''" "\<not> is_digit CHR ''G''"
  by (simp_all add: is_digit_def)

end
