(* ===== verification/Klee_Expr.thy ===== *)
theory Klee_Expr
  imports Prelude "HOL-Library.Signed_Division"
begin

text \<open>
  The expressions of \<^verbatim>\<open>src/include/klee/Expr.h\<close>: the classes derived from \<open>Expr\<close>, their widths, the
  operations of \<open>ConstantExpr\<close>, and the value of an expression under an assignment of its arrays, which
  is what \<^verbatim>\<open>src/lib/Expr/ExprEvaluator.cpp\<close> computes when every array has a value.

  A width is a natural number of bits, the value of a constant (an \<open>APInt\<close>) an integer from \<open>0\<close> to
  \<open>2 ^ width - 1\<close>. Two expressions are equal when \<open>Expr::compare\<close> returns \<open>0\<close>, that is structurally; an array is
  an object with an address, since \<open>UpdateList::compare\<close> also compares the addresses of the roots.
  Hash values, reference counts and the flags of a node are not part of this type.
\<close>

unbundle bit_operations_syntax

section \<open>Expressions\<close>

datatype array = Array
  (ar_address: nat) (ar_name: string) (ar_size: nat) (ar_constantValues: "int list")
  (ar_domain: nat) (ar_range: nat)

datatype binary_kind =
    AddExpr | SubExpr | MulExpr | UDivExpr | SDivExpr | URemExpr | SRemExpr
  | AndExpr | OrExpr | XorExpr | ShlExpr | LShrExpr | AShrExpr
  | EqExpr | NeExpr | UltExpr | UleExpr | UgtExpr | UgeExpr | SltExpr | SleExpr | SgtExpr | SgeExpr

text \<open>\<open>UpdateNode\<close> carries an index, a value and the updates that came before it.\<close>

datatype expr =
    ConstantExpr nat int
  | NotOptimizedExpr expr
  | ReadExpr array updates expr
  | SelectExpr expr expr expr
  | ConcatExpr expr expr
  | ExtractExpr expr nat nat
  | NotExpr expr
  | ZExtExpr expr nat
  | SExtExpr expr nat
  | BinaryExpr binary_kind expr expr
and updates =
    No_Update
  | UpdateNode expr expr updates

definition isCmp :: "binary_kind \<Rightarrow> bool" where
  "isCmp k \<longleftrightarrow> k \<in> {EqExpr, NeExpr, UltExpr, UleExpr, UgtExpr, UgeExpr, SltExpr, SleExpr, SgtExpr, SgeExpr}"

definition isDivision :: "binary_kind \<Rightarrow> bool" where
  "isDivision k \<longleftrightarrow> k \<in> {UDivExpr, SDivExpr, URemExpr, SRemExpr}"

abbreviation Bool :: nat where "Bool \<equiv> 1"

fun getWidth :: "expr \<Rightarrow> nat" where
  "getWidth (ConstantExpr w v) = w"
| "getWidth (NotOptimizedExpr e) = getWidth e"
| "getWidth (ReadExpr a us i) = ar_range a"
| "getWidth (SelectExpr c t f) = getWidth t"
| "getWidth (ConcatExpr l r) = getWidth l + getWidth r"
| "getWidth (ExtractExpr e off w) = w"
| "getWidth (NotExpr e) = getWidth e"
| "getWidth (ZExtExpr e w) = w"
| "getWidth (SExtExpr e w) = w"
| "getWidth (BinaryExpr k l r) = (if isCmp k then Bool else getWidth l)"

fun isConstant :: "expr \<Rightarrow> bool" where
  "isConstant (ConstantExpr w v) = True"
| "isConstant e = False"

definition isSymbolicArray :: "array \<Rightarrow> bool" where
  "isSymbolicArray a \<longleftrightarrow> ar_constantValues a = []"

fun getSize :: "updates \<Rightarrow> nat" where
  "getSize No_Update = 0"
| "getSize (UpdateNode i v next) = 1 + getSize next"

text \<open>\<open>UpdateList::extend\<close> checks the widths against the root.\<close>

definition extend :: "array \<Rightarrow> updates \<Rightarrow> expr \<Rightarrow> expr \<Rightarrow> updates outcome" where
  "extend root head index v =
     bind_outcome (assert_that (ar_domain root = getWidth index) ''root->getDomain() == index->getWidth()'')
       (\<lambda>_. bind_outcome (assert_that (ar_range root = getWidth v) ''root->getRange() == value->getWidth()'')
          (\<lambda>_. Inr (UpdateNode index v head)))"


section \<open>Operations on constants\<close>

text \<open>The signed value of a constant, and the truncation of a result to its width.\<close>

definition signed_value :: "nat \<Rightarrow> int \<Rightarrow> int" where
  "signed_value w v = signed_take_bit (w - 1) v"

definition truth :: "bool \<Rightarrow> int" where
  "truth b = (if b then 1 else 0)"

text \<open>
  Shifts by the width or more give \<open>0\<close>, or copies of the sign for \<open>ashr\<close>. Division by zero is an error
  of \<open>APInt\<close>; the constant constructors below check for it.
\<close>

fun apint_op :: "binary_kind \<Rightarrow> nat \<Rightarrow> int \<Rightarrow> int \<Rightarrow> int" where
  "apint_op AddExpr w a b = take_bit w (a + b)"
| "apint_op SubExpr w a b = take_bit w (a - b)"
| "apint_op MulExpr w a b = take_bit w (a * b)"
| "apint_op UDivExpr w a b = a div b"
| "apint_op SDivExpr w a b = take_bit w (signed_value w a sdiv signed_value w b)"
| "apint_op URemExpr w a b = a mod b"
| "apint_op SRemExpr w a b = take_bit w (signed_value w a smod signed_value w b)"
| "apint_op AndExpr w a b = a AND b"
| "apint_op OrExpr w a b = a OR b"
| "apint_op XorExpr w a b = a XOR b"
| "apint_op ShlExpr w a b = (if b < int w then take_bit w (push_bit (nat b) a) else 0)"
| "apint_op LShrExpr w a b = (if b < int w then drop_bit (nat b) a else 0)"
| "apint_op AShrExpr w a b = take_bit w (drop_bit (nat (min b (int w))) (signed_value w a))"
| "apint_op EqExpr w a b = truth (a = b)"
| "apint_op NeExpr w a b = truth (a \<noteq> b)"
| "apint_op UltExpr w a b = truth (a < b)"
| "apint_op UleExpr w a b = truth (a \<le> b)"
| "apint_op UgtExpr w a b = truth (a > b)"
| "apint_op UgeExpr w a b = truth (a \<ge> b)"
| "apint_op SltExpr w a b = truth (signed_value w a < signed_value w b)"
| "apint_op SleExpr w a b = truth (signed_value w a \<le> signed_value w b)"
| "apint_op SgtExpr w a b = truth (signed_value w a > signed_value w b)"
| "apint_op SgeExpr w a b = truth (signed_value w a \<ge> signed_value w b)"

definition const_op :: "binary_kind \<Rightarrow> nat \<Rightarrow> int \<Rightarrow> int \<Rightarrow> expr outcome" where
  "const_op k w a b =
     (if isDivision k \<and> b = 0 then Inl (Undefined ''division by zero'')
      else Inr (ConstantExpr (if isCmp k then Bool else w) (apint_op k w a b)))"

definition const_Concat :: "nat \<Rightarrow> int \<Rightarrow> nat \<Rightarrow> int \<Rightarrow> expr" where
  "const_Concat wl a wr b = ConstantExpr (wl + wr) (take_bit (wl + wr) (push_bit wr a) OR b)"

definition const_Extract :: "nat \<Rightarrow> int \<Rightarrow> nat \<Rightarrow> nat \<Rightarrow> expr" where
  "const_Extract w a off w' = ConstantExpr w' (take_bit w' (take_bit w (drop_bit off (signed_value w a))))"

definition const_ZExt :: "int \<Rightarrow> nat \<Rightarrow> int" where
  "const_ZExt a w' = take_bit w' a"

definition const_SExt :: "nat \<Rightarrow> int \<Rightarrow> nat \<Rightarrow> int" where
  "const_SExt w a w' = take_bit w' (signed_value w a)"

definition const_Not :: "nat \<Rightarrow> int \<Rightarrow> int" where
  "const_Not w a = take_bit w (NOT a)"

definition const_Neg :: "nat \<Rightarrow> int \<Rightarrow> int" where
  "const_Neg w a = take_bit w (- a)"


section \<open>Well-typed expressions and their values\<close>

text \<open>\<open>env a i\<close> is the initial content of array \<open>a\<close> at index \<open>i\<close>.\<close>

type_synonym env = "array \<Rightarrow> int \<Rightarrow> int"

definition initial_value :: "env \<Rightarrow> array \<Rightarrow> int \<Rightarrow> int" where
  "initial_value env a i =
     (if \<not> isSymbolicArray a \<and> i < int (ar_size a) then ar_constantValues a ! nat i
      else take_bit (ar_range a) (env a i))"

fun eval :: "env \<Rightarrow> expr \<Rightarrow> int"
  and evalRead :: "env \<Rightarrow> array \<Rightarrow> int \<Rightarrow> updates \<Rightarrow> int" where
  "eval env (ConstantExpr w v) = v"
| "eval env (NotOptimizedExpr e) = eval env e"
| "eval env (ReadExpr a us i) = evalRead env a (eval env i) us"
| "eval env (SelectExpr c t f) = (if eval env c = 1 then eval env t else eval env f)"
| "eval env (ConcatExpr l r) = concat_bit (getWidth r) (eval env r) (eval env l)"
| "eval env (ExtractExpr e off w) = take_bit w (drop_bit off (eval env e))"
| "eval env (NotExpr e) = const_Not (getWidth e) (eval env e)"
| "eval env (ZExtExpr e w) = eval env e"
| "eval env (SExtExpr e w) = const_SExt (getWidth e) (eval env e) w"
| "eval env (BinaryExpr k l r) = apint_op k (getWidth l) (eval env l) (eval env r)"
| "evalRead env a x No_Update = initial_value env a x"
| "evalRead env a x (UpdateNode i v next) = (if eval env i = x then eval env v else evalRead env a x next)"

definition in_width :: "nat \<Rightarrow> int \<Rightarrow> bool" where
  "in_width w v \<longleftrightarrow> 0 \<le> v \<and> v < 2 ^ w"

definition array_ok :: "array \<Rightarrow> bool" where
  "array_ok a \<longleftrightarrow> 0 < ar_domain a \<and> 0 < ar_range a \<and>
     (isSymbolicArray a \<or> length (ar_constantValues a) = ar_size a) \<and>
     (\<forall>v\<in>set (ar_constantValues a). in_width (ar_range a) v)"

text \<open>
  The typing of expressions: what the assertions of the constructors demand. A division of a
  one-bit value only has the divisor \<open>1\<close>, so the constructors drop the divisor.
\<close>

fun welltyped :: "expr \<Rightarrow> bool" and updates_ok :: "array \<Rightarrow> updates \<Rightarrow> bool" where
  "welltyped (ConstantExpr w v) \<longleftrightarrow> 0 < w \<and> in_width w v"
| "welltyped (NotOptimizedExpr e) \<longleftrightarrow> welltyped e"
| "welltyped (ReadExpr a us i) \<longleftrightarrow> array_ok a \<and> updates_ok a us \<and> welltyped i \<and> getWidth i = ar_domain a"
| "welltyped (SelectExpr c t f) \<longleftrightarrow>
     welltyped c \<and> welltyped t \<and> welltyped f \<and> getWidth c = Bool \<and> getWidth t = getWidth f"
| "welltyped (ConcatExpr l r) \<longleftrightarrow> welltyped l \<and> welltyped r"
| "welltyped (ExtractExpr e off w) \<longleftrightarrow> welltyped e \<and> 0 < w \<and> off + w \<le> getWidth e"
| "welltyped (NotExpr e) \<longleftrightarrow> welltyped e"
| "welltyped (ZExtExpr e w) \<longleftrightarrow> welltyped e \<and> getWidth e \<le> w"
| "welltyped (SExtExpr e w) \<longleftrightarrow> welltyped e \<and> getWidth e \<le> w"
| "welltyped (BinaryExpr k l r) \<longleftrightarrow> welltyped l \<and> welltyped r \<and> getWidth l = getWidth r"
| "updates_ok a No_Update \<longleftrightarrow> True"
| "updates_ok a (UpdateNode i v next) \<longleftrightarrow>
     welltyped i \<and> welltyped v \<and> getWidth i = ar_domain a \<and> getWidth v = ar_range a \<and> updates_ok a next"

lemma in_width_take_bit [simp]: "in_width w (take_bit w v)"
  by (simp add: in_width_def take_bit_int_less_exp)

lemma take_bit_in_width: "in_width w v \<Longrightarrow> take_bit w v = v"
  by (simp add: in_width_def take_bit_int_eq_self)

lemma in_width_mono: "in_width w v \<Longrightarrow> w \<le> w' \<Longrightarrow> in_width w' v"
  unfolding in_width_def by (meson le_less_trans less_le_trans not_le order.trans power_increasing one_le_numeral)

lemma in_width_0 [simp]: "in_width w 0"
  by (simp add: in_width_def)

lemma in_width_1 [simp]: "0 < w \<Longrightarrow> in_width w 1"
  using one_less_power [of "2 :: int" w] by (simp add: in_width_def)

lemma in_width_truth [simp]: "0 < w \<Longrightarrow> in_width w (truth b)"
  by (simp add: truth_def)

lemma in_width_Bool: "in_width (Suc 0) v \<longleftrightarrow> v = 0 \<or> v = 1"
  by (auto simp: in_width_def)

lemma in_width_iff: "in_width w v \<longleftrightarrow> take_bit w v = v"
  by (metis in_width_take_bit take_bit_in_width)

lemma getWidth_pos: "welltyped e \<Longrightarrow> 0 < getWidth e"
  and updates_ok_trivial: "updates_ok a us \<Longrightarrow> True"
  by (induction e and a us rule: welltyped_updates_ok.induct) (auto simp: array_ok_def)

lemma in_width_div:
  assumes "in_width w a" and "in_width w b"
  shows "in_width w (a div b)" and "in_width w (a mod b)"
proof -
  have r: "0 \<le> a" "a < 2 ^ w" "0 \<le> b" "b < 2 ^ w" using assms by (simp_all add: in_width_def)
  have "a div b \<le> a" using r zdiv_mono2 [of a 1 b] by (cases "b = 0") auto
  moreover have "0 \<le> a div b" using r by (simp add: div_int_pos_iff)
  ultimately show "in_width w (a div b)" using r by (simp add: in_width_def)
  show "in_width w (a mod b)"
  proof (cases "b = 0")
    case False
    then have "a mod b < b" "0 \<le> a mod b" using r by simp_all
    with r(4) show ?thesis by (simp add: in_width_def)
  qed (use assms in simp)
qed

lemma in_width_drop_bit: "in_width w a \<Longrightarrow> in_width w (drop_bit n a)"
proof -
  assume a: "in_width w a"
  have "a div 2 ^ n \<le> a" using a zdiv_mono2 [of a 1 "2 ^ n"] by (simp add: in_width_def)
  moreover have "0 \<le> a div 2 ^ n" using a by (simp add: in_width_def div_int_pos_iff)
  ultimately show ?thesis using a by (simp add: in_width_def drop_bit_eq_div)
qed

lemma in_width_apint_op:
  assumes "in_width w a" and "in_width w b" and "0 < w"
  shows "in_width (if isCmp k then Bool else w) (apint_op k w a b)"
proof -
  have "in_width w (a AND b)" "in_width w (a OR b)" "in_width w (a XOR b)"
    using assms by (simp_all add: in_width_iff)
  then show ?thesis
    using assms by (cases k) (simp_all add: isCmp_def in_width_div in_width_drop_bit)
qed

lemma in_width_concat_bit: "in_width m l \<Longrightarrow> in_width (m + n) (concat_bit n k l)"
  unfolding in_width_iff
proof (rule bit_eqI)
  fix i assume l: "take_bit m l = l"
  have "bit l (i - n) \<longrightarrow> i - n < m" using l by (metis bit_take_bit_iff)
  then show "bit (take_bit (m + n) (concat_bit n k l)) i \<longleftrightarrow> bit (concat_bit n k l) i"
    by (auto simp: bit_take_bit_iff bit_concat_bit_iff)
qed

lemma initial_value_in_width: "array_ok a \<Longrightarrow> 0 \<le> i \<Longrightarrow> in_width (ar_range a) (initial_value env a i)"
  by (auto simp: initial_value_def array_ok_def)

lemma eval_in_width: "welltyped e \<Longrightarrow> in_width (getWidth e) (eval env e)"
  and evalRead_in_width:
    "updates_ok a us \<Longrightarrow> array_ok a \<Longrightarrow> 0 \<le> x \<Longrightarrow> in_width (ar_range a) (evalRead env a x us)"
proof (induction e and a us arbitrary: and x rule: welltyped_updates_ok.induct)
  case (3 a us i)
  then have "0 \<le> eval env i" by (simp add: in_width_def)
  with 3 show ?case by simp
next
  case (10 k l r)
  then show ?case using in_width_apint_op [of "getWidth l" "eval env l" "eval env r" k] getWidth_pos by auto
qed (auto simp: in_width_concat_bit add.commute const_Not_def const_SExt_def initial_value_in_width
    dest: in_width_mono)

lemma eval_Bool: "welltyped e \<Longrightarrow> getWidth e = Suc 0 \<Longrightarrow> eval env e = 0 \<or> eval env e = 1"
  using eval_in_width [of e env] by (simp add: in_width_Bool)

end
