(* ===== verification/Events.thy ===== *)
theory Events
  imports Decimal_Names Klee_Expr
begin

text \<open>
  \<^verbatim>\<open>src/lib/Core/Event.h\<close>, \<^verbatim>\<open>Event.cpp\<close> and \<^verbatim>\<open>Prefix.cpp\<close>: the events a run records and the prefix of
  events that a later run replays. Events are objects shared by traces and prefixes, so they
  are kept in a store indexed by references and a prefix holds references. An instruction
  (\<open>KInstruction*\<close>) is an opaque reference.

  The prefix is proved to behave as a cursor over its events: \<^verbatim>\<open>increase\<close> never runs past the
  end, and replaying a prefix hands out the thread ids of its events in order.
\<close>

section \<open>Element addresses of an accessed array\<close>

record VectorInfo =
  vi_base :: u64
  vi_elementBitWidth :: u64
  vi_size :: u64
  vi_selectedIndex :: u64
  vi_selectedAddress :: u64

definition element_address :: "u64 \<Rightarrow> u64 \<Rightarrow> u64 \<Rightarrow> u64" where
  "element_address b w i = b + (i * w) div 8"

definition new_VectorInfo :: "u64 \<Rightarrow> u64 \<Rightarrow> u64 \<Rightarrow> u64 \<Rightarrow> VectorInfo" where
  "new_VectorInfo b w n i =
     \<lparr>vi_base = b, vi_elementBitWidth = w, vi_size = n, vi_selectedIndex = i,
      vi_selectedAddress = element_address b w i\<rparr>"

text \<open>
  \<open>getAllPossibleAddress\<close> fills a vector of \<open>size - 1\<close> zeros, skipping the selected address;
  writing past it is undefined. With \<open>size = 0\<close> the requested length wraps to \<open>2 ^ 64 - 1\<close> and
  the vector's constructor throws; with more than \<open>2 ^ 32\<close> elements the 32-bit loop counter
  wraps and the loop never reaches its end.
\<close>

fun fill_addresses :: "VectorInfo \<Rightarrow> nat list \<Rightarrow> nat \<Rightarrow> u64 list \<Rightarrow> u64 list outcome" where
  "fill_addresses v [] index addresses = Inr addresses"
| "fill_addresses v (i # is) index addresses =
     (let address = element_address (vi_base v) (vi_elementBitWidth v) (of_nat i)
      in if address \<noteq> vi_selectedAddress v
         then bind_outcome (set_index addresses index address) (fill_addresses v is (Suc index))
         else fill_addresses v is index addresses)"

definition getAllPossibleAddress :: "VectorInfo \<Rightarrow> u64 list outcome" where
  "getAllPossibleAddress v =
     (if vi_size v = 0 then Inl (Out_Of_Range ''std::vector(size - 1)'')
      else if 2 ^ 32 < unat (vi_size v) then Inl (Undefined ''endless loop'')
      else fill_addresses v [0..<unat (vi_size v)] 0 (replicate (unat (vi_size v - 1)) 0))"

lemma fill_addresses_ok:
  assumes "index + length (filter (\<lambda>i. element_address (vi_base v) (vi_elementBitWidth v) (of_nat i) \<noteq> vi_selectedAddress v) is)
     = length xs"
  shows "fill_addresses v is index xs =
    Inr (take index xs @ filter (\<lambda>a. a \<noteq> vi_selectedAddress v)
           (map (\<lambda>i. element_address (vi_base v) (vi_elementBitWidth v) (of_nat i)) is))"
  using assms
proof (induction "is" arbitrary: index xs)
  case Nil
  then show ?case by simp
next
  case (Cons i "is")
  let ?a = "element_address (vi_base v) (vi_elementBitWidth v) (of_nat i)"
  show ?case
  proof (cases "?a = vi_selectedAddress v")
    case True
    with Cons show ?thesis by simp
  next
    case False
    with Cons.prems have lt: "index < length xs" by simp
    then have "take (Suc index) (xs[index := ?a]) = take index xs @ [?a]"
      by (simp add: take_Suc_conv_app_nth)
    with False Cons.prems lt Cons.IH [of "Suc index" "xs[index := ?a]"] show ?thesis
      by (simp add: set_index_def)
  qed
qed


section \<open>Events\<close>

type_synonym kinst = nat
type_synonym event_ref = nat

datatype event_type = NORMAL | IGNORE | VIRTUAL

record event =
  ev_threadId :: uint
  ev_eventId :: uint
  ev_threadEventId :: uint
  ev_eventName :: string
  ev_inst :: kinst
  ev_varName :: string
  ev_globalVarFullName :: string
  ev_eventType :: event_type
  ev_latestWrite :: "event_ref option"
  ev_isGlobal :: bool
  ev_usefulGlobal :: bool
  ev_isLocal :: bool
  ev_isConditionIns :: bool
  ev_condition :: bool
  ev_isFunctionWithSourceCode :: bool
  ev_vectorInfo :: "VectorInfo option"
  ev_calledFunction :: "string option"
  ev_implicitGlobalVar :: "string list"
  ev_mutexName :: string
  ev_condName :: string
  ev_isIgnore :: bool
  ev_vectorClock :: "uint list"
  ev_value :: "expr list"
  ev_relatedSymbolicExpr :: "expr list"

type_synonym event_heap = "event_ref \<Rightarrow> event"

text \<open>
  The constructor sets every field but \<open>ev_threadEventId\<close>, which \<^verbatim>\<open>Trace::insertEvent\<close> assigns; its
  initial value is an argument of the model.
\<close>

definition Event :: "uint \<Rightarrow> uint \<Rightarrow> uint \<Rightarrow> string \<Rightarrow> kinst \<Rightarrow> string \<Rightarrow> string \<Rightarrow> event_type \<Rightarrow> event" where
  "Event junk tid eid name ki var full ty =
     \<lparr>ev_threadId = tid, ev_eventId = eid, ev_threadEventId = junk, ev_eventName = name, ev_inst = ki,
      ev_varName = var, ev_globalVarFullName = full, ev_eventType = ty, ev_latestWrite = None,
      ev_isGlobal = False, ev_usefulGlobal = False, ev_isLocal = False, ev_isConditionIns = False,
      ev_condition = False, ev_isFunctionWithSourceCode = True, ev_vectorInfo = None,
      ev_calledFunction = None, ev_implicitGlobalVar = [],
      ev_mutexName = [], ev_condName = [], ev_isIgnore = False, ev_vectorClock = [], ev_value = [],
      ev_relatedSymbolicExpr = []\<rparr>"

section \<open>Prefixes\<close>

record prefix =
  eventList :: "event_ref list"
  threadIdMap :: "event_ref \<rightharpoonup> u64"
  pos :: nat
  prefix_name :: string

definition Prefix :: "event_ref list \<Rightarrow> (event_ref \<rightharpoonup> u64) \<Rightarrow> string \<Rightarrow> prefix" where
  "Prefix evs m nm = \<lparr>eventList = evs, threadIdMap = m, pos = 0, prefix_name = nm\<rparr>"

definition reuse :: "prefix \<Rightarrow> prefix" where
  "reuse p = p\<lparr>pos := 0\<rparr>"

definition isFinished :: "prefix \<Rightarrow> bool" where
  "isFinished p \<longleftrightarrow> pos p = length (eventList p)"

definition getEventList :: "prefix \<Rightarrow> event_ref list" where
  "getEventList p = eventList p"

definition getName :: "prefix \<Rightarrow> string" where
  "getName p = prefix_name p"

definition increase :: "prefix \<Rightarrow> prefix" where
  "increase p = (if \<not> isFinished p then p\<lparr>pos := Suc (pos p)\<rparr> else p)"

text \<open>The events from \<open>current()\<close> to \<open>end()\<close>.\<close>

definition remaining :: "prefix \<Rightarrow> event_ref list" where
  "remaining p = drop (pos p) (eventList p)"

definition current_event :: "prefix \<Rightarrow> event_ref outcome" where
  "current_event p =
     bind_outcome (assert_that (\<not> isFinished p) ''!isFinished()'') (\<lambda>_. at_index (eventList p) (pos p))"

text \<open>\<open>ti->second\<close> of an absent key dereferences \<open>threadIdMap.end()\<close>.\<close>

definition getNextThreadId :: "prefix \<Rightarrow> u64 outcome" where
  "getNextThreadId p =
     bind_outcome (current_event p)
       (\<lambda>e. case threadIdMap p e of None \<Rightarrow> Inl (Undefined ''end()->second'') | Some t \<Rightarrow> Inr t)"

definition getCurrentEventThreadId :: "event_heap \<Rightarrow> prefix \<Rightarrow> uint outcome" where
  "getCurrentEventThreadId h p = bind_outcome (current_event p) (\<lambda>e. Inr (ev_threadId (h e)))"

definition getCurrentInst :: "event_heap \<Rightarrow> prefix \<Rightarrow> kinst outcome" where
  "getCurrentInst h p = bind_outcome (current_event p) (\<lambda>e. Inr (ev_inst (h e)))"

definition prefix_inv :: "prefix \<Rightarrow> bool" where
  "prefix_inv p \<longleftrightarrow> pos p \<le> length (eventList p)"

subsection \<open>The cursor\<close>

lemma prefix_inv_new [simp]: "prefix_inv (Prefix evs m nm)"
  by (simp add: prefix_inv_def Prefix_def)

lemma prefix_inv_reuse [simp]: "prefix_inv (reuse p)"
  by (simp add: prefix_inv_def reuse_def)

lemma prefix_inv_increase: "prefix_inv p \<Longrightarrow> prefix_inv (increase p)"
  by (auto simp: prefix_inv_def increase_def isFinished_def)

lemma isFinished_iff_remaining: "prefix_inv p \<Longrightarrow> isFinished p \<longleftrightarrow> remaining p = []"
  by (auto simp: isFinished_def remaining_def prefix_inv_def)

lemma current_event_remaining:
  "prefix_inv p \<Longrightarrow> \<not> isFinished p \<Longrightarrow> current_event p = Inr (hd (remaining p))"
  by (simp add: current_event_def at_index_def isFinished_def prefix_inv_def remaining_def hd_drop_conv_nth)

lemma current_event_finished: "isFinished p \<Longrightarrow> current_event p = Inl (Assertion ''!isFinished()'')"
  by (simp add: current_event_def)

lemma remaining_increase: "prefix_inv p \<Longrightarrow> remaining (increase p) = tl (remaining p)"
  by (auto simp: remaining_def increase_def isFinished_def prefix_inv_def drop_Suc tl_drop)

lemma remaining_reuse: "remaining (reuse p) = eventList p"
  by (simp add: remaining_def reuse_def)

text \<open>
  Replaying: ask for the thread of the current event and advance, as the interpreter does
  once per instruction.
\<close>

fun replay_threads :: "event_heap \<Rightarrow> nat \<Rightarrow> prefix \<Rightarrow> uint list outcome" where
  "replay_threads h 0 p = Inr []"
| "replay_threads h (Suc n) p =
     bind_outcome (getCurrentEventThreadId h p)
       (\<lambda>t. bind_outcome (replay_threads h n (increase p)) (\<lambda>ts. Inr (t # ts)))"

lemma replay_threads_remaining:
  "prefix_inv p \<Longrightarrow> n = length (remaining p) \<Longrightarrow>
     replay_threads h n p = Inr (map (\<lambda>e. ev_threadId (h e)) (remaining p))"
proof (induction n arbitrary: p)
  case 0
  then show ?case by simp
next
  case (Suc n)
  then have unfinished: "\<not> isFinished p" and cons: "remaining p \<noteq> []"
    by (auto simp: isFinished_iff_remaining)
  have "replay_threads h n (increase p) = Inr (map (\<lambda>e. ev_threadId (h e)) (remaining (increase p)))"
    using Suc by (intro Suc.IH) (simp_all add: prefix_inv_increase remaining_increase)
  then show ?case
    using Suc.prems unfinished cons
    by (cases "remaining p")
       (simp_all add: getCurrentEventThreadId_def current_event_remaining remaining_increase)
qed


section \<open>Properties\<close>

text \<open>The addresses of a byte-aligned array that fits in the address space are distinct.\<close>

lemma element_address_inject:
  assumes "n * k < 2 ^ 64 div 8" and "0 < k" and "i < n" and "j < n"
  shows "element_address b (of_nat (8 * k)) (of_nat i) = element_address b (of_nat (8 * k)) (of_nat j) \<longleftrightarrow> i = j"
proof -
  have offset: "(of_nat m * of_nat (8 * k) :: u64) div 8 = of_nat (m * k)" if "m < n" for m
  proof -
    from that have "m * k \<le> n * k" by simp
    with assms(1) have lt: "m * k * 8 < 2 ^ 64" by linarith
    have "(of_nat m * of_nat (8 * k) :: u64) = of_nat (m * k * 8)" by (simp add: ac_simps)
    moreover have "unat (of_nat (m * k * 8) :: u64) = m * k * 8"
      using lt by (simp add: unat_of_nat del: of_nat_mult)
    ultimately show ?thesis by (simp add: word_arith_nat_div del: of_nat_mult)
  qed
  have small: "m * k < 2 ^ 64" if "m < n" for m
  proof -
    from that have "m * k \<le> n * k" by simp
    with assms(1) show ?thesis by linarith
  qed
  have "(of_nat (i * k) :: u64) = of_nat (j * k) \<longleftrightarrow> i * k = j * k"
    using small [OF assms(3)] small [OF assms(4)] by (simp add: word_of_nat_eq_iff take_bit_nat_eq_self del: of_nat_mult)
  with assms show ?thesis by (simp add: element_address_def offset del: of_nat_mult)
qed



text \<open>
  (C32) Replaying a prefix from its start hands out the thread ids of its events, each once and in
  order, and never reads past the end.
\<close>

theorem Prefix_replays_in_order:
  "replay_threads h (length evs) (Prefix evs m nm) = Inr (map (\<lambda>e. ev_threadId (h e)) evs)"
proof -
  have "remaining (Prefix evs m nm) = evs" by (simp add: remaining_def Prefix_def)
  then show ?thesis using replay_threads_remaining [of "Prefix evs m nm" "length evs" h] by simp
qed

end
