(* ===== verification/Thread_Schedulers.thy ===== *)
theory Thread_Schedulers
  imports Scheduler_Spec Events
begin

text \<open>
  \<^verbatim>\<open>src/lib/Core/ThreadScheduler.cpp\<close>: the schedulers that choose the thread of the next
  instruction. A \<open>Thread*\<close> is represented by the id of its thread. A thread scheduler, unlike the
  waiting queues, keeps the thread it selects in its queue.

  Each policy meets the contract \<open>thread_queue\<close>, and every scheduler, the guided one included,
  the contract \<open>thread_pool\<close>. Round robin is shown to be fair by the exact sequence of
  its choices, and the preemptive policy to alternate between its two newest threads only.
\<close>

section \<open>Round robin\<close>

record rr_scheduler =
  rr_queue :: "uint list"
  rr_count :: uint

definition MAXINST :: uint where
  "MAXINST = 100"

definition new_RRThreadScheduler :: rr_scheduler where
  "new_RRThreadScheduler = \<lparr>rr_queue = [], rr_count = 0\<rparr>"

text \<open>
  The copy constructors look each thread up with \<open>threadMap[id]\<close>, a null pointer when the id is
  absent; the round-robin one leaves \<open>count\<close> uninitialised, an argument here.
\<close>

definition copy_queue :: "(uint \<rightharpoonup> uint) \<Rightarrow> uint list \<Rightarrow> uint option list" where
  "copy_queue threadMap q = map threadMap q"

definition RR_copy :: "uint \<Rightarrow> (uint \<rightharpoonup> uint) \<Rightarrow> rr_scheduler \<Rightarrow> uint option list \<times> uint" where
  "RR_copy junk threadMap s = (copy_queue threadMap (rr_queue s), junk)"

definition RR_selectCurrentItem :: "rr_scheduler \<Rightarrow> uint outcome" where
  "RR_selectCurrentItem s = front_of (rr_queue s)"

definition RR_reSchedule :: "rr_scheduler \<Rightarrow> rr_scheduler outcome" where
  "RR_reSchedule s =
     bind_outcome (front_of (rr_queue s))
       (\<lambda>thread. Inr (s\<lparr>rr_queue := tl (rr_queue s) @ [thread], rr_count := 0\<rparr>))"

definition RR_selectNextItem :: "rr_scheduler \<Rightarrow> (uint \<times> rr_scheduler) outcome" where
  "RR_selectNextItem s =
     bind_outcome (if MAXINST < rr_count s then RR_reSchedule s else Inr s)
       (\<lambda>s. let s = s\<lparr>rr_count := rr_count s + 1\<rparr>
            in bind_outcome (front_of (rr_queue s)) (\<lambda>thread. Inr (thread, s)))"

definition RR_popAllItem :: "uint list \<Rightarrow> rr_scheduler \<Rightarrow> uint list \<times> rr_scheduler" where
  "RR_popAllItem allItem s = (allItem @ rr_queue s, s\<lparr>rr_queue := []\<rparr>)"

definition RR_itemNum :: "rr_scheduler \<Rightarrow> nat" where
  "RR_itemNum s = length (rr_queue s)"

definition RR_isSchedulerEmpty :: "rr_scheduler \<Rightarrow> bool" where
  "RR_isSchedulerEmpty s \<longleftrightarrow> rr_queue s = []"

definition RR_addItem :: "rr_scheduler \<Rightarrow> uint \<Rightarrow> rr_scheduler" where
  "RR_addItem s item = s\<lparr>rr_queue := rr_queue s @ [item]\<rparr>"

definition RR_removeItem :: "rr_scheduler \<Rightarrow> uint \<Rightarrow> rr_scheduler" where
  "RR_removeItem s item = s\<lparr>rr_queue := snd (take_first (\<lambda>t. t = item) (rr_queue s))\<rparr>"

definition RR_setCountZero :: "rr_scheduler \<Rightarrow> rr_scheduler" where
  "RR_setCountZero s = s\<lparr>rr_count := 0\<rparr>"

text \<open>What \<open>printAllItem\<close> shows of a thread depends on its code, hence the argument \<open>describe\<close>.\<close>

definition printAllThreads :: "(uint \<Rightarrow> string) \<Rightarrow> uint list \<Rightarrow> string" where
  "printAllThreads describe queue = concat (map (\<lambda>t. describe t @ [CHR 0x0A]) queue)"


section \<open>First in, first served\<close>

definition FIFSThread_selectNextItem :: "uint list \<Rightarrow> (uint \<times> uint list) outcome" where
  "FIFSThread_selectNextItem queue = bind_outcome (front_of queue) (\<lambda>t. Inr (t, queue))"

definition FIFSThread_popAllItem :: "uint list \<Rightarrow> uint list \<Rightarrow> uint list \<times> uint list" where
  "FIFSThread_popAllItem allItem queue = (allItem @ queue, [])"

definition FIFSThread_itemNum :: "uint list \<Rightarrow> nat" where
  "FIFSThread_itemNum queue = length queue"

definition FIFSThread_isSchedulerEmpty :: "uint list \<Rightarrow> bool" where
  "FIFSThread_isSchedulerEmpty queue \<longleftrightarrow> queue = []"

definition FIFSThread_addItem :: "uint list \<Rightarrow> uint \<Rightarrow> uint list" where
  "FIFSThread_addItem queue item = queue @ [item]"

definition FIFSThread_removeItem :: "uint list \<Rightarrow> uint \<Rightarrow> uint list" where
  "FIFSThread_removeItem queue item = snd (take_first (\<lambda>t. t = item) queue)"

definition FIFSThread_reSchedule :: "uint list \<Rightarrow> uint list outcome" where
  "FIFSThread_reSchedule queue = bind_outcome (front_of queue) (\<lambda>t. Inr (tl queue @ [t]))"


section \<open>Preemptive\<close>

definition PreemptiveThread_selectNextItem :: "uint list \<Rightarrow> (uint \<times> uint list) outcome" where
  "PreemptiveThread_selectNextItem queue = bind_outcome (back_of queue) (\<lambda>t. Inr (t, queue))"

definition PreemptiveThread_popAllItem :: "uint list \<Rightarrow> uint list \<Rightarrow> uint list \<times> uint list" where
  "PreemptiveThread_popAllItem allItem queue = (allItem @ queue, [])"

definition PreemptiveThread_itemNum :: "uint list \<Rightarrow> nat" where
  "PreemptiveThread_itemNum queue = length queue"

definition PreemptiveThread_isSchedulerEmpty :: "uint list \<Rightarrow> bool" where
  "PreemptiveThread_isSchedulerEmpty queue \<longleftrightarrow> queue = []"

definition PreemptiveThread_addItem :: "uint list \<Rightarrow> uint \<Rightarrow> uint list" where
  "PreemptiveThread_addItem queue item = queue @ [item]"

definition PreemptiveThread_removeItem :: "uint list \<Rightarrow> uint \<Rightarrow> uint list" where
  "PreemptiveThread_removeItem queue item = snd (take_first (\<lambda>t. t = item) queue)"

text \<open>
  The last thread is taken out and inserted before the last of the others; with one thread
  the iterator \<open>end()\<close> of an empty list is decremented.
\<close>

definition PreemptiveThread_reSchedule :: "uint list \<Rightarrow> uint list outcome" where
  "PreemptiveThread_reSchedule queue =
     bind_outcome (back_of queue)
       (\<lambda>thread. let q = butlast queue
                 in if q = [] then Inl (Undefined ''--end()'')
                    else Inr (butlast q @ [thread, last q]))"


section \<open>Dispatch and \<open>GuidedThreadScheduler\<close>\<close>

datatype ThreadSchedulerType = RR_type | FIFS_type | Preemptive_type

datatype thread_scheduler =
    RRThreadScheduler rr_scheduler
  | FIFSThreadScheduler "uint list"
  | PreemptiveThreadScheduler "uint list"
  | GuidedThreadScheduler thread_scheduler

fun getThreadSchedulerByType :: "ThreadSchedulerType \<Rightarrow> thread_scheduler" where
  "getThreadSchedulerByType RR_type = RRThreadScheduler new_RRThreadScheduler"
| "getThreadSchedulerByType FIFS_type = FIFSThreadScheduler []"
| "getThreadSchedulerByType Preemptive_type = PreemptiveThreadScheduler []"

definition new_GuidedThreadScheduler :: "ThreadSchedulerType \<Rightarrow> thread_scheduler" where
  "new_GuidedThreadScheduler ty = GuidedThreadScheduler (getThreadSchedulerByType ty)"

fun scheduled :: "thread_scheduler \<Rightarrow> uint list" where
  "scheduled (RRThreadScheduler s) = rr_queue s"
| "scheduled (FIFSThreadScheduler q) = q"
| "scheduled (PreemptiveThreadScheduler q) = q"
| "scheduled (GuidedThreadScheduler b) = scheduled b"

fun Thread_addItem :: "thread_scheduler \<Rightarrow> uint \<Rightarrow> thread_scheduler" where
  "Thread_addItem (RRThreadScheduler s) t = RRThreadScheduler (RR_addItem s t)"
| "Thread_addItem (FIFSThreadScheduler q) t = FIFSThreadScheduler (FIFSThread_addItem q t)"
| "Thread_addItem (PreemptiveThreadScheduler q) t = PreemptiveThreadScheduler (PreemptiveThread_addItem q t)"
| "Thread_addItem (GuidedThreadScheduler b) t = GuidedThreadScheduler (Thread_addItem b t)"

fun Thread_removeItem :: "thread_scheduler \<Rightarrow> uint \<Rightarrow> thread_scheduler" where
  "Thread_removeItem (RRThreadScheduler s) t = RRThreadScheduler (RR_removeItem s t)"
| "Thread_removeItem (FIFSThreadScheduler q) t = FIFSThreadScheduler (FIFSThread_removeItem q t)"
| "Thread_removeItem (PreemptiveThreadScheduler q) t =
     PreemptiveThreadScheduler (PreemptiveThread_removeItem q t)"
| "Thread_removeItem (GuidedThreadScheduler b) t = GuidedThreadScheduler (Thread_removeItem b t)"

fun Thread_popAllItem :: "uint list \<Rightarrow> thread_scheduler \<Rightarrow> uint list \<times> thread_scheduler" where
  "Thread_popAllItem all (RRThreadScheduler s) = apsnd RRThreadScheduler (RR_popAllItem all s)"
| "Thread_popAllItem all (FIFSThreadScheduler q) = apsnd FIFSThreadScheduler (FIFSThread_popAllItem all q)"
| "Thread_popAllItem all (PreemptiveThreadScheduler q) =
     apsnd PreemptiveThreadScheduler (PreemptiveThread_popAllItem all q)"
| "Thread_popAllItem all (GuidedThreadScheduler b) = apsnd GuidedThreadScheduler (Thread_popAllItem all b)"

fun Thread_itemNum :: "thread_scheduler \<Rightarrow> nat" where
  "Thread_itemNum (RRThreadScheduler s) = RR_itemNum s"
| "Thread_itemNum (FIFSThreadScheduler q) = FIFSThread_itemNum q"
| "Thread_itemNum (PreemptiveThreadScheduler q) = PreemptiveThread_itemNum q"
| "Thread_itemNum (GuidedThreadScheduler b) = Thread_itemNum b"

fun Thread_isSchedulerEmpty :: "thread_scheduler \<Rightarrow> bool" where
  "Thread_isSchedulerEmpty (RRThreadScheduler s) = RR_isSchedulerEmpty s"
| "Thread_isSchedulerEmpty (FIFSThreadScheduler q) = FIFSThread_isSchedulerEmpty q"
| "Thread_isSchedulerEmpty (PreemptiveThreadScheduler q) = PreemptiveThread_isSchedulerEmpty q"
| "Thread_isSchedulerEmpty (GuidedThreadScheduler b) = Thread_isSchedulerEmpty b"

fun Thread_reSchedule :: "thread_scheduler \<Rightarrow> thread_scheduler outcome" where
  "Thread_reSchedule (RRThreadScheduler s) =
     bind_outcome (RR_reSchedule s) (\<lambda>s. Inr (RRThreadScheduler s))"
| "Thread_reSchedule (FIFSThreadScheduler q) =
     bind_outcome (FIFSThread_reSchedule q) (\<lambda>q. Inr (FIFSThreadScheduler q))"
| "Thread_reSchedule (PreemptiveThreadScheduler q) =
     bind_outcome (PreemptiveThread_reSchedule q) (\<lambda>q. Inr (PreemptiveThreadScheduler q))"
| "Thread_reSchedule (GuidedThreadScheduler b) =
     bind_outcome (Thread_reSchedule b) (\<lambda>b. Inr (GuidedThreadScheduler b))"

text \<open>
  While the prefix lasts, the guided scheduler asks the state for the thread of the current
  event (\<open>findThreadById\<close>, an argument that can fail its assertion).
\<close>

fun Thread_selectNextItem ::
  "event_heap \<Rightarrow> prefix \<Rightarrow> (uint \<Rightarrow> uint outcome) \<Rightarrow> thread_scheduler \<Rightarrow> (uint \<times> thread_scheduler) outcome" where
  "Thread_selectNextItem h p findThreadById (RRThreadScheduler s) =
     bind_outcome (RR_selectNextItem s) (\<lambda>(t, s). Inr (t, RRThreadScheduler s))"
| "Thread_selectNextItem h p findThreadById (FIFSThreadScheduler q) =
     bind_outcome (FIFSThread_selectNextItem q) (\<lambda>(t, q). Inr (t, FIFSThreadScheduler q))"
| "Thread_selectNextItem h p findThreadById (PreemptiveThreadScheduler q) =
     bind_outcome (PreemptiveThread_selectNextItem q) (\<lambda>(t, q). Inr (t, PreemptiveThreadScheduler q))"
| "Thread_selectNextItem h p findThreadById (GuidedThreadScheduler b) =
     (if \<not> isFinished p
      then bind_outcome (getCurrentEventThreadId h p)
             (\<lambda>threadId. bind_outcome (findThreadById threadId) (\<lambda>t. Inr (t, GuidedThreadScheduler b)))
      else bind_outcome (Thread_selectNextItem h p findThreadById b) (\<lambda>(t, b). Inr (t, GuidedThreadScheduler b)))"

text \<open>\<open>selectCurrentItem\<close> is \<open>selectNextItem\<close> in every class but the round-robin one.\<close>

fun Thread_selectCurrentItem ::
  "event_heap \<Rightarrow> prefix \<Rightarrow> (uint \<Rightarrow> uint outcome) \<Rightarrow> thread_scheduler \<Rightarrow> (uint \<times> thread_scheduler) outcome" where
  "Thread_selectCurrentItem h p findThreadById (RRThreadScheduler s) =
     bind_outcome (RR_selectCurrentItem s) (\<lambda>t. Inr (t, RRThreadScheduler s))"
| "Thread_selectCurrentItem h p findThreadById s = Thread_selectNextItem h p findThreadById s"


section \<open>Contracts\<close>

lemmas RR_defs = RR_reSchedule_def RR_selectNextItem_def RR_popAllItem_def RR_itemNum_def
  RR_isSchedulerEmpty_def RR_addItem_def RR_removeItem_def RR_selectCurrentItem_def

lemmas FIFSThread_defs = FIFSThread_selectNextItem_def FIFSThread_popAllItem_def FIFSThread_itemNum_def
  FIFSThread_isSchedulerEmpty_def FIFSThread_addItem_def FIFSThread_removeItem_def FIFSThread_reSchedule_def

lemmas PreemptiveThread_defs = PreemptiveThread_selectNextItem_def PreemptiveThread_popAllItem_def
  PreemptiveThread_itemNum_def PreemptiveThread_isSchedulerEmpty_def PreemptiveThread_addItem_def
  PreemptiveThread_removeItem_def PreemptiveThread_reSchedule_def

lemma RR_reSchedule_mset: "RR_reSchedule s = Inr s' \<Longrightarrow> mset (rr_queue s') = mset (rr_queue s)"
  by (cases "rr_queue s") (auto simp: RR_reSchedule_def)

lemma RR_select_queue:
  assumes "RR_selectNextItem s = Inr (t, s')"
  shows "mset (rr_queue s') = mset (rr_queue s)" and "t \<in> set (rr_queue s)"
proof -
  from assms obtain s1 where s1: "(if MAXINST < rr_count s then RR_reSchedule s else Inr s) = Inr s1"
    and s': "s' = s1\<lparr>rr_count := rr_count s1 + 1\<rparr>" and t: "rr_queue s1 \<noteq> []" "t = hd (rr_queue s1)"
    by (auto simp: RR_selectNextItem_def Let_def outcome_simps)
  from s1 have m: "mset (rr_queue s1) = mset (rr_queue s)"
    by (auto split: if_splits dest: RR_reSchedule_mset)
  with s' show "mset (rr_queue s') = mset (rr_queue s)" by simp
  from t have "t \<in> set (rr_queue s1)" by simp
  with m show "t \<in> set (rr_queue s)" by (metis mset_eq_setD)
qed

lemma RR_select_defined: "rr_queue s \<noteq> [] \<Longrightarrow> \<exists>r. RR_selectNextItem s = Inr r"
  by (cases "rr_queue s") (auto simp: RR_defs Let_def front_of_def split: list.splits)

interpretation rr: thread_queue rr_queue RR_addItem RR_removeItem RR_selectNextItem RR_reSchedule
    RR_isSchedulerEmpty
proof
  show "mset (rr_queue (RR_removeItem s t)) = mset (rr_queue s) - {#t#}" for s t
    by (simp add: RR_removeItem_def take_first_remove1)
  show "\<exists>r. RR_selectNextItem s = Inr r" if "rr_queue s \<noteq> []" for s
    using that by (rule RR_select_defined)
qed (auto simp: RR_addItem_def RR_isSchedulerEmpty_def RR_select_queue RR_reSchedule_mset)

interpretation fifs_thread: thread_queue "\<lambda>q. q" FIFSThread_addItem FIFSThread_removeItem
    FIFSThread_selectNextItem FIFSThread_reSchedule FIFSThread_isSchedulerEmpty
proof
  show "mset q' = mset q" if "FIFSThread_reSchedule q = Inr q'" for q q'
    using that by (cases q) (auto simp: FIFSThread_defs)
  show "\<exists>r. FIFSThread_selectNextItem q = Inr r" if "q \<noteq> []" for q
    using that by (cases q) (auto simp: FIFSThread_defs)
qed (auto simp: FIFSThread_defs take_first_remove1 outcome_simps)

lemma PreemptiveThread_reSchedule_eq:
  "PreemptiveThread_reSchedule (ts @ [a, b]) = Inr (ts @ [b, a])"
  by (simp add: PreemptiveThread_reSchedule_def back_of_def butlast_append)

lemma PreemptiveThread_reSchedule_cases:
  assumes "PreemptiveThread_reSchedule q = Inr q'"
  obtains ts a b where "q = ts @ [a, b]" "q' = ts @ [b, a]"
proof -
  from assms have q: "q \<noteq> []" "butlast q \<noteq> []" and q': "q' = butlast (butlast q) @ [last q, last (butlast q)]"
    by (auto simp: PreemptiveThread_reSchedule_def outcome_simps Let_def split: if_splits)
  from q have "q = butlast (butlast q) @ [last (butlast q), last q]"
    by (metis append.assoc append_Cons append_Nil append_butlast_last_id)
  with q' show ?thesis using that by blast
qed

interpretation preemptive_thread: thread_queue "\<lambda>q. q" PreemptiveThread_addItem PreemptiveThread_removeItem
    PreemptiveThread_selectNextItem PreemptiveThread_reSchedule PreemptiveThread_isSchedulerEmpty
proof
  show "mset q' = mset q" if "PreemptiveThread_reSchedule q = Inr q'" for q q'
    using that by (rule PreemptiveThread_reSchedule_cases) simp
qed (auto simp: PreemptiveThread_selectNextItem_def PreemptiveThread_addItem_def
      PreemptiveThread_isSchedulerEmpty_def PreemptiveThread_removeItem_def take_first_remove1 outcome_simps
      back_of_def split: if_splits)

lemma scheduled_addItem [simp]: "scheduled (Thread_addItem s t) = scheduled s @ [t]"
  by (induction s) (simp_all add: RR_addItem_def FIFSThread_addItem_def PreemptiveThread_addItem_def)

lemma scheduled_removeItem [simp]: "scheduled (Thread_removeItem s t) = remove1 t (scheduled s)"
  by (induction s)
     (simp_all add: RR_removeItem_def FIFSThread_removeItem_def PreemptiveThread_removeItem_def take_first_remove1)

lemma isSchedulerEmpty_scheduled [simp]: "Thread_isSchedulerEmpty s \<longleftrightarrow> scheduled s = []"
  by (induction s)
     (simp_all add: RR_isSchedulerEmpty_def FIFSThread_isSchedulerEmpty_def PreemptiveThread_isSchedulerEmpty_def)

lemma itemNum_scheduled [simp]: "Thread_itemNum s = length (scheduled s)"
  by (induction s) (simp_all add: RR_itemNum_def FIFSThread_itemNum_def PreemptiveThread_itemNum_def)

lemma popAllItem_scheduled [simp]:
  "fst (Thread_popAllItem all s) = all @ scheduled s" "scheduled (snd (Thread_popAllItem all s)) = []"
  by (induction s) (simp_all add: RR_popAllItem_def FIFSThread_popAllItem_def PreemptiveThread_popAllItem_def)

lemma Thread_select_mset:
  "Thread_selectNextItem h p f s = Inr (t, s') \<Longrightarrow> mset (scheduled s') = mset (scheduled s)"
proof (induction s arbitrary: t s')
  case (RRThreadScheduler s)
  then show ?case by (auto simp: outcome_simps RR_select_queue)
next
  case (GuidedThreadScheduler b)
  then show ?case by (auto simp: outcome_simps split: if_splits)
qed (auto simp: outcome_simps FIFSThread_selectNextItem_def PreemptiveThread_selectNextItem_def)

lemma Thread_selectCurrent_mset:
  "Thread_selectCurrentItem h p f s = Inr (t, s') \<Longrightarrow> mset (scheduled s') = mset (scheduled s)"
  by (cases s) (auto simp: outcome_simps dest: Thread_select_mset simp del: Thread_selectNextItem.simps)

lemma Thread_reSchedule_mset:
  "Thread_reSchedule s = Inr s' \<Longrightarrow> mset (scheduled s') = mset (scheduled s)"
  by (induction s arbitrary: s')
     (auto simp: outcome_simps RR_reSchedule_mset fifs_thread.threads_reSchedule
       preemptive_thread.threads_reSchedule)

interpretation scheduler: thread_pool scheduled Thread_addItem Thread_removeItem
    "Thread_selectNextItem h p f" Thread_reSchedule Thread_isSchedulerEmpty for h p f
  by unfold_locales (auto simp: Thread_select_mset Thread_reSchedule_mset)

text \<open>Outside a replay every scheduler chooses a thread of its queue.\<close>

lemma Thread_select_member:
  "isFinished p \<Longrightarrow> Thread_selectNextItem h p f s = Inr (t, s') \<Longrightarrow> t \<in> set (scheduled s)"
proof (induction s arbitrary: t s')
  case (RRThreadScheduler s)
  then show ?case by (auto simp: outcome_simps RR_select_queue)
qed (auto simp: outcome_simps FIFSThread_selectNextItem_def PreemptiveThread_selectNextItem_def)


section \<open>Fairness of round robin\<close>

text \<open>The threads of \<open>n\<close> consecutive selections.\<close>

fun RR_run :: "nat \<Rightarrow> rr_scheduler \<Rightarrow> uint list outcome" where
  "RR_run 0 s = Inr []"
| "RR_run (Suc n) s =
     bind_outcome (RR_selectNextItem s) (\<lambda>(t, s'). bind_outcome (RR_run n s') (\<lambda>ts. Inr (t # ts)))"

lemma RR_select_rotate:
  assumes "q \<noteq> []" and "c \<le> 101"
  shows "RR_selectNextItem \<lparr>rr_queue = rotate m q, rr_count = of_nat c\<rparr> =
    (if c = 101
     then Inr (q ! (Suc m mod length q), \<lparr>rr_queue = rotate (Suc m) q, rr_count = of_nat 1\<rparr>)
     else Inr (q ! (m mod length q), \<lparr>rr_queue = rotate m q, rr_count = of_nat (Suc c)\<rparr>))"
proof -
  have front: "front_of (rotate k q) = Inr (q ! (k mod length q))" for k
    using assms(1) by (cases "rotate k q") (auto simp: hd_rotate_conv_nth [symmetric])
  have rot: "tl (rotate m q) @ [q ! (m mod length q)] = rotate (Suc m) q"
    using assms(1) by (simp add: rotate1_hd_tl hd_rotate_conv_nth)
  have cnt: "MAXINST < (of_nat c :: uint) \<longleftrightarrow> c = 101"
    using assms(2) by (auto simp: MAXINST_def word_less_nat_alt unat_of_nat)
  show ?thesis
    by (simp add: RR_selectNextItem_def RR_reSchedule_def cnt front rot Let_def add.commute del: rotate_Suc)
qed

lemma RR_run_rotate:
  assumes "q \<noteq> []"
  shows "c \<le> 101 \<Longrightarrow> RR_run n \<lparr>rr_queue = rotate m q, rr_count = of_nat c\<rparr> =
    Inr (map (\<lambda>i. q ! (((101 * m + c + i) div 101) mod length q)) [0..<n])"
proof (induction n arbitrary: m c)
  case 0
  then show ?case by simp
next
  case (Suc n)
  have shift: "map f [0..<Suc n] = f 0 # map (\<lambda>i. f (Suc i)) [0..<n]" for f :: "nat \<Rightarrow> uint"
    by (simp add: upt_conv_Cons map_Suc_upt [symmetric] comp_def del: upt_Suc)
  note step = RR_select_rotate [OF assms Suc.prems, of m]
  show ?case
  proof (cases "c = 101")
    case True
    then have "101 * m + c + Suc i = 101 * Suc m + 1 + i" for i by simp
    with True show ?thesis
      using Suc.IH [of 1 "Suc m"] step by (simp add: shift add.assoc [symmetric] del: upt_Suc rotate_Suc)
  next
    case False
    with Suc.prems have "Suc c \<le> 101" and "(101 * m + c) div 101 = m" by simp_all
    with False show ?thesis
      using Suc.IH [of "Suc c" m] step by (simp add: shift del: upt_Suc rotate_Suc of_nat_Suc)
  qed
qed


section \<open>The preemptive policy\<close>

text \<open>A client that selects and reschedules \<open>n\<close> times.\<close>

fun Preemptive_run :: "nat \<Rightarrow> uint list \<Rightarrow> uint list outcome" where
  "Preemptive_run 0 q = Inr []"
| "Preemptive_run (Suc n) q =
     bind_outcome (PreemptiveThread_selectNextItem q)
       (\<lambda>(t, q'). bind_outcome (PreemptiveThread_reSchedule q')
          (\<lambda>q''. bind_outcome (Preemptive_run n q'') (\<lambda>ts. Inr (t # ts))))"

lemma Preemptive_run_alternates:
  "Preemptive_run n (ts @ [a, b]) = Inr (map (\<lambda>i. if even i then b else a) [0..<n])"
proof (induction n arbitrary: a b)
  case 0
  then show ?case by simp
next
  case (Suc n)
  show ?case
    by (simp add: PreemptiveThread_selectNextItem_def back_of_def PreemptiveThread_reSchedule_eq Suc
        upt_conv_Cons map_Suc_upt [symmetric] comp_def del: upt_Suc)
qed


section \<open>Properties\<close>

text \<open>
  (C20) Round robin is fair, to the exact schedule: from a fresh count, the \<open>i\<close>-th selection (from
  \<open>0\<close>) serves the thread at position \<open>i div 101\<close> of the queue, taken cyclically, so every thread is
  served for 101 consecutive selections in each round.
\<close>

theorem RR_exact_schedule:
  assumes "q \<noteq> []"
  shows "RR_run n \<lparr>rr_queue = q, rr_count = 0\<rparr> = Inr (map (\<lambda>i. q ! ((i div 101) mod length q)) [0..<n])"
  using RR_run_rotate [OF assms, of 0 n 0] by simp

theorem RR_exact_schedule_witness:
  "RR_run 3 \<lparr>rr_queue = [1, 2], rr_count = 0\<rparr> = Inr [1, 1, 1]"
proof -
  have "[0..<3] = [0, 1, 2 :: nat]" by (simp add: upt_rec)
  then show ?thesis using RR_exact_schedule [of "[1, 2]" 3] by simp
qed



end
