(* ===== verification/Thread_List.thy ===== *)
theory Thread_List
  imports Thread_Schedulers
begin

text \<open>
  \<^verbatim>\<open>src/lib/Core/Thread.h\<close>, \<^verbatim>\<open>Thread.cpp\<close>, \<^verbatim>\<open>ThreadList.cpp\<close> and the threads of \<^verbatim>\<open>ExecutionState.cpp\<close>. A
  thread object is owned by the slot of its id in \<open>allThreads\<close>, and a \<open>Thread*\<close> is that id; changing
  a thread through a pointer changes its slot. A state's scheduler and its current thread refer
  to threads by id.

  The thread list is shown to keep a thread per id, whose slot every id leads to.
\<close>

section \<open>Threads\<close>

datatype ThreadState = RUNNABLE | MUTEX_BLOCKED | COND_BLOCKED | BARRIER_BLOCKED | JOIN_BLOCKED | TERMINATED

text \<open>What the thread code uses of a \<open>KFunction\<close>: its first instruction and its register count.\<close>

record kfunction =
  kf_instructions :: kinst
  kf_numRegisters :: nat

record stack_frame =
  sf_caller :: "kinst option"
  sf_kf :: kfunction
  sf_callPathNode :: "nat option"
  sf_allocas :: "nat list"
  sf_locals :: "nat option list"
  sf_minDistToUncoveredOnReturn :: uint
  sf_varargs :: "nat option"

definition StackFrame :: "kinst option \<Rightarrow> kfunction \<Rightarrow> stack_frame" where
  "StackFrame caller kf =
     \<lparr>sf_caller = caller, sf_kf = kf, sf_callPathNode = None, sf_allocas = [],
      sf_locals = replicate (kf_numRegisters kf) None, sf_minDistToUncoveredOnReturn = 0, sf_varargs = None\<rparr>"

record thread =
  th_pc :: kinst
  th_prevPC :: kinst
  th_incomingBBIndex :: uint
  th_threadId :: uint
  th_parentThread :: "uint option"
  th_threadState :: ThreadState
  th_stack :: "stack_frame list"
  th_vectorClock :: "uint list"

definition pushFrame :: "thread \<Rightarrow> kinst option \<Rightarrow> kfunction \<Rightarrow> thread" where
  "pushFrame th caller kf = th\<lparr>th_stack := th_stack th @ [StackFrame caller kf]\<rparr>"

text \<open>\<open>popFrame\<close> also unbinds the frame's \<open>alloca\<close>s, which are returned.\<close>

definition popFrame :: "thread \<Rightarrow> (nat list \<times> thread) outcome" where
  "popFrame th =
     bind_outcome (back_of (th_stack th))
       (\<lambda>sf. Inr (sf_allocas sf, th\<lparr>th_stack := butlast (th_stack th)\<rparr>))"

definition new_Thread :: "uint \<Rightarrow> uint option \<Rightarrow> kfunction \<Rightarrow> thread" where
  "new_Thread tid parent kf =
     pushFrame
       \<lparr>th_pc = kf_instructions kf, th_prevPC = kf_instructions kf, th_incomingBBIndex = 0,
        th_threadId = tid, th_parentThread = parent, th_threadState = RUNNABLE, th_stack = [],
        th_vectorClock = replicate 5 0\<rparr> None kf"

text \<open>The copy constructor does not copy the vector clock.\<close>

definition copy_Thread :: "thread \<Rightarrow> thread" where
  "copy_Thread th = th\<lparr>th_vectorClock := replicate 5 0\<rparr>"

definition isRunnable :: "thread \<Rightarrow> bool" where
  "isRunnable th \<longleftrightarrow> th_threadState th = RUNNABLE"

definition isMutexBlocked :: "thread \<Rightarrow> bool" where
  "isMutexBlocked th \<longleftrightarrow> th_threadState th = MUTEX_BLOCKED"

definition isTerminated :: "thread \<Rightarrow> bool" where
  "isTerminated th \<longleftrightarrow> th_threadState th = TERMINATED"

definition isSchedulable :: "thread \<Rightarrow> bool" where
  "isSchedulable th \<longleftrightarrow> isRunnable th \<or> isMutexBlocked th"

text \<open>The static counter: an id is handed out while the counter stays within \<open>6\<close>.\<close>

definition Thread_getNextThreadId :: "uint \<Rightarrow> (uint \<times> uint) outcome" where
  "Thread_getNextThreadId nextThreadId =
     (let next = nextThreadId + 1
      in bind_outcome (assert_that (next \<le> 6) ''nextThreadId <= 6'') (\<lambda>_. Inr (nextThreadId, next)))"


section \<open>\<open>ThreadList\<close>\<close>

record thread_list =
  tl_allThreads :: "thread option list"
  tl_index :: "uint list"
  tl_threadNum :: nat

definition new_ThreadList :: thread_list where
  "new_ThreadList = \<lparr>tl_allThreads = replicate 20 None, tl_index = [], tl_threadNum = 0\<rparr>"

text \<open>\<open>vector::resize\<close> with null pointers.\<close>

definition resize_null :: "'a option list \<Rightarrow> nat \<Rightarrow> 'a option list" where
  "resize_null xs n = take n xs @ replicate (n - length xs) None"

definition addThread :: "thread_list \<Rightarrow> thread \<Rightarrow> thread_list outcome" where
  "addThread l th =
     (let i = unat (th_threadId th);
          slots = (if length (tl_allThreads l) \<le> i
                   then resize_null (tl_allThreads l) (unat (th_threadId th * 2))
                   else tl_allThreads l)
      in bind_outcome (at_index slots i)
           (\<lambda>old. bind_outcome (assert_that (old = None) ''!allThreads[thread->threadId]'')
              (\<lambda>_. Inr (l\<lparr>tl_allThreads := slots[i := Some th], tl_index := tl_index l @ [th_threadId th],
                           tl_threadNum := Suc (tl_threadNum l)\<rparr>))))"

definition findThreadById :: "thread_list \<Rightarrow> uint \<Rightarrow> thread outcome" where
  "findThreadById l t =
     (if unat t < length (tl_allThreads l)
      then case tl_allThreads l ! unat t of
             None \<Rightarrow> Inl (Assertion ''threadId < allThreads.size() && allThreads[threadId]'')
           | Some th \<Rightarrow> Inr th
      else Inl (Assertion ''threadId < allThreads.size() && allThreads[threadId]''))"

definition getThreadNum :: "thread_list \<Rightarrow> nat" where
  "getThreadNum l = tl_threadNum l"

definition getLastThread :: "thread_list \<Rightarrow> thread option outcome" where
  "getLastThread l =
     bind_outcome (back_of (tl_index l)) (\<lambda>i. at_index (tl_allThreads l) (unat i))"

text \<open>\<open>ThreadListIterator\<close>: the pointer at a position, and the walk from \<open>begin()\<close> to \<open>end()\<close>.\<close>

definition iterator_deref :: "thread_list \<Rightarrow> nat \<Rightarrow> thread option outcome" where
  "iterator_deref l currentPos =
     bind_outcome (at_index (tl_index l) currentPos) (\<lambda>i. at_index (tl_allThreads l) (unat i))"

fun walk_from :: "thread_list \<Rightarrow> nat list \<Rightarrow> thread option list outcome" where
  "walk_from l [] = Inr []"
| "walk_from l (i # is) =
     bind_outcome (iterator_deref l i) (\<lambda>th. bind_outcome (walk_from l is) (\<lambda>ths. Inr (th # ths)))"

definition walk :: "thread_list \<Rightarrow> thread option list outcome" where
  "walk l = walk_from l [0..<tl_threadNum l]"

definition getAllUnfinishedThreads :: "thread_list \<Rightarrow> (uint \<rightharpoonup> thread) outcome" where
  "getAllUnfinishedThreads l =
     bind_outcome (walk l)
       (\<lambda>ths. Inr (fold (\<lambda>th m. case th of
                           Some th \<Rightarrow> if \<not> isTerminated th then map_insert (th_threadId th) th m else m
                         | None \<Rightarrow> m) ths Map.empty))"

text \<open>Changing a thread through a pointer; a null pointer cannot be followed.\<close>

definition update_thread :: "thread_list \<Rightarrow> uint \<Rightarrow> (thread \<Rightarrow> thread) \<Rightarrow> thread_list outcome" where
  "update_thread l t f =
     bind_outcome (at_index (tl_allThreads l) (unat t))
       (\<lambda>th. case th of
               None \<Rightarrow> Inl (Undefined ''Thread*'')
             | Some th \<Rightarrow> Inr (l\<lparr>tl_allThreads := (tl_allThreads l)[unat t := Some (f th)]\<rparr>))"


section \<open>The invariant of the list\<close>

definition thread_at :: "thread_list \<Rightarrow> uint \<rightharpoonup> thread" where
  "thread_at l t = (if unat t < length (tl_allThreads l) then tl_allThreads l ! unat t else None)"

definition threads_ok :: "thread_list \<Rightarrow> bool" where
  "threads_ok l \<longleftrightarrow>
     distinct (tl_index l) \<and> tl_threadNum l = length (tl_index l) \<and>
     set (tl_index l) = dom (thread_at l) \<and>
     (\<forall>t th. thread_at l t = Some th \<longrightarrow> th_threadId th = t)"

lemma threads_okD:
  assumes "threads_ok l"
  shows "distinct (tl_index l)" and "tl_threadNum l = length (tl_index l)"
    and "set (tl_index l) = dom (thread_at l)" and "thread_at l t = Some th \<Longrightarrow> th_threadId th = t"
  using assms by (auto simp: threads_ok_def)

lemma threads_ok_new [simp]: "threads_ok new_ThreadList"
  by (auto simp: threads_ok_def new_ThreadList_def thread_at_def dom_def)

lemma findThreadById_eq:
  "findThreadById l t =
     (case thread_at l t of
        None \<Rightarrow> Inl (Assertion ''threadId < allThreads.size() && allThreads[threadId]'')
      | Some th \<Rightarrow> Inr th)"
  by (simp add: findThreadById_def thread_at_def)

lemma findThreadById_Inr [outcome_simps]: "findThreadById l t = Inr th \<longleftrightarrow> thread_at l t = Some th"
  by (auto simp: findThreadById_eq split: option.splits)

lemma thread_at_update:
  assumes "unat t < length (tl_allThreads l)"
  shows "thread_at (l\<lparr>tl_allThreads := (tl_allThreads l)[unat t := Some th]\<rparr>) = (thread_at l)(t \<mapsto> th)"
  using assms by (auto simp: thread_at_def fun_eq_iff nth_list_update word_unat_eq_iff)

lemma update_thread_Inr:
  "update_thread l t f = Inr l' \<longleftrightarrow>
     (\<exists>th. thread_at l t = Some th \<and> l' = l\<lparr>tl_allThreads := (tl_allThreads l)[unat t := Some (f th)]\<rparr>)"
  by (auto simp: update_thread_def thread_at_def at_index_def split: option.splits if_splits)

lemma update_thread_at:
  assumes "update_thread l t f = Inr l'"
  shows "\<exists>th. thread_at l t = Some th \<and> thread_at l' = (thread_at l)(t \<mapsto> f th)"
    and "tl_index l' = tl_index l" and "tl_threadNum l' = tl_threadNum l"
  using assms thread_at_update by (fastforce simp: update_thread_Inr thread_at_def split: if_splits)+

lemma update_thread_ok:
  assumes "update_thread l t f = Inr l'" and "threads_ok l" and "\<And>th. th_threadId (f th) = th_threadId th"
  shows "threads_ok l'"
proof -
  obtain th where th: "thread_at l t = Some th" "thread_at l' = (thread_at l)(t \<mapsto> f th)"
    using update_thread_at(1) [OF assms(1)] by blast
  with assms(2,3) update_thread_at(2,3) [OF assms(1)] show ?thesis
    by (auto simp: threads_ok_def)
qed

text \<open>
  Adding a thread: the resize keeps the slots, since the doubled id is larger than the id
  whenever it does not wrap, and the access is undefined when it does.
\<close>

lemma addThread_at:
  assumes "addThread l th = Inr l'"
  shows "thread_at l (th_threadId th) = None"
    and "thread_at l' = (thread_at l)(th_threadId th \<mapsto> th)"
    and "tl_index l' = tl_index l @ [th_threadId th]" and "tl_threadNum l' = Suc (tl_threadNum l)"
proof -
  let ?i = "unat (th_threadId th)" and ?n = "unat (th_threadId th * 2)"
  define slots where "slots =
    (if length (tl_allThreads l) \<le> ?i then resize_null (tl_allThreads l) ?n else tl_allThreads l)"
  from assms have i: "?i < length slots" "slots ! ?i = None"
    and l': "l' = l\<lparr>tl_allThreads := slots[?i := Some th], tl_index := tl_index l @ [th_threadId th],
                   tl_threadNum := Suc (tl_threadNum l)\<rparr>"
    by (auto simp: addThread_def Let_def slots_def outcome_simps)
  have keep: "thread_at (l\<lparr>tl_allThreads := slots\<rparr>) = thread_at l"
  proof (cases "length (tl_allThreads l) \<le> ?i")
    case True
    with i(1) have "?i < ?n" by (auto simp: slots_def resize_null_def split: if_splits)
    then have "length (tl_allThreads l) \<le> ?n" using True by simp
    with True show ?thesis
      by (auto simp: slots_def resize_null_def thread_at_def fun_eq_iff nth_append)
  qed (simp add: slots_def thread_at_def fun_eq_iff)
  have old: "thread_at (l\<lparr>tl_allThreads := slots\<rparr>) (th_threadId th) = None"
    using i by (simp add: thread_at_def)
  then show "thread_at l (th_threadId th) = None" by (simp only: keep)
  have "thread_at l' = thread_at (l\<lparr>tl_allThreads := slots[?i := Some th]\<rparr>)"
    by (simp add: l' thread_at_def fun_eq_iff)
  also have "\<dots> = (thread_at (l\<lparr>tl_allThreads := slots\<rparr>))(th_threadId th \<mapsto> th)"
    using thread_at_update [of "th_threadId th" "l\<lparr>tl_allThreads := slots\<rparr>" th] i(1) by simp
  finally show "thread_at l' = (thread_at l)(th_threadId th \<mapsto> th)" by (simp only: keep)
  show "tl_index l' = tl_index l @ [th_threadId th]" "tl_threadNum l' = Suc (tl_threadNum l)"
    by (simp_all add: l')
qed

lemma addThread_ok: "addThread l th = Inr l' \<Longrightarrow> threads_ok l \<Longrightarrow> threads_ok l'"
  using addThread_at [of l th l'] by (auto simp: threads_ok_def dom_def)

text \<open>The walk meets every thread once, in the order of their creation.\<close>

lemma walk_from_index:
  assumes "threads_ok l"
  shows "set is \<subseteq> {..<tl_threadNum l} \<Longrightarrow> walk_from l is = Inr (map (\<lambda>i. thread_at l (tl_index l ! i)) is)"
proof (induction "is")
  case (Cons i "is")
  then have "i < length (tl_index l)" using threads_okD(2) [OF assms] by simp
  then have "tl_index l ! i \<in> dom (thread_at l)" using threads_okD(3) [OF assms] nth_mem by blast
  then have "iterator_deref l i = Inr (thread_at l (tl_index l ! i))"
    using \<open>i < length (tl_index l)\<close>
    by (auto simp: iterator_deref_def at_index_def thread_at_def split: if_splits)
  with Cons show ?case by simp
qed simp

lemma walk_all:
  assumes "threads_ok l"
  shows "walk l = Inr (map (thread_at l) (tl_index l))"
proof -
  have "map (\<lambda>i. thread_at l (tl_index l ! i)) [0..<length (tl_index l)] = map (thread_at l) (tl_index l)"
    by (rule nth_equalityI) simp_all
  moreover have "walk l = Inr (map (\<lambda>i. thread_at l (tl_index l ! i)) [0..<tl_threadNum l])"
    unfolding walk_def by (rule walk_from_index [OF assms]) auto
  ultimately show ?thesis using threads_okD(2) [OF assms] by simp
qed


section \<open>The threads of an execution state\<close>

record exec_state =
  es_threadList :: thread_list
  es_threadScheduler :: thread_scheduler
  es_currentThread :: "uint option"

text \<open>
  The constructors take an id from the static counter, which is returned; the second one has
  the scheduler follow a prefix.
\<close>

definition start_state :: "thread_scheduler \<Rightarrow> uint \<Rightarrow> kfunction \<Rightarrow> (exec_state \<times> uint) outcome" where
  "start_state sched nextThreadId kf =
     bind_outcome (Thread_getNextThreadId nextThreadId)
       (\<lambda>(t, next). bind_outcome (addThread new_ThreadList (new_Thread t None kf))
          (\<lambda>l. Inr (\<lparr>es_threadList = l, es_threadScheduler = Thread_addItem sched t, es_currentThread = Some t\<rparr>,
                    next)))"

definition new_ExecutionState :: "uint \<Rightarrow> kfunction \<Rightarrow> (exec_state \<times> uint) outcome" where
  "new_ExecutionState = start_state (getThreadSchedulerByType FIFS_type)"

definition new_ExecutionState_prefix :: "uint \<Rightarrow> kfunction \<Rightarrow> (exec_state \<times> uint) outcome" where
  "new_ExecutionState_prefix = start_state (new_GuidedThreadScheduler FIFS_type)"

text \<open>
  The copy constructor treats the scheduler as a \<open>PreemptiveThreadScheduler\<close> whatever it is, and
  looks its threads up among the unfinished ones.
\<close>

definition copy_threads :: "thread_list \<Rightarrow> thread_list outcome" where
  "copy_threads l =
     bind_outcome (walk l)
       (\<lambda>ths. fold_outcome (\<lambda>th l'. case th of
                               None \<Rightarrow> Inl (Undefined ''Thread*'')
                             | Some th \<Rightarrow> addThread l' (copy_Thread th)) ths new_ThreadList)"

definition copy_ExecutionState :: "exec_state \<Rightarrow> exec_state outcome" where
  "copy_ExecutionState st =
     bind_outcome (copy_threads (es_threadList st))
       (\<lambda>l. case es_currentThread st of
              None \<Rightarrow> Inl (Undefined ''state.currentThread'')
            | Some t \<Rightarrow>
                bind_outcome (findThreadById l t)
                  (\<lambda>cur. bind_outcome (getAllUnfinishedThreads l)
                     (\<lambda>unfinished.
                        case es_threadScheduler st of
                          PreemptiveThreadScheduler q \<Rightarrow>
                            (let q' = copy_queue (map_option th_threadId \<circ> unfinished) q
                             in if None \<in> set q' then Inl (Undefined ''null Thread* in the queue'')
                                else Inr \<lparr>es_threadList = l,
                                          es_threadScheduler = PreemptiveThreadScheduler (map the q'),
                                          es_currentThread = Some (th_threadId cur)\<rparr>)
                        | _ \<Rightarrow> Inl (Undefined ''cast to PreemptiveThreadScheduler*''))))"

text \<open>A scheduler is consulted with the prefix it follows and the threads of the state.\<close>

definition find_in :: "exec_state \<Rightarrow> uint \<Rightarrow> uint outcome" where
  "find_in st t = bind_outcome (findThreadById (es_threadList st) t) (\<lambda>th. Inr (th_threadId th))"

definition getCurrentThread :: "event_heap \<Rightarrow> prefix \<Rightarrow> exec_state \<Rightarrow> (uint option \<times> exec_state) outcome" where
  "getCurrentThread h p st =
     (if \<not> Thread_isSchedulerEmpty (es_threadScheduler st)
      then bind_outcome (Thread_selectCurrentItem h p (find_in st) (es_threadScheduler st))
             (\<lambda>(t, s). Inr (Some t, st\<lparr>es_threadScheduler := s, es_currentThread := Some t\<rparr>))
      else Inr (None, st\<lparr>es_currentThread := None\<rparr>))"

definition getNextThread :: "event_heap \<Rightarrow> prefix \<Rightarrow> exec_state \<Rightarrow> (uint option \<times> exec_state) outcome" where
  "getNextThread h p st =
     (if \<not> Thread_isSchedulerEmpty (es_threadScheduler st)
      then bind_outcome (Thread_selectNextItem h p (find_in st) (es_threadScheduler st))
             (\<lambda>(t, s). Inr (Some t, st\<lparr>es_threadScheduler := s, es_currentThread := Some t\<rparr>))
      else Inr (None, st\<lparr>es_currentThread := None\<rparr>))"

definition examineAllThreadFinalState :: "exec_state \<Rightarrow> bool outcome" where
  "examineAllThreadFinalState st =
     bind_outcome (walk (es_threadList st))
       (\<lambda>ths. if None \<in> set ths then Inl (Undefined ''Thread*'')
              else Inr (\<forall>th\<in>set ths. isTerminated (the th)))"

definition enlist :: "exec_state \<Rightarrow> thread \<Rightarrow> exec_state outcome" where
  "enlist st th =
     bind_outcome (addThread (es_threadList st) th)
       (\<lambda>l. Inr (st\<lparr>es_threadList := l, es_threadScheduler := Thread_addItem (es_threadScheduler st) (th_threadId th)\<rparr>))"

definition createThread :: "exec_state \<Rightarrow> uint \<Rightarrow> kfunction \<Rightarrow> (uint \<times> exec_state \<times> uint) outcome" where
  "createThread st nextThreadId kf =
     bind_outcome (Thread_getNextThreadId nextThreadId)
       (\<lambda>(t, next). bind_outcome (enlist st (new_Thread t (es_currentThread st) kf)) (\<lambda>st'. Inr (t, st', next)))"

definition createThread_id :: "exec_state \<Rightarrow> uint \<Rightarrow> kfunction \<Rightarrow> uint \<Rightarrow> (uint \<times> exec_state \<times> uint) outcome" where
  "createThread_id st nextThreadId kf threadId =
     bind_outcome
       (if nextThreadId \<le> threadId
        then bind_outcome (assert_that (threadId + 1 \<le> 6) ''nextThreadId <= 6'') (\<lambda>_. Inr (threadId + 1))
        else Inr nextThreadId)
       (\<lambda>next. bind_outcome (enlist st (new_Thread threadId (es_currentThread st) kf)) (\<lambda>st'. Inr (threadId, st', next)))"

definition set_state :: "ThreadState \<Rightarrow> thread \<Rightarrow> thread" where
  "set_state s th = th\<lparr>th_threadState := s\<rparr>"

definition swapOutThread :: "exec_state \<Rightarrow> uint \<Rightarrow> bool \<Rightarrow> bool \<Rightarrow> bool \<Rightarrow> bool \<Rightarrow> exec_state outcome" where
  "swapOutThread st t isCondBlocked isBarrierBlocked isJoinBlocked isTerm =
     bind_outcome
       (update_thread (es_threadList st) t
          ((if isTerm then set_state TERMINATED else id) \<circ>
           (if isJoinBlocked then set_state JOIN_BLOCKED else id) \<circ>
           (if isBarrierBlocked then set_state BARRIER_BLOCKED else id) \<circ>
           (if isCondBlocked then set_state COND_BLOCKED else id)))
       (\<lambda>l. Inr (st\<lparr>es_threadList := l, es_threadScheduler := Thread_removeItem (es_threadScheduler st) t\<rparr>))"

definition swapInThread :: "exec_state \<Rightarrow> uint \<Rightarrow> bool \<Rightarrow> bool \<Rightarrow> exec_state outcome" where
  "swapInThread st t isRun isMutex =
     bind_outcome
       (update_thread (es_threadList st) t
          ((if isMutex then set_state MUTEX_BLOCKED else id) \<circ> (if isRun then set_state RUNNABLE else id)))
       (\<lambda>l. Inr (st\<lparr>es_threadList := l, es_threadScheduler := Thread_addItem (es_threadScheduler st) t\<rparr>))"

definition switchThreadToMutexBlocked :: "exec_state \<Rightarrow> uint \<Rightarrow> exec_state outcome" where
  "switchThreadToMutexBlocked st t =
     bind_outcome (findThreadById (es_threadList st) t)
       (\<lambda>th. bind_outcome (assert_that (isRunnable th) ''thread->isRunnable()'')
          (\<lambda>_. bind_outcome (update_thread (es_threadList st) t (set_state MUTEX_BLOCKED))
             (\<lambda>l. Inr (st\<lparr>es_threadList := l\<rparr>))))"

definition switchThreadToRunnable :: "exec_state \<Rightarrow> uint \<Rightarrow> exec_state outcome" where
  "switchThreadToRunnable st t =
     bind_outcome (findThreadById (es_threadList st) t)
       (\<lambda>th. bind_outcome (assert_that (isMutexBlocked th) ''thread->isMutexBlocked()'')
          (\<lambda>_. bind_outcome (update_thread (es_threadList st) t (set_state RUNNABLE))
             (\<lambda>l. Inr (st\<lparr>es_threadList := l\<rparr>))))"

text \<open>The variants that take an id first look the thread up, asserting that it exists.\<close>

definition swapOutThread_id :: "exec_state \<Rightarrow> uint \<Rightarrow> bool \<Rightarrow> bool \<Rightarrow> bool \<Rightarrow> bool \<Rightarrow> exec_state outcome" where
  "swapOutThread_id st t c b j x =
     bind_outcome (findThreadById (es_threadList st) t) (\<lambda>_. swapOutThread st t c b j x)"

definition swapInThread_id :: "exec_state \<Rightarrow> uint \<Rightarrow> bool \<Rightarrow> bool \<Rightarrow> exec_state outcome" where
  "swapInThread_id st t r m =
     bind_outcome (findThreadById (es_threadList st) t) (\<lambda>_. swapInThread st t r m)"

definition ExecutionState_reSchedule :: "exec_state \<Rightarrow> exec_state outcome" where
  "ExecutionState_reSchedule st =
     bind_outcome (Thread_reSchedule (es_threadScheduler st)) (\<lambda>s. Inr (st\<lparr>es_threadScheduler := s\<rparr>))"



section \<open>What the operations do to the states of the threads\<close>

definition states :: "exec_state \<Rightarrow> uint \<rightharpoonup> ThreadState" where
  "states st = (\<lambda>t. map_option th_threadState (thread_at (es_threadList st) t))"

text \<open>Besides the list's invariant: every vector clock has its five entries.\<close>

definition state_ok :: "exec_state \<Rightarrow> bool" where
  "state_ok st \<longleftrightarrow> threads_ok (es_threadList st) \<and>
     (\<forall>t th. thread_at (es_threadList st) t = Some th \<longrightarrow> length (th_vectorClock th) = 5)"

lemma states_Some: "states st t = Some s \<longleftrightarrow> (\<exists>th. thread_at (es_threadList st) t = Some th \<and> th_threadState th = s)"
  by (auto simp: states_def)

lemma states_None: "states st t = None \<longleftrightarrow> thread_at (es_threadList st) t = None"
  by (simp add: states_def)

lemma states_cong: "es_threadList st' = es_threadList st \<Longrightarrow> states st' = states st"
  by (simp add: states_def)

lemma state_ok_cong: "es_threadList st' = es_threadList st \<Longrightarrow> state_ok st' = state_ok st"
  by (simp add: state_ok_def)

lemma update_states:
  assumes "update_thread (es_threadList st) t f = Inr (es_threadList st')" and "state_ok st"
    and "\<And>th. th_threadId (f th) = th_threadId th"
    and "\<And>th. length (th_vectorClock th) = 5 \<Longrightarrow> length (th_vectorClock (f th)) = 5"
    and "\<And>th. th_threadState (f th) = g (th_threadState th)"
  shows "state_ok st' \<and> (\<exists>s. states st t = Some s \<and> states st' = (states st)(t \<mapsto> g s))"
proof -
  obtain th where th: "thread_at (es_threadList st) t = Some th"
    "thread_at (es_threadList st') = (thread_at (es_threadList st))(t \<mapsto> f th)"
    using update_thread_at(1) [OF assms(1)] by blast
  have "threads_ok (es_threadList st')"
    using update_thread_ok [OF assms(1)] assms(2,3) by (simp add: state_ok_def)
  moreover have "length (th_vectorClock u) = 5" if "thread_at (es_threadList st') k = Some u" for k u
    using that th assms(2,4) by (auto simp: state_ok_def split: if_splits)
  moreover have "states st t = Some (th_threadState th)" using th(1) by (simp add: states_def)
  moreover have "states st' = (states st)(t \<mapsto> g (th_threadState th))"
    using th assms(5) by (auto simp: states_def fun_eq_iff)
  ultimately show ?thesis by (auto simp: state_ok_def)
qed

lemma update_defined:
  assumes "states st t = Some s"
  shows "\<exists>l'. update_thread (es_threadList st) t f = Inr l'"
  using assms by (auto simp: states_Some update_thread_Inr)

lemma set_state_simps [simp]:
  "th_threadId (set_state s th) = th_threadId th" "th_vectorClock (set_state s th) = th_vectorClock th"
  "th_threadState (set_state s th) = s"
  by (simp_all add: set_state_def)

definition out_state :: "bool \<Rightarrow> bool \<Rightarrow> bool \<Rightarrow> bool \<Rightarrow> ThreadState \<Rightarrow> ThreadState" where
  "out_state c b j x s =
     (if x then TERMINATED else if j then JOIN_BLOCKED else if b then BARRIER_BLOCKED
      else if c then COND_BLOCKED else s)"

definition in_state :: "bool \<Rightarrow> bool \<Rightarrow> ThreadState \<Rightarrow> ThreadState" where
  "in_state r m s = (if m then MUTEX_BLOCKED else if r then RUNNABLE else s)"

lemma out_state_simps [simp]:
  "out_state True False False False s = COND_BLOCKED" "out_state False True False False s = BARRIER_BLOCKED"
  "out_state False False True False s = JOIN_BLOCKED" "out_state False False False True s = TERMINATED"
  by (simp_all add: out_state_def)

lemma in_state_simps [simp]: "in_state r True s = MUTEX_BLOCKED" "in_state True False s = RUNNABLE"
  by (simp_all add: in_state_def)

lemma swapOutThread_effect:
  assumes "swapOutThread st t c b j x = Inr st'" and "state_ok st"
  shows "state_ok st' \<and> (\<exists>s. states st t = Some s \<and> states st' = (states st)(t \<mapsto> out_state c b j x s)) \<and>
    scheduled (es_threadScheduler st') = remove1 t (scheduled (es_threadScheduler st)) \<and>
    es_currentThread st' = es_currentThread st"
proof -
  from assms(1) obtain l where l: "update_thread (es_threadList st) t
      ((if x then set_state TERMINATED else id) \<circ> (if j then set_state JOIN_BLOCKED else id) \<circ>
       (if b then set_state BARRIER_BLOCKED else id) \<circ> (if c then set_state COND_BLOCKED else id)) = Inr l"
    and st': "st' = st\<lparr>es_threadList := l, es_threadScheduler := Thread_removeItem (es_threadScheduler st) t\<rparr>"
    by (auto simp: swapOutThread_def outcome_simps)
  from st' have ll: "es_threadList st' = l" by simp
  have "state_ok st' \<and> (\<exists>s. states st t = Some s \<and> states st' = (states st)(t \<mapsto> out_state c b j x s))"
    by (rule update_states [OF l [folded ll] assms(2)]) (auto simp: out_state_def)
  then show ?thesis by (simp add: st')
qed

lemma swapInThread_effect:
  assumes "swapInThread st t r m = Inr st'" and "state_ok st"
  shows "state_ok st' \<and> (\<exists>s. states st t = Some s \<and> states st' = (states st)(t \<mapsto> in_state r m s)) \<and>
    scheduled (es_threadScheduler st') = scheduled (es_threadScheduler st) @ [t] \<and>
    es_currentThread st' = es_currentThread st"
proof -
  from assms(1) obtain l where l: "update_thread (es_threadList st) t
      ((if m then set_state MUTEX_BLOCKED else id) \<circ> (if r then set_state RUNNABLE else id)) = Inr l"
    and st': "st' = st\<lparr>es_threadList := l, es_threadScheduler := Thread_addItem (es_threadScheduler st) t\<rparr>"
    by (auto simp: swapInThread_def outcome_simps)
  from st' have ll: "es_threadList st' = l" by simp
  have "state_ok st' \<and> (\<exists>s. states st t = Some s \<and> states st' = (states st)(t \<mapsto> in_state r m s))"
    by (rule update_states [OF l [folded ll] assms(2)]) (auto simp: in_state_def)
  then show ?thesis by (simp add: st')
qed

lemma swapInThread_id_effect:
  assumes "swapInThread_id st t r m = Inr st'" and "state_ok st"
  shows "state_ok st' \<and> (\<exists>s. states st t = Some s \<and> states st' = (states st)(t \<mapsto> in_state r m s)) \<and>
    scheduled (es_threadScheduler st') = scheduled (es_threadScheduler st) @ [t] \<and>
    es_currentThread st' = es_currentThread st"
  using assms swapInThread_effect by (auto simp: swapInThread_id_def outcome_simps)

lemma switchThreadToMutexBlocked_effect:
  assumes "switchThreadToMutexBlocked st t = Inr st'" and "state_ok st"
  shows "state_ok st' \<and> states st t = Some RUNNABLE \<and> states st' = (states st)(t \<mapsto> MUTEX_BLOCKED) \<and>
    es_threadScheduler st' = es_threadScheduler st \<and> es_currentThread st' = es_currentThread st"
proof -
  from assms(1) obtain l th where l: "update_thread (es_threadList st) t (set_state MUTEX_BLOCKED) = Inr l"
    and th: "thread_at (es_threadList st) t = Some th" "isRunnable th" and st': "st' = st\<lparr>es_threadList := l\<rparr>"
    by (auto simp: switchThreadToMutexBlocked_def outcome_simps)
  from st' have ll: "es_threadList st' = l" by simp
  have "state_ok st' \<and> (\<exists>s. states st t = Some s \<and> states st' = (states st)(t \<mapsto> MUTEX_BLOCKED))"
    by (rule update_states [OF l [folded ll] assms(2), where g = "\<lambda>_. MUTEX_BLOCKED"]) auto
  with th st' show ?thesis by (auto simp: states_Some isRunnable_def)
qed

lemma switchThreadToRunnable_effect:
  assumes "switchThreadToRunnable st t = Inr st'" and "state_ok st"
  shows "state_ok st' \<and> states st t = Some MUTEX_BLOCKED \<and> states st' = (states st)(t \<mapsto> RUNNABLE) \<and>
    es_threadScheduler st' = es_threadScheduler st \<and> es_currentThread st' = es_currentThread st"
proof -
  from assms(1) obtain l th where l: "update_thread (es_threadList st) t (set_state RUNNABLE) = Inr l"
    and th: "thread_at (es_threadList st) t = Some th" "isMutexBlocked th" and st': "st' = st\<lparr>es_threadList := l\<rparr>"
    by (auto simp: switchThreadToRunnable_def outcome_simps)
  from st' have ll: "es_threadList st' = l" by simp
  have "state_ok st' \<and> (\<exists>s. states st t = Some s \<and> states st' = (states st)(t \<mapsto> RUNNABLE))"
    by (rule update_states [OF l [folded ll] assms(2), where g = "\<lambda>_. RUNNABLE"]) auto
  with th st' show ?thesis by (auto simp: states_Some isMutexBlocked_def)
qed

lemma enlist_effect:
  assumes "enlist st (new_Thread t parent kf) = Inr st'" and "state_ok st"
  shows "state_ok st' \<and> states st t = None \<and> states st' = (states st)(t \<mapsto> RUNNABLE) \<and>
    scheduled (es_threadScheduler st') = scheduled (es_threadScheduler st) @ [t] \<and>
    es_currentThread st' = es_currentThread st"
proof -
  let ?th = "new_Thread t parent kf"
  have th: "th_threadId ?th = t" "th_threadState ?th = RUNNABLE" "length (th_vectorClock ?th) = 5"
    by (simp_all add: new_Thread_def pushFrame_def)
  from assms(1) obtain l where l: "addThread (es_threadList st) ?th = Inr l"
    and st': "st' = st\<lparr>es_threadList := l, es_threadScheduler := Thread_addItem (es_threadScheduler st) t\<rparr>"
    by (auto simp: enlist_def outcome_simps th)
  note at = addThread_at [OF l, unfolded th(1)]
  have "threads_ok l" using addThread_ok [OF l] assms(2) by (simp add: state_ok_def)
  with at st' th assms(2) show ?thesis
    by (auto simp: state_ok_def states_def fun_eq_iff)
qed

lemma createThread_effect:
  assumes "createThread st n kf = Inr (t, st', n')" and "state_ok st"
  shows "t = n" and "n' = n + 1" and "n' \<le> 6" and
    "state_ok st' \<and> states st t = None \<and> states st' = (states st)(t \<mapsto> RUNNABLE) \<and>
     scheduled (es_threadScheduler st') = scheduled (es_threadScheduler st) @ [t] \<and>
     es_currentThread st' = es_currentThread st"
  using assms enlist_effect by (auto simp: createThread_def Thread_getNextThreadId_def Let_def outcome_simps)

lemma createThread_id_effect:
  assumes "createThread_id st n kf k = Inr (t, st', n')" and "state_ok st"
  shows "t = k" and
    "state_ok st' \<and> states st t = None \<and> states st' = (states st)(t \<mapsto> RUNNABLE) \<and>
     scheduled (es_threadScheduler st') = scheduled (es_threadScheduler st) @ [t] \<and>
     es_currentThread st' = es_currentThread st"
  using assms enlist_effect by (auto simp: createThread_id_def outcome_simps)

lemma getCurrentThread_effect:
  assumes "getCurrentThread h p st = Inr (t, st')"
  shows "es_threadList st' = es_threadList st"
    and "mset (scheduled (es_threadScheduler st')) = mset (scheduled (es_threadScheduler st))"
    and "es_currentThread st' = t"
  using assms Thread_selectCurrent_mset
  by (auto simp: getCurrentThread_def outcome_simps split: if_splits)

lemma getNextThread_effect:
  assumes "getNextThread h p st = Inr (t, st')"
  shows "es_threadList st' = es_threadList st"
    and "mset (scheduled (es_threadScheduler st')) = mset (scheduled (es_threadScheduler st))"
    and "es_currentThread st' = t"
  using assms Thread_select_mset
  by (auto simp: getNextThread_def outcome_simps split: if_splits)

lemma examineAll_iff:
  assumes "state_ok st"
  shows "examineAllThreadFinalState st = Inr (\<forall>s\<in>ran (states st). s = TERMINATED)"
proof -
  let ?l = "es_threadList st"
  have ok: "threads_ok ?l" using assms by (simp add: state_ok_def)
  have "thread_at ?l t \<noteq> None" if "t \<in> set (tl_index ?l)" for t
    using that threads_okD(3) [OF ok] by auto
  then have nn: "None \<notin> set (map (thread_at ?l) (tl_index ?l))" by force
  have "ran (states st) = (\<lambda>t. th_threadState (the (thread_at ?l t))) ` set (tl_index ?l)"
    using threads_okD(3) [OF ok] by (force simp: ran_def states_def dom_def image_def)
  with nn show ?thesis
    by (simp add: examineAllThreadFinalState_def walk_all [OF ok] isTerminated_def image_iff)
qed

end
