(* ===== verification/Lock_Spec.thy ===== *)
theory Lock_Spec
  imports Decimal_Names
begin

text \<open>
  What a lock manager promises, free of its pointers: which mutexes exist, who holds each, and
  which thread waits for which mutex. The locale \<open>lock_service\<close> states that an implementation
  refines this table, and carries mutual exclusion from the table to every implementation.
\<close>

section \<open>The table of locks\<close>

text \<open>\<open>lt_holder n\<close> is \<open>None\<close> for an undefined mutex, \<open>Some None\<close> for a free one.\<close>

record lock_table =
  lt_holder :: "string \<rightharpoonup> uint option"
  lt_blocked :: "uint \<rightharpoonup> string"

type_synonym 'a answer = "string + 'a"

definition spec_add :: "lock_table \<Rightarrow> string \<Rightarrow> unit answer \<times> lock_table" where
  "spec_add a n =
     (if n \<in> dom (lt_holder a) then (Inl (''redefinition of mutex '' @ n), a)
      else (Inr (), a\<lparr>lt_holder := (lt_holder a)(n \<mapsto> None)\<rparr>))"

definition spec_lock :: "lock_table \<Rightarrow> string \<Rightarrow> uint \<Rightarrow> bool answer \<times> lock_table" where
  "spec_lock a n t =
     (case lt_holder a n of
        None \<Rightarrow> (Inl (''mutex '' @ n @ '' undefined''), a)
      | Some None \<Rightarrow>
          (Inr False, a\<lparr>lt_holder := (lt_holder a)(n \<mapsto> Some t), lt_blocked := (lt_blocked a)(t := None)\<rparr>)
      | Some (Some _) \<Rightarrow> (Inr True, a\<lparr>lt_blocked := map_insert t n (lt_blocked a)\<rparr>))"

definition spec_unlock :: "lock_table \<Rightarrow> string \<Rightarrow> unit answer \<times> lock_table" where
  "spec_unlock a n =
     (if n \<in> dom (lt_holder a) then (Inr (), a\<lparr>lt_holder := (lt_holder a)(n \<mapsto> None)\<rparr>)
      else (Inl (''mutex '' @ n @ '' undefined''), a))"

definition spec_try :: "lock_table \<Rightarrow> uint \<Rightarrow> bool answer \<times> lock_table" where
  "spec_try a t =
     (case lt_blocked a t of
        None \<Rightarrow> (Inl (''thread '' @ uint64toString (ucast t) @ '' does not blocked for mutex''), a)
      | Some n \<Rightarrow> spec_lock a n t)"

text \<open>Every mutex a thread waits for exists.\<close>

definition table_ok :: "lock_table \<Rightarrow> bool" where
  "table_ok a \<longleftrightarrow> ran (lt_blocked a) \<subseteq> dom (lt_holder a)"


section \<open>Runs and their logs\<close>

datatype lock_request =
    Add_mutex string
  | Lock_mutex string uint
  | Unlock_mutex string
  | Retry_lock uint

datatype lock_event =
    Acquired string uint
  | Blocked string uint
  | Released string

definition spec_request :: "lock_table \<Rightarrow> lock_request \<Rightarrow> lock_event list \<times> lock_table" where
  "spec_request a r =
     (case r of
        Add_mutex n \<Rightarrow> ([], snd (spec_add a n))
      | Lock_mutex n t \<Rightarrow>
          (case spec_lock a n t of
             (Inl _, a') \<Rightarrow> ([], a')
           | (Inr b, a') \<Rightarrow> ([if b then Blocked n t else Acquired n t], a'))
      | Unlock_mutex n \<Rightarrow>
          (case spec_unlock a n of (Inl _, a') \<Rightarrow> ([], a') | (Inr _, a') \<Rightarrow> ([Released n], a'))
      | Retry_lock t \<Rightarrow>
          (case (lt_blocked a t, spec_try a t) of
             (Some n, (Inr b, a')) \<Rightarrow> ([if b then Blocked n t else Acquired n t], a')
           | (_, (_, a')) \<Rightarrow> ([], a')))"

fun spec_run :: "lock_table \<Rightarrow> lock_request list \<Rightarrow> lock_event list \<times> lock_table" where
  "spec_run a [] = ([], a)"
| "spec_run a (r # rs) =
     (let (l, a') = spec_request a r; (l', a'') = spec_run a' rs in (l @ l', a''))"

lemmas spec_defs = spec_add_def spec_lock_def spec_unlock_def spec_try_def

text \<open>
  One request: a mutex is acquired only when it is free, and a held mutex stays with its
  holder unless the request releases it.
\<close>

lemma request_acquires:
  assumes "spec_request a r = (l, a')" and "Acquired n t \<in> set l"
  shows "lt_holder a n = Some None" and "lt_holder a' n = Some (Some t)" and "l = [Acquired n t]"
  using assms by (auto simp: spec_request_def spec_defs split: lock_request.splits option.splits if_splits)

lemma request_keeps_holder:
  assumes "spec_request a r = (l, a')" and "lt_holder a n = Some (Some t)" and "Released n \<notin> set l"
  shows "lt_holder a' n = Some (Some t) \<and> (\<forall>u. Acquired n u \<notin> set l)"
  using assms
  by (auto simp: spec_request_def spec_defs split: lock_request.splits option.splits if_splits)

lemma run_keeps_holder:
  assumes "spec_run a rs = (l, a')" and "lt_holder a n = Some (Some t)"
  shows "l = b @ Acquired n u # c \<Longrightarrow> Released n \<in> set b"
  using assms
proof (induction rs arbitrary: a a' l b)
  case Nil
  then show ?case by simp
next
  case (Cons r rs)
  obtain l1 a1 where r: "spec_request a r = (l1, a1)" by (cases "spec_request a r")
  obtain l2 a2 where rs: "spec_run a1 rs = (l2, a2)" by (cases "spec_run a1 rs")
  from Cons.prems r rs have l: "l1 @ l2 = b @ Acquired n u # c" by simp
  show ?case
  proof (cases "Released n \<in> set l1")
    case True
    have "length l1 \<le> 1" using r
      by (auto simp: spec_request_def spec_defs split: lock_request.splits option.splits if_splits)
    with True have "l1 = [Released n]" by (cases l1) auto
    with l show ?thesis by (cases b) auto
  next
    case False
    from request_keeps_holder [OF r Cons.prems(3) False]
    have keep: "lt_holder a1 n = Some (Some t)" "\<forall>u. Acquired n u \<notin> set l1" by auto
    from l keep(2) obtain d where "b = l1 @ d" "l2 = d @ Acquired n u # c"
      by (auto simp: append_eq_append_conv2 append_eq_Cons_conv)
    with Cons.IH [OF _ rs keep(1)] show ?thesis by auto
  qed
qed

text \<open>Mutual exclusion on the table: between two acquisitions of a mutex it is released.\<close>

lemma spec_mutual_exclusion:
  "spec_run a rs = (l, a') \<Longrightarrow> l = b @ Acquired n t # m @ Acquired n u # c \<Longrightarrow> Released n \<in> set m"
proof (induction rs arbitrary: a a' l b)
  case Nil
  then show ?case by simp
next
  case (Cons r rs)
  obtain l1 a1 where r: "spec_request a r = (l1, a1)" by (cases "spec_request a r")
  obtain l2 a2 where rs: "spec_run a1 rs = (l2, a2)" by (cases "spec_run a1 rs")
  from Cons.prems r rs have l: "l1 @ l2 = b @ Acquired n t # m @ Acquired n u # c" by simp
  show ?case
  proof (cases "Acquired n t \<in> set l1")
    case True
    from request_acquires [OF r True] have h: "lt_holder a1 n = Some (Some t)" "l1 = [Acquired n t]" by auto
    show ?thesis
    proof (cases b)
      case Nil
      with l h have "l2 = m @ Acquired n u # c" by simp
      with run_keeps_holder [OF rs h(1)] show ?thesis by blast
    next
      case (Cons x d)
      with l h have "l2 = d @ Acquired n t # m @ Acquired n u # c" by simp
      with Cons.IH [OF rs] show ?thesis by blast
    qed
  next
    case False
    with l obtain d where "l2 = d @ Acquired n t # m @ Acquired n u # c"
      by (auto simp: append_eq_append_conv2 append_eq_Cons_conv)
    with Cons.IH [OF rs] show ?thesis by blast
  qed
qed


section \<open>The service\<close>

text \<open>An implementation: its operations, run on the requests with the same log.\<close>

definition log_of :: "string \<Rightarrow> uint \<Rightarrow> bool answer \<Rightarrow> lock_event list" where
  "log_of n t r = (case r of Inl _ \<Rightarrow> [] | Inr b \<Rightarrow> [if b then Blocked n t else Acquired n t])"

definition serve ::
  "('m \<Rightarrow> string \<Rightarrow> unit answer \<times> 'm) \<Rightarrow> ('m \<Rightarrow> string \<Rightarrow> uint \<Rightarrow> (bool answer \<times> 'm) outcome) \<Rightarrow>
   ('m \<Rightarrow> string \<Rightarrow> (unit answer \<times> 'm) outcome) \<Rightarrow> ('m \<Rightarrow> uint \<Rightarrow> (bool answer \<times> 'm) outcome) \<Rightarrow>
   ('m \<Rightarrow> uint \<rightharpoonup> string) \<Rightarrow> 'm \<Rightarrow> lock_request \<Rightarrow> (lock_event list \<times> 'm) outcome" where
  "serve add lk ul retry blocked m r =
     (case r of
        Add_mutex n \<Rightarrow> Inr ([], snd (add m n))
      | Lock_mutex n t \<Rightarrow> bind_outcome (lk m n t) (\<lambda>(r, m'). Inr (log_of n t r, m'))
      | Unlock_mutex n \<Rightarrow>
          bind_outcome (ul m n) (\<lambda>(r, m'). Inr (case r of Inl _ \<Rightarrow> [] | Inr _ \<Rightarrow> [Released n], m'))
      | Retry_lock t \<Rightarrow>
          bind_outcome (retry m t)
            (\<lambda>(r, m'). Inr (case blocked m t of None \<Rightarrow> [] | Some n \<Rightarrow> log_of n t r, m')))"

fun serve_all ::
  "('m \<Rightarrow> lock_request \<Rightarrow> (lock_event list \<times> 'm) outcome) \<Rightarrow> 'm \<Rightarrow> lock_request list \<Rightarrow>
   (lock_event list \<times> 'm) outcome" where
  "serve_all f m [] = Inr ([], m)"
| "serve_all f m (r # rs) =
     bind_outcome (f m r) (\<lambda>(l, m'). bind_outcome (serve_all f m' rs) (\<lambda>(l', m''). Inr (l @ l', m'')))"

locale lock_service =
  fixes ok :: "'m \<Rightarrow> bool"
    and table :: "'m \<Rightarrow> lock_table"
    and addMutex :: "'m \<Rightarrow> string \<Rightarrow> unit answer \<times> 'm"
    and lock :: "'m \<Rightarrow> string \<Rightarrow> uint \<Rightarrow> (bool answer \<times> 'm) outcome"
    and unlock :: "'m \<Rightarrow> string \<Rightarrow> (unit answer \<times> 'm) outcome"
    and retry :: "'m \<Rightarrow> uint \<Rightarrow> (bool answer \<times> 'm) outcome"
  assumes add_refines: "ok m \<Longrightarrow>
        ok (snd (addMutex m n)) \<and> spec_add (table m) n = (fst (addMutex m n), table (snd (addMutex m n)))"
    and lock_refines: "ok m \<Longrightarrow>
        \<exists>r m'. lock m n t = Inr (r, m') \<and> ok m' \<and> spec_lock (table m) n t = (r, table m')"
    and unlock_refines: "ok m \<Longrightarrow>
        \<exists>r m'. unlock m n = Inr (r, m') \<and> ok m' \<and> spec_unlock (table m) n = (r, table m')"
    and retry_refines: "ok m \<Longrightarrow>
        \<exists>r m'. retry m t = Inr (r, m') \<and> ok m' \<and> spec_try (table m) t = (r, table m')"
begin

lemma request_refines:
  assumes "ok m"
  shows "\<exists>l m'. serve addMutex lock unlock retry (\<lambda>m. lt_blocked (table m)) m r = Inr (l, m') \<and> ok m' \<and> spec_request (table m) r = (l, table m')"
proof (cases r)
  case (Add_mutex n)
  with add_refines [OF assms, of n] show ?thesis by (simp add: spec_request_def serve_def)
next
  case (Lock_mutex n t)
  with lock_refines [OF assms, of n t] show ?thesis
    by (auto simp: spec_request_def serve_def log_of_def split: sum.splits)
next
  case (Unlock_mutex n)
  with unlock_refines [OF assms, of n] show ?thesis
    by (auto simp: spec_request_def serve_def split: sum.splits)
next
  case (Retry_lock t)
  with retry_refines [OF assms, of t] show ?thesis
    by (auto simp: spec_request_def serve_def log_of_def split: sum.splits option.splits)
qed

lemma run_refines:
  "ok m \<Longrightarrow> \<exists>l m'. serve_all (serve addMutex lock unlock retry (\<lambda>m. lt_blocked (table m))) m rs = Inr (l, m') \<and> ok m' \<and> spec_run (table m) rs = (l, table m')"
proof (induction rs arbitrary: m)
  case Nil
  then show ?case by simp
next
  case (Cons r rs)
  obtain l m' where r: "serve addMutex lock unlock retry (\<lambda>m. lt_blocked (table m)) m r = Inr (l, m')" "ok m'" "spec_request (table m) r = (l, table m')"
    using request_refines [OF Cons.prems] by blast
  with Cons.IH [of m'] show ?case by (auto simp: Let_def)
qed

lemma mutual_exclusion:
  assumes "ok m" and "serve_all (serve addMutex lock unlock retry (\<lambda>m. lt_blocked (table m))) m rs = Inr (b @ Acquired n t # c @ Acquired n u # d, m')"
  shows "Released n \<in> set c"
  using run_refines [OF assms(1), of rs] assms(2) spec_mutual_exclusion by fastforce

end


section \<open>Blocking threads on behalf of a client\<close>

text \<open>
  A condition variable hands released waiters to the lock manager. \<open>block_all\<close> is the table after
  all of them were handed over; a thread that already waits for a mutex keeps waiting for it.
\<close>

definition block_all :: "(uint \<times> string) list \<Rightarrow> (uint \<rightharpoonup> string) \<Rightarrow> (uint \<rightharpoonup> string)" where
  "block_all ws bl = fold (\<lambda>(t, n). map_insert t n) ws bl"

lemma block_all_simps [simp]:
  "block_all [] bl = bl" "block_all ((t, n) # ws) bl = block_all ws (map_insert t n bl)"
  by (simp_all add: block_all_def)

lemma dom_block_all: "dom (block_all ws bl) = fst ` set ws \<union> dom bl"
proof (induction ws arbitrary: bl)
  case (Cons w ws)
  then show ?case by (cases w) simp
qed simp

lemma block_all_blocked: "bl t = Some n \<Longrightarrow> block_all ws bl t = Some n"
  by (induction ws arbitrary: bl) (auto simp: map_insert_keeps)

lemma block_all_apply:
  assumes "distinct (map fst ws)" and "(t, n) \<in> set ws" and "bl t = None"
  shows "block_all ws bl t = Some n"
  using assms
proof (induction ws arbitrary: bl)
  case (Cons w ws)
  obtain u k where w: "w = (u, k)" by (cases w)
  show ?case
  proof (cases "(t, n) = (u, k)")
    case True
    then show ?thesis using w Cons.prems by (simp add: block_all_blocked map_insert_apply)
  next
    case False
    with Cons.prems w have "(t, n) \<in> set ws" "u \<noteq> t" by (auto simp: image_iff)
    with Cons w show ?thesis by (simp add: map_insert_apply)
  qed
qed simp

lemma block_all_other: "t \<notin> fst ` set ws \<Longrightarrow> block_all ws bl t = bl t"
  by (induction ws arbitrary: bl) (auto simp: map_insert_other)

locale blocking_service =
  lock_service ok table addMutex lock unlock retry
  for ok :: "'m \<Rightarrow> bool" and table :: "'m \<Rightarrow> lock_table"
    and addMutex :: "'m \<Rightarrow> string \<Rightarrow> unit answer \<times> 'm"
    and lock :: "'m \<Rightarrow> string \<Rightarrow> uint \<Rightarrow> (bool answer \<times> 'm) outcome"
    and unlock :: "'m \<Rightarrow> string \<Rightarrow> (unit answer \<times> 'm) outcome"
    and retry :: "'m \<Rightarrow> uint \<Rightarrow> (bool answer \<times> 'm) outcome" +
  fixes block :: "'m \<Rightarrow> uint \<Rightarrow> string \<Rightarrow> 'm outcome"
  assumes block_refines: "ok m \<Longrightarrow> lt_holder (table m) n \<noteq> None \<Longrightarrow>
      \<exists>m'. block m t n = Inr m' \<and> ok m' \<and>
        table m' = (table m)\<lparr>lt_blocked := map_insert t n (lt_blocked (table m))\<rparr>"
begin

lemma block_list:
  "ok m \<Longrightarrow> \<forall>(t, n)\<in>set ws. lt_holder (table m) n \<noteq> None \<Longrightarrow>
     \<exists>m'. fold_outcome (\<lambda>(t, n) m. block m t n) ws m = Inr m' \<and> ok m' \<and>
       table m' = (table m)\<lparr>lt_blocked := block_all ws (lt_blocked (table m))\<rparr>"
proof (induction ws arbitrary: m)
  case Nil
  then show ?case by simp
next
  case (Cons w ws)
  obtain t n where w: "w = (t, n)" by (cases w)
  with Cons.prems obtain m1 where m1: "block m t n = Inr m1" "ok m1"
    "table m1 = (table m)\<lparr>lt_blocked := map_insert t n (lt_blocked (table m))\<rparr>"
    using block_refines [of m n t] by auto
  with Cons.prems have "\<forall>(t, n)\<in>set ws. lt_holder (table m1) n \<noteq> None" by simp
  from Cons.IH [OF m1(2) this] m1 w show ?case by auto
qed

end

end
