(* ===== verification/Mutex_Manager.thy ===== *)
theory Mutex_Manager
  imports Lock_Spec
begin

text \<open>
  \<^verbatim>\<open>src/lib/Core/Mutex.cpp\<close> and \<^verbatim>\<open>MutexManager.cpp\<close>. The manager's two pools share \<open>Mutex\<close> objects
  through pointers, so the objects live in a store (\<open>mm_store\<close>) and the pools hold addresses;
  \<open>mm_fresh\<close> is the next address \<open>new\<close> returns. A call returns \<open>Inl\<close> of the \<open>errorMsg\<close> where the
  source returns \<open>false\<close>, and \<open>Inr\<close> of its output parameter where it returns \<open>true\<close>.

  The manager refines the table of locks of \<open>Lock_Spec\<close>, which gives mutual exclusion.
\<close>

section \<open>\<open>Mutex\<close>\<close>

record mutex =
  mx_id :: uint
  mx_name :: string
  mx_isLocked :: bool
  mx_lockedThreadId :: uint

definition Mutex :: "uint \<Rightarrow> string \<Rightarrow> mutex" where
  "Mutex i n = \<lparr>mx_id = i, mx_name = n, mx_isLocked = False, mx_lockedThreadId = 0\<rparr>"

definition Mutex_lock :: "mutex \<Rightarrow> uint \<Rightarrow> mutex" where
  "Mutex_lock mx threadId = mx\<lparr>mx_lockedThreadId := threadId, mx_isLocked := True\<rparr>"

definition Mutex_unlock :: "mutex \<Rightarrow> mutex" where
  "Mutex_unlock mx = mx\<lparr>mx_lockedThreadId := 0, mx_isLocked := False\<rparr>"

definition isThreadOwnMutex :: "mutex \<Rightarrow> uint \<Rightarrow> bool" where
  "isThreadOwnMutex mx threadId \<longleftrightarrow> threadId = mx_lockedThreadId mx"


section \<open>\<open>MutexManager\<close>\<close>

record mutex_manager =
  mm_store :: "nat \<rightharpoonup> mutex"
  mm_fresh :: nat
  mm_mutexPool :: "string \<rightharpoonup> nat"
  mm_blockedThreadPool :: "uint \<rightharpoonup> nat"
  mm_nextMutexId :: uint

definition new_MutexManager :: mutex_manager where
  "new_MutexManager =
     \<lparr>mm_store = Map.empty, mm_fresh = 0, mm_mutexPool = Map.empty, mm_blockedThreadPool = Map.empty,
      mm_nextMutexId = 1\<rparr>"

text \<open>Following a pointer to a deleted object is undefined.\<close>

definition deref_mutex :: "mutex_manager \<Rightarrow> nat \<Rightarrow> mutex outcome" where
  "deref_mutex m p = (case mm_store m p of None \<Rightarrow> Inl (Undefined ''Mutex*'') | Some mx \<Rightarrow> Inr mx)"

definition getMutex :: "mutex_manager \<Rightarrow> string \<Rightarrow> nat option" where
  "getMutex m mutexName = mm_mutexPool m mutexName"

definition mutex_lock :: "mutex_manager \<Rightarrow> nat \<Rightarrow> uint \<Rightarrow> (bool answer \<times> mutex_manager) outcome" where
  "mutex_lock m p threadId =
     bind_outcome (deref_mutex m p)
       (\<lambda>mx. if mx_isLocked mx
             then Inr (Inr True, m\<lparr>mm_blockedThreadPool := map_insert threadId p (mm_blockedThreadPool m)\<rparr>)
             else Inr (Inr False,
                    m\<lparr>mm_store := (mm_store m)(p \<mapsto> Mutex_lock mx threadId),
                      mm_blockedThreadPool := (mm_blockedThreadPool m)(threadId := None)\<rparr>))"

definition manager_lock :: "mutex_manager \<Rightarrow> string \<Rightarrow> uint \<Rightarrow> (bool answer \<times> mutex_manager) outcome" where
  "manager_lock m mutexName threadId =
     (case getMutex m mutexName of
        None \<Rightarrow> Inr (Inl (''mutex '' @ mutexName @ '' undefined''), m)
      | Some p \<Rightarrow> mutex_lock m p threadId)"

text \<open>Unlocking a free mutex only prints a warning.\<close>

definition mutex_unlock :: "mutex_manager \<Rightarrow> nat \<Rightarrow> (unit answer \<times> mutex_manager) outcome" where
  "mutex_unlock m p =
     bind_outcome (deref_mutex m p)
       (\<lambda>mx. if \<not> mx_isLocked mx then Inr (Inr (), m)
             else Inr (Inr (), m\<lparr>mm_store := (mm_store m)(p \<mapsto> Mutex_unlock mx)\<rparr>))"

definition manager_unlock :: "mutex_manager \<Rightarrow> string \<Rightarrow> (unit answer \<times> mutex_manager) outcome" where
  "manager_unlock m mutexName =
     (case getMutex m mutexName of
        None \<Rightarrow> Inr (Inl (''mutex '' @ mutexName @ '' undefined''), m)
      | Some p \<Rightarrow> mutex_unlock m p)"

definition addMutex :: "mutex_manager \<Rightarrow> string \<Rightarrow> unit answer \<times> mutex_manager" where
  "addMutex m mutexName =
     (case getMutex m mutexName of
        Some _ \<Rightarrow> (Inl (''redefinition of mutex '' @ mutexName), m)
      | None \<Rightarrow>
          (Inr (),
           m\<lparr>mm_store := (mm_store m)(mm_fresh m \<mapsto> Mutex (mm_nextMutexId m) mutexName),
             mm_fresh := Suc (mm_fresh m),
             mm_nextMutexId := mm_nextMutexId m + 1,
             mm_mutexPool := map_insert mutexName (mm_fresh m) (mm_mutexPool m)\<rparr>))"

definition manager_clear :: "mutex_manager \<Rightarrow> mutex_manager" where
  "manager_clear m =
     m\<lparr>mm_store := mm_store m |` (- ran (mm_mutexPool m)),
       mm_mutexPool := Map.empty, mm_blockedThreadPool := Map.empty, mm_nextMutexId := 1\<rparr>"

definition getNextMutexId :: "mutex_manager \<Rightarrow> uint" where
  "getNextMutexId m = mm_nextMutexId m"

definition addBlockedThread :: "mutex_manager \<Rightarrow> uint \<Rightarrow> string \<Rightarrow> mutex_manager outcome" where
  "addBlockedThread m threadId mutexName =
     (case getMutex m mutexName of
        None \<Rightarrow> Inl (Assertion ''mutex'')
      | Some p \<Rightarrow> Inr (m\<lparr>mm_blockedThreadPool := map_insert threadId p (mm_blockedThreadPool m)\<rparr>))"

definition tryToLockForBlockedThread :: "mutex_manager \<Rightarrow> uint \<Rightarrow> (bool answer \<times> mutex_manager) outcome" where
  "tryToLockForBlockedThread m threadId =
     (case mm_blockedThreadPool m threadId of
        None \<Rightarrow> Inr (Inl (''thread '' @ uint64toString (ucast threadId) @ '' does not blocked for mutex''), m)
      | Some p \<Rightarrow> mutex_lock m p threadId)"


section \<open>Invariant and abstraction\<close>

text \<open>
  Every address in the pools is that of a live mutex, a mutex is filed under its own name (so
  two names never share an object), a free mutex records the owner \<open>0\<close>, and fresh addresses are unused.
\<close>

definition manager_ok :: "mutex_manager \<Rightarrow> bool" where
  "manager_ok m \<longleftrightarrow>
     (\<forall>n p. mm_mutexPool m n = Some p \<longrightarrow> (\<exists>mx. mm_store m p = Some mx \<and> mx_name mx = n)) \<and>
     (\<forall>p mx. mm_store m p = Some mx \<longrightarrow> p < mm_fresh m \<and> mm_mutexPool m (mx_name mx) = Some p \<and>
        (mx_isLocked mx \<or> mx_lockedThreadId mx = 0)) \<and>
     ran (mm_blockedThreadPool m) \<subseteq> dom (mm_store m)"

definition holder_of :: "mutex \<Rightarrow> uint option" where
  "holder_of mx = (if mx_isLocked mx then Some (mx_lockedThreadId mx) else None)"

definition manager_table :: "mutex_manager \<Rightarrow> lock_table" where
  "manager_table m =
     \<lparr>lt_holder = (\<lambda>n. case mm_mutexPool m n of None \<Rightarrow> None | Some p \<Rightarrow> map_option holder_of (mm_store m p)),
      lt_blocked = (\<lambda>t. case mm_blockedThreadPool m t of None \<Rightarrow> None | Some p \<Rightarrow> map_option mx_name (mm_store m p))\<rparr>"

lemma manager_okD:
  assumes "manager_ok m"
  shows "mm_mutexPool m n = Some p \<Longrightarrow> \<exists>mx. mm_store m p = Some mx \<and> mx_name mx = n"
    and "mm_store m p = Some mx \<Longrightarrow> mm_mutexPool m (mx_name mx) = Some p"
    and "mm_store m p = Some mx \<Longrightarrow> p < mm_fresh m"
    and "mm_store m p = Some mx \<Longrightarrow> mx_isLocked mx \<or> mx_lockedThreadId mx = 0"
    and "mm_blockedThreadPool m t = Some p \<Longrightarrow> \<exists>mx. mm_store m p = Some mx"
  using assms unfolding manager_ok_def by (auto simp: ran_def)

lemma manager_okI:
  assumes "\<And>n p. mm_mutexPool m n = Some p \<Longrightarrow> \<exists>mx. mm_store m p = Some mx \<and> mx_name mx = n"
    and "\<And>p mx. mm_store m p = Some mx \<Longrightarrow> p < mm_fresh m \<and> mm_mutexPool m (mx_name mx) = Some p"
    and "\<And>p mx. mm_store m p = Some mx \<Longrightarrow> mx_isLocked mx \<or> mx_lockedThreadId mx = 0"
    and "\<And>t p. mm_blockedThreadPool m t = Some p \<Longrightarrow> \<exists>mx. mm_store m p = Some mx"
  shows "manager_ok m"
proof -
  have "ran (mm_blockedThreadPool m) \<subseteq> dom (mm_store m)"
    using assms(4) by (fastforce simp: ran_def dom_def)
  with assms(1-3) show ?thesis unfolding manager_ok_def by blast
qed

lemma manager_ok_fresh: "manager_ok m \<Longrightarrow> mm_store m (mm_fresh m) = None"
  using manager_okD(3) by (cases "mm_store m (mm_fresh m)") auto

text \<open>The holder the table records for a live mutex, and the name a blocked thread waits for.\<close>

lemma table_holder:
  assumes "manager_ok m" and "mm_store m p = Some mx"
  shows "lt_holder (manager_table m) (mx_name mx) = Some (holder_of mx)"
  using manager_okD(2) [OF assms] assms by (simp add: manager_table_def)

lemma table_undefined:
  "manager_ok m \<Longrightarrow> mm_mutexPool m n = None \<longleftrightarrow> lt_holder (manager_table m) n = None"
  using manager_okD(1) by (fastforce simp: manager_table_def split: option.splits)

lemma table_blocked:
  assumes "mm_blockedThreadPool m t = Some p" and "mm_store m p = Some mx"
  shows "lt_blocked (manager_table m) t = Some (mx_name mx)"
  using assms by (simp add: manager_table_def)

lemma table_not_blocked:
  "manager_ok m \<Longrightarrow> lt_blocked (manager_table m) t = None \<longleftrightarrow> mm_blockedThreadPool m t = None"
  using manager_okD(5) by (fastforce simp: manager_table_def split: option.splits)

text \<open>Replacing an object by one of the same name keeps the abstraction but for its holder.\<close>

lemma table_update:
  assumes "manager_ok m" and "mm_store m p = Some mx" and "mx_name mx' = mx_name mx"
  shows "manager_table (m\<lparr>mm_store := (mm_store m)(p \<mapsto> mx'), mm_blockedThreadPool := bl\<rparr>) =
    \<lparr>lt_holder = (lt_holder (manager_table m))(mx_name mx \<mapsto> holder_of mx'),
     lt_blocked = lt_blocked (manager_table (m\<lparr>mm_blockedThreadPool := bl\<rparr>))\<rparr>"
proof -
  let ?m = "m\<lparr>mm_store := (mm_store m)(p \<mapsto> mx'), mm_blockedThreadPool := bl\<rparr>"
  have pool: "mm_mutexPool m n = Some p \<longleftrightarrow> n = mx_name mx" for n
    using manager_okD(1) [OF assms(1), of n p] manager_okD(2) [OF assms(1,2)] assms(2) by auto
  have "lt_holder (manager_table ?m) n =
      ((lt_holder (manager_table m))(mx_name mx \<mapsto> holder_of mx')) n" for n
    using pool [of n] by (cases "mm_mutexPool m n") (auto simp: manager_table_def)
  moreover have "lt_blocked (manager_table ?m) t = lt_blocked (manager_table (m\<lparr>mm_blockedThreadPool := bl\<rparr>)) t" for t
    using assms(2,3) by (cases "bl t") (simp_all add: manager_table_def)
  ultimately show ?thesis by (simp add: fun_eq_iff lock_table.equality)
qed

lemma ok_update:
  assumes "manager_ok m" and "mm_store m p = Some mx" and "mx_name mx' = mx_name mx"
    and "mx_isLocked mx' \<or> mx_lockedThreadId mx' = 0"
    and "\<And>t q. bl t = Some q \<Longrightarrow> mm_blockedThreadPool m t = Some q"
  shows "manager_ok (m\<lparr>mm_store := (mm_store m)(p \<mapsto> mx'), mm_blockedThreadPool := bl\<rparr>)"
proof (rule manager_okI, goal_cases)
  case (1 n q)
  with manager_okD(1) [OF assms(1), of n q] assms(2,3) show ?case by auto
next
  case (2 q my)
  with manager_okD(2,3) [OF assms(1)] assms(2,3) show ?case by (auto split: if_splits)
next
  case (3 q my)
  with manager_okD(4) [OF assms(1)] assms(4) show ?case by (auto split: if_splits)
next
  case (4 t q)
  with manager_okD(5) [OF assms(1) assms(5)] show ?case by auto
qed

lemma ok_block:
  assumes "manager_ok m" and "mm_store m p = Some mx"
  shows "manager_ok (m\<lparr>mm_blockedThreadPool := map_insert t p (mm_blockedThreadPool m)\<rparr>)"
  using assms ran_map_insert [of t p "mm_blockedThreadPool m"]
  unfolding manager_ok_def by auto

lemma table_block:
  assumes "manager_ok m" and "mm_store m p = Some mx"
  shows "manager_table (m\<lparr>mm_blockedThreadPool := map_insert t p (mm_blockedThreadPool m)\<rparr>) =
    (manager_table m)\<lparr>lt_blocked := map_insert t (mx_name mx) (lt_blocked (manager_table m))\<rparr>"
  using assms manager_okD(5) [OF assms(1)]
  by (fastforce simp: manager_table_def map_insert_apply fun_eq_iff split: option.splits)

lemma table_unblock:
  "lt_blocked (manager_table (m\<lparr>mm_blockedThreadPool := (mm_blockedThreadPool m)(t := None)\<rparr>)) =
    (lt_blocked (manager_table m))(t := None)"
  by (auto simp: manager_table_def fun_eq_iff split: option.splits)


section \<open>Refinement of the lock table\<close>

lemma mutex_lock_refines:
  assumes "manager_ok m" and "mm_store m p = Some mx"
  shows "\<exists>r m'. mutex_lock m p t = Inr (r, m') \<and> manager_ok m' \<and>
    spec_lock (manager_table m) (mx_name mx) t = (r, manager_table m')"
proof (cases "mx_isLocked mx")
  case True
  with assms show ?thesis
    using table_holder [OF assms] ok_block [OF assms] table_block [OF assms]
    by (simp add: mutex_lock_def deref_mutex_def spec_lock_def holder_of_def)
next
  case False
  let ?bl = "(mm_blockedThreadPool m)(t := None)"
  have "?bl u = Some q \<Longrightarrow> mm_blockedThreadPool m u = Some q" for u q by (auto split: if_splits)
  with False assms show ?thesis
    using table_holder [OF assms] table_unblock [of m t]
      table_update [OF assms, of "Mutex_lock mx t" ?bl] ok_update [OF assms, of "Mutex_lock mx t" ?bl]
    by (simp add: mutex_lock_def deref_mutex_def spec_lock_def holder_of_def Mutex_lock_def)
qed

lemma manager_lock_refines:
  assumes "manager_ok m"
  shows "\<exists>r m'. manager_lock m n t = Inr (r, m') \<and> manager_ok m' \<and>
    spec_lock (manager_table m) n t = (r, manager_table m')"
proof (cases "mm_mutexPool m n")
  case None
  with assms table_undefined [OF assms, of n] show ?thesis
    by (simp add: manager_lock_def getMutex_def spec_lock_def)
next
  case (Some p)
  with manager_okD(1) [OF assms] obtain mx where "mm_store m p = Some mx" "mx_name mx = n" by blast
  with Some mutex_lock_refines [OF assms] show ?thesis
    by (fastforce simp: manager_lock_def getMutex_def)
qed

lemma manager_unlock_refines:
  assumes "manager_ok m"
  shows "\<exists>r m'. manager_unlock m n = Inr (r, m') \<and> manager_ok m' \<and>
    spec_unlock (manager_table m) n = (r, manager_table m')"
proof (cases "mm_mutexPool m n")
  case None
  with assms table_undefined [OF assms, of n] show ?thesis
    by (auto simp: manager_unlock_def getMutex_def spec_unlock_def)
next
  case (Some p)
  with manager_okD(1) [OF assms] obtain mx where mx: "mm_store m p = Some mx" "mx_name mx = n" by blast
  from table_holder [OF assms mx(1)] mx(2) have h: "lt_holder (manager_table m) n = Some (holder_of mx)"
    by simp
  show ?thesis
  proof (cases "mx_isLocked mx")
    case True
    with Some mx h assms show ?thesis
      using table_update [OF assms mx(1), of "Mutex_unlock mx" "mm_blockedThreadPool m"]
        ok_update [OF assms mx(1), of "Mutex_unlock mx" "mm_blockedThreadPool m"]
      by (auto simp: manager_unlock_def getMutex_def mutex_unlock_def deref_mutex_def spec_unlock_def
          holder_of_def Mutex_unlock_def)
  next
    case False
    with h have "(lt_holder (manager_table m))(n \<mapsto> None) = lt_holder (manager_table m)"
      by (simp add: holder_of_def fun_eq_iff)
    with False Some mx h assms show ?thesis
      by (auto simp: manager_unlock_def getMutex_def mutex_unlock_def deref_mutex_def spec_unlock_def)
  qed
qed

lemma tryToLock_refines:
  assumes "manager_ok m"
  shows "\<exists>r m'. tryToLockForBlockedThread m t = Inr (r, m') \<and> manager_ok m' \<and>
    spec_try (manager_table m) t = (r, manager_table m')"
proof (cases "mm_blockedThreadPool m t")
  case None
  with assms table_not_blocked [OF assms, of t] show ?thesis
    by (simp add: tryToLockForBlockedThread_def spec_try_def)
next
  case (Some p)
  with manager_okD(5) [OF assms] obtain mx where mx: "mm_store m p = Some mx" by blast
  with Some mutex_lock_refines [OF assms mx, of t] table_blocked [OF Some mx] show ?thesis
    by (auto simp: tryToLockForBlockedThread_def spec_try_def)
qed

lemma addMutex_refines:
  assumes "manager_ok m"
  shows "manager_ok (snd (addMutex m n)) \<and>
    spec_add (manager_table m) n = (fst (addMutex m n), manager_table (snd (addMutex m n)))"
proof (cases "mm_mutexPool m n")
  case None
  have fresh: "mm_store m (mm_fresh m) = None" using assms by (rule manager_ok_fresh)
  have unused: "mm_mutexPool m k \<noteq> Some (mm_fresh m)" "mm_blockedThreadPool m t \<noteq> Some (mm_fresh m)" for k t
    using manager_okD(1) [OF assms, of k "mm_fresh m"] manager_okD(5) [OF assms, of t "mm_fresh m"] fresh by auto
  have "manager_ok (snd (addMutex m n))"
    using assms None fresh unfolding manager_ok_def
    by (auto simp: addMutex_def getMutex_def Mutex_def map_insert_apply less_Suc_eq)
  moreover have "lt_holder (manager_table m) n = None"
    using None table_undefined [OF assms] by blast
  ultimately show ?thesis
    using None unused
    by (auto simp: addMutex_def getMutex_def spec_add_def manager_table_def map_insert_apply Mutex_def
        holder_of_def fun_eq_iff split: option.splits)
next
  case (Some p)
  with assms table_undefined [OF assms, of n] show ?thesis
    by (auto simp: addMutex_def getMutex_def spec_add_def)
qed

interpretation locks: lock_service manager_ok manager_table addMutex manager_lock manager_unlock
    tryToLockForBlockedThread
  using addMutex_refines manager_lock_refines manager_unlock_refines tryToLock_refines
  by unfold_locales auto

lemma new_MutexManager_ok [simp]: "manager_ok new_MutexManager"
  by (simp add: manager_ok_def new_MutexManager_def)

lemma manager_clear_store: "manager_ok m \<Longrightarrow> mm_store (manager_clear m) = Map.empty"
proof
  fix p
  assume ok: "manager_ok m"
  show "mm_store (manager_clear m) p = None"
  proof (cases "mm_store m p")
    case (Some mx)
    with manager_okD(2) [OF ok Some] show ?thesis
      by (auto simp: manager_clear_def restrict_map_def ran_def)
  qed (simp add: manager_clear_def restrict_map_def)
qed

lemma manager_clear_ok: "manager_ok m \<Longrightarrow> manager_ok (manager_clear m)"
  by (rule manager_okI) (simp_all add: manager_clear_store, simp_all add: manager_clear_def)

lemma addBlockedThread_refines:
  assumes "manager_ok m" and "lt_holder (manager_table m) n \<noteq> None"
  shows "\<exists>m'. addBlockedThread m t n = Inr m' \<and> manager_ok m' \<and>
    manager_table m' = (manager_table m)\<lparr>lt_blocked := map_insert t n (lt_blocked (manager_table m))\<rparr>"
proof -
  from assms(2) table_undefined [OF assms(1), of n] have "mm_mutexPool m n \<noteq> None" by simp
  then obtain p where p: "mm_mutexPool m n = Some p" by blast
  with manager_okD(1) [OF assms(1)] obtain mx where mx: "mm_store m p = Some mx" "mx_name mx = n" by blast
  with p ok_block [OF assms(1) mx(1), of t] table_block [OF assms(1) mx(1), of t] show ?thesis
    by (simp add: addBlockedThread_def getMutex_def)
qed

interpretation blocking: blocking_service manager_ok manager_table addMutex manager_lock manager_unlock
    tryToLockForBlockedThread addBlockedThread
  by unfold_locales (rule addBlockedThread_refines)


section \<open>Properties\<close>

text \<open>The client's view of the manager: serving one request.\<close>

definition manager_serve :: "mutex_manager \<Rightarrow> lock_request \<Rightarrow> (lock_event list \<times> mutex_manager) outcome" where
  "manager_serve =
     serve addMutex manager_lock manager_unlock tryToLockForBlockedThread (\<lambda>m. lt_blocked (manager_table m))"

text \<open>
  (C1) Mutual exclusion: whatever definitions, locks, unlocks and retries of blocked threads a
  manager serves, it never fails, and between two acquisitions of the same mutex in its log the
  mutex is released.
\<close>

theorem MutexManager_mutual_exclusion:
  assumes "manager_ok m"
  shows "\<exists>log m'. serve_all manager_serve m rs = Inr (log, m') \<and> manager_ok m' \<and>
    (\<forall>b n t c u d. log = b @ Acquired n t # c @ Acquired n u # d \<longrightarrow> Released n \<in> set c)"
proof -
  obtain log m' where "serve_all manager_serve m rs = Inr (log, m')" "manager_ok m'"
    using locks.run_refines [OF assms, of rs] by (auto simp: manager_serve_def)
  with locks.mutual_exclusion [OF assms, of rs] show ?thesis
    by (auto simp: manager_serve_def)
qed

text \<open>Two threads and a mutex: the second thread blocks, and acquires after the release.\<close>

definition two_threads :: "lock_request list" where
  "two_threads =
     [Add_mutex ''m'', Lock_mutex ''m'' 1, Lock_mutex ''m'' 2, Unlock_mutex ''m'', Retry_lock 2]"

lemma two_threads_log:
  "map_sum id fst (serve_all manager_serve new_MutexManager two_threads) =
     Inr [Acquired ''m'' 1, Blocked ''m'' 2, Released ''m'', Acquired ''m'' 2]"
  by code_simp

theorem MutexManager_mutual_exclusion_witness:
  "\<exists>log m'. serve_all manager_serve new_MutexManager two_threads = Inr (log, m') \<and> manager_ok m' \<and>
     log = [Acquired ''m'' 1, Blocked ''m'' 2, Released ''m'', Acquired ''m'' 2] \<and>
     (\<forall>b n t c u d. log = b @ Acquired n t # c @ Acquired n u # d \<longrightarrow> Released n \<in> set c)"
proof -
  obtain log m' where r: "serve_all manager_serve new_MutexManager two_threads = Inr (log, m')" "manager_ok m'"
    "\<forall>b n t c u d. log = b @ Acquired n t # c @ Acquired n u # d \<longrightarrow> Released n \<in> set c"
    using MutexManager_mutual_exclusion [OF new_MutexManager_ok, of two_threads] by blast
  moreover from r(1) two_threads_log
  have "log = [Acquired ''m'' 1, Blocked ''m'' 2, Released ''m'', Acquired ''m'' 2]" by simp
  ultimately show ?thesis by blast
qed

text \<open>
  (C8) Each operation of the manager, on its pools of pointers, is the operation of the table of
  locks: the same answer, error texts included, and the table of the state it leaves.
\<close>

theorem MutexManager_refines_table:
  assumes "manager_ok m"
  shows "(\<exists>m'. addMutex m n = (fst (spec_add (manager_table m) n), m') \<and>
      manager_ok m' \<and> manager_table m' = snd (spec_add (manager_table m) n)) \<and>
    (\<exists>m'. manager_lock m n t = Inr (fst (spec_lock (manager_table m) n t), m') \<and>
      manager_ok m' \<and> manager_table m' = snd (spec_lock (manager_table m) n t)) \<and>
    (\<exists>m'. manager_unlock m n = Inr (fst (spec_unlock (manager_table m) n), m') \<and>
      manager_ok m' \<and> manager_table m' = snd (spec_unlock (manager_table m) n)) \<and>
    (\<exists>m'. tryToLockForBlockedThread m t = Inr (fst (spec_try (manager_table m) t), m') \<and>
      manager_ok m' \<and> manager_table m' = snd (spec_try (manager_table m) t))"
  using addMutex_refines [OF assms, of n] manager_lock_refines [OF assms, of n t]
    manager_unlock_refines [OF assms, of n] tryToLock_refines [OF assms, of t]
  by (cases "addMutex m n") auto

theorem MutexManager_refines_table_witness:
  "manager_ok new_MutexManager \<and>
   (\<exists>m'. manager_lock new_MutexManager ''m'' 1 =
      Inr (fst (spec_lock (manager_table new_MutexManager) ''m'' 1), m') \<and> manager_ok m' \<and>
      manager_table m' = snd (spec_lock (manager_table new_MutexManager) ''m'' 1))"
  using MutexManager_refines_table [OF new_MutexManager_ok, of "''m''" 1] by simp

end
