(* ===== verification/Wait_Schedulers.thy ===== *)
theory Wait_Schedulers
  imports Scheduler_Spec Events
begin

text \<open>
  \<^verbatim>\<open>src/lib/Core/CondScheduler.cpp\<close>, \<^verbatim>\<open>MutexScheduler.cpp\<close>, \<^verbatim>\<open>WaitParam.cpp\<close> and the templates of
  \<^verbatim>\<open>Scheduler.h\<close>: the queues in which threads wait for a condition variable or a mutex. The
  state of each class is its \<open>queue\<close>. A \<open>WaitParam*\<close> is a record with the address that \<open>new\<close> gave
  it, so that comparing two pointers is comparing the addresses.

  Each class is shown to meet the contract of its policy by an interpretation of the
  locales of \<open>Scheduler_Spec\<close>; the guided scheduler, which replays a prefix, is shown to release
  the waiting thread that the prefix runs first.
\<close>

section \<open>Waiting for a condition variable\<close>

record WaitParam =
  wp_addr :: nat
  wp_mutexName :: string
  wp_threadId :: uint

definition new_WaitParam :: "nat \<Rightarrow> string \<Rightarrow> uint \<Rightarrow> WaitParam" where
  "new_WaitParam a m t = \<lparr>wp_addr = a, wp_mutexName = m, wp_threadId = t\<rparr>"

definition print_ids :: "uint list \<Rightarrow> string" where
  "print_ids ts = concat (map (\<lambda>t. dec_of_nat (unat t) @ '' '') ts) @ [CHR 0x0A]"

subsection \<open>\<open>FIFSCondScheduler\<close>\<close>

definition FIFSCond_selectNextItem :: "WaitParam list \<Rightarrow> (WaitParam \<times> WaitParam list) outcome" where
  "FIFSCond_selectNextItem queue = bind_outcome (front_of queue) (\<lambda>item. Inr (item, tl queue))"

definition FIFSCond_popAllItem :: "WaitParam list \<Rightarrow> WaitParam list \<Rightarrow> WaitParam list \<times> WaitParam list" where
  "FIFSCond_popAllItem allItem queue = (allItem @ queue, [])"

definition FIFSCond_itemNum :: "WaitParam list \<Rightarrow> nat" where
  "FIFSCond_itemNum queue = length queue"

definition FIFSCond_isQueueEmpty :: "WaitParam list \<Rightarrow> bool" where
  "FIFSCond_isQueueEmpty queue \<longleftrightarrow> queue = []"

definition FIFSCond_addItem :: "WaitParam list \<Rightarrow> WaitParam \<Rightarrow> WaitParam list" where
  "FIFSCond_addItem queue param = queue @ [param]"

definition FIFSCond_removeItem :: "WaitParam list \<Rightarrow> WaitParam \<Rightarrow> WaitParam option \<times> WaitParam list" where
  "FIFSCond_removeItem queue param = take_first (\<lambda>w. wp_addr w = wp_addr param) queue"

definition FIFSCond_removeThread :: "WaitParam list \<Rightarrow> uint \<Rightarrow> WaitParam option \<times> WaitParam list" where
  "FIFSCond_removeThread queue threadId = take_first (\<lambda>w. wp_threadId w = threadId) queue"

definition FIFSCond_printAllItem :: "WaitParam list \<Rightarrow> string" where
  "FIFSCond_printAllItem queue = print_ids (map wp_threadId queue)"

subsection \<open>\<open>PreemptiveCondScheduler\<close>\<close>

definition PreemptiveCond_selectNextItem :: "WaitParam list \<Rightarrow> (WaitParam \<times> WaitParam list) outcome" where
  "PreemptiveCond_selectNextItem queue = bind_outcome (back_of queue) (\<lambda>item. Inr (item, butlast queue))"

definition PreemptiveCond_popAllItem :: "WaitParam list \<Rightarrow> WaitParam list \<Rightarrow> WaitParam list \<times> WaitParam list" where
  "PreemptiveCond_popAllItem allItem queue = (allItem @ queue, [])"

definition PreemptiveCond_itemNum :: "WaitParam list \<Rightarrow> nat" where
  "PreemptiveCond_itemNum queue = length queue"

definition PreemptiveCond_isQueueEmpty :: "WaitParam list \<Rightarrow> bool" where
  "PreemptiveCond_isQueueEmpty queue \<longleftrightarrow> queue = []"

definition PreemptiveCond_addItem :: "WaitParam list \<Rightarrow> WaitParam \<Rightarrow> WaitParam list" where
  "PreemptiveCond_addItem queue param = queue @ [param]"

definition PreemptiveCond_removeItem :: "WaitParam list \<Rightarrow> WaitParam \<Rightarrow> WaitParam option \<times> WaitParam list" where
  "PreemptiveCond_removeItem queue param = take_first (\<lambda>w. wp_addr w = wp_addr param) queue"

definition PreemptiveCond_removeThread :: "WaitParam list \<Rightarrow> uint \<Rightarrow> WaitParam option \<times> WaitParam list" where
  "PreemptiveCond_removeThread queue threadId = take_first (\<lambda>w. wp_threadId w = threadId) queue"

definition PreemptiveCond_printAllItem :: "WaitParam list \<Rightarrow> string" where
  "PreemptiveCond_printAllItem queue = print_ids (map wp_threadId queue)"

subsection \<open>Dispatch and \<open>GuidedCondScheduler\<close>\<close>

text \<open>
  A \<open>CondScheduler*\<close> is one of the two queues or a guided scheduler around another one. The
  guided scheduler's \<open>prefix\<close> is the interpreter's own, which it advances, so the prefix is an
  argument of the calls.
\<close>

datatype CondSchedulerType = FIFS | Preemptive | Random

datatype cond_scheduler =
    FIFSCondScheduler "WaitParam list"
  | PreemptiveCondScheduler "WaitParam list"
  | GuidedCondScheduler cond_scheduler

text \<open>For \<open>Random\<close> the switch leaves the returned pointer uninitialised.\<close>

fun getCondSchedulerByType :: "CondSchedulerType \<Rightarrow> cond_scheduler outcome" where
  "getCondSchedulerByType FIFS = Inr (FIFSCondScheduler [])"
| "getCondSchedulerByType Preemptive = Inr (PreemptiveCondScheduler [])"
| "getCondSchedulerByType Random = Inl (Undefined ''uninitialised CondScheduler*'')"

definition new_GuidedCondScheduler :: "CondSchedulerType \<Rightarrow> cond_scheduler outcome" where
  "new_GuidedCondScheduler ty = bind_outcome (getCondSchedulerByType ty) (\<lambda>b. Inr (GuidedCondScheduler b))"

fun waiting :: "cond_scheduler \<Rightarrow> WaitParam list" where
  "waiting (FIFSCondScheduler q) = q"
| "waiting (PreemptiveCondScheduler q) = q"
| "waiting (GuidedCondScheduler b) = waiting b"

fun Cond_addItem :: "cond_scheduler \<Rightarrow> WaitParam \<Rightarrow> cond_scheduler" where
  "Cond_addItem (FIFSCondScheduler q) param = FIFSCondScheduler (FIFSCond_addItem q param)"
| "Cond_addItem (PreemptiveCondScheduler q) param = PreemptiveCondScheduler (PreemptiveCond_addItem q param)"
| "Cond_addItem (GuidedCondScheduler b) param = GuidedCondScheduler (Cond_addItem b param)"

fun Cond_popAllItem :: "WaitParam list \<Rightarrow> cond_scheduler \<Rightarrow> WaitParam list \<times> cond_scheduler" where
  "Cond_popAllItem all (FIFSCondScheduler q) = apsnd FIFSCondScheduler (FIFSCond_popAllItem all q)"
| "Cond_popAllItem all (PreemptiveCondScheduler q) =
     apsnd PreemptiveCondScheduler (PreemptiveCond_popAllItem all q)"
| "Cond_popAllItem all (GuidedCondScheduler b) = apsnd GuidedCondScheduler (Cond_popAllItem all b)"

fun Cond_itemNum :: "cond_scheduler \<Rightarrow> nat" where
  "Cond_itemNum (FIFSCondScheduler q) = FIFSCond_itemNum q"
| "Cond_itemNum (PreemptiveCondScheduler q) = PreemptiveCond_itemNum q"
| "Cond_itemNum (GuidedCondScheduler b) = Cond_itemNum b"

fun Cond_isQueueEmpty :: "cond_scheduler \<Rightarrow> bool" where
  "Cond_isQueueEmpty (FIFSCondScheduler q) = FIFSCond_isQueueEmpty q"
| "Cond_isQueueEmpty (PreemptiveCondScheduler q) = PreemptiveCond_isQueueEmpty q"
| "Cond_isQueueEmpty (GuidedCondScheduler b) = Cond_isQueueEmpty b"

fun Cond_removeItem :: "cond_scheduler \<Rightarrow> WaitParam \<Rightarrow> WaitParam option \<times> cond_scheduler" where
  "Cond_removeItem (FIFSCondScheduler q) param = apsnd FIFSCondScheduler (FIFSCond_removeItem q param)"
| "Cond_removeItem (PreemptiveCondScheduler q) param =
     apsnd PreemptiveCondScheduler (PreemptiveCond_removeItem q param)"
| "Cond_removeItem (GuidedCondScheduler b) param = apsnd GuidedCondScheduler (Cond_removeItem b param)"

fun Cond_removeThread :: "cond_scheduler \<Rightarrow> uint \<Rightarrow> WaitParam option \<times> cond_scheduler" where
  "Cond_removeThread (FIFSCondScheduler q) t = apsnd FIFSCondScheduler (FIFSCond_removeThread q t)"
| "Cond_removeThread (PreemptiveCondScheduler q) t =
     apsnd PreemptiveCondScheduler (PreemptiveCond_removeThread q t)"
| "Cond_removeThread (GuidedCondScheduler b) t = apsnd GuidedCondScheduler (Cond_removeThread b t)"

fun Cond_printAllItem :: "cond_scheduler \<Rightarrow> string" where
  "Cond_printAllItem (FIFSCondScheduler q) = FIFSCond_printAllItem q"
| "Cond_printAllItem (PreemptiveCondScheduler q) = PreemptiveCond_printAllItem q"
| "Cond_printAllItem (GuidedCondScheduler b) = Cond_printAllItem b"

fun Cond_printName :: "cond_scheduler \<Rightarrow> string" where
  "Cond_printName (FIFSCondScheduler q) = ''FIFS Condition Scheduler'' @ [CHR 0x0A]"
| "Cond_printName (PreemptiveCondScheduler q) = ''Preemptive Condition Scheduler'' @ [CHR 0x0A]"
| "Cond_printName (GuidedCondScheduler b) = ''Guided Condition Scheduler'' @ [CHR 0x0A]"

text \<open>The loop of \<open>GuidedCondScheduler::selectNextItem\<close> over the thread ids of the remaining events.\<close>

fun guided_scan :: "uint list \<Rightarrow> uint \<Rightarrow> cond_scheduler \<Rightarrow> WaitParam option \<times> cond_scheduler" where
  "guided_scan [] lastThreadId b = (None, b)"
| "guided_scan (t # ts) lastThreadId b =
     (if t = lastThreadId then guided_scan ts lastThreadId b
      else case Cond_removeThread b t of
             (Some w, b') \<Rightarrow> (Some w, b')
           | (None, b') \<Rightarrow> guided_scan ts t b')"

text \<open>The nesting of guided schedulers, which the dispatch of \<open>selectNextItem\<close> descends.\<close>

fun nesting :: "cond_scheduler \<Rightarrow> nat" where
  "nesting (FIFSCondScheduler q) = 0"
| "nesting (PreemptiveCondScheduler q) = 0"
| "nesting (GuidedCondScheduler b) = Suc (nesting b)"

lemma nesting_removeThread [simp]: "nesting (snd (Cond_removeThread b t)) = nesting b"
  by (induction b) simp_all

lemma nesting_guided_scan: "nesting (snd (guided_scan ts l b)) = nesting b"
proof (induction ts arbitrary: l b)
  case (Cons t ts)
  obtain r c where rc: "Cond_removeThread b t = (r, c)" by (cases "Cond_removeThread b t")
  then have "nesting c = nesting b" using nesting_removeThread [of b t] by simp
  with Cons rc show ?case by (cases r) simp_all
qed simp

text \<open>The result is a pointer that may be null.\<close>

function Cond_selectNextItem ::
  "event_heap \<Rightarrow> prefix \<Rightarrow> cond_scheduler \<Rightarrow> (WaitParam option \<times> cond_scheduler) outcome" where
  "Cond_selectNextItem h p (FIFSCondScheduler q) =
     bind_outcome (FIFSCond_selectNextItem q) (\<lambda>(w, q'). Inr (Some w, FIFSCondScheduler q'))"
| "Cond_selectNextItem h p (PreemptiveCondScheduler q) =
     bind_outcome (PreemptiveCond_selectNextItem q) (\<lambda>(w, q'). Inr (Some w, PreemptiveCondScheduler q'))"
| "Cond_selectNextItem h p (GuidedCondScheduler b) =
     (if isFinished p
      then bind_outcome (Cond_selectNextItem h p b) (\<lambda>(w, b'). Inr (w, GuidedCondScheduler b'))
      else case guided_scan (map (\<lambda>e. ev_threadId (h e)) (remaining p)) 0 b of
             (Some w, b') \<Rightarrow> Inr (Some w, GuidedCondScheduler b')
           | (None, b') \<Rightarrow>
               if \<not> Cond_isQueueEmpty b'
               then bind_outcome (Cond_selectNextItem h p b') (\<lambda>(w, b''). Inr (w, GuidedCondScheduler b''))
               else Inr (None, GuidedCondScheduler b'))"
  by pat_completeness auto
termination
  by (relation "measure (\<lambda>(h, p, s). nesting s)")
     (simp_all, metis less_Suc_eq nesting_guided_scan snd_conv)

subsection \<open>Contracts of the condition schedulers\<close>

lemmas FIFSCond_defs =
  FIFSCond_selectNextItem_def FIFSCond_popAllItem_def FIFSCond_itemNum_def
  FIFSCond_isQueueEmpty_def FIFSCond_addItem_def FIFSCond_removeItem_def FIFSCond_removeThread_def

lemmas PreemptiveCond_defs =
  PreemptiveCond_selectNextItem_def PreemptiveCond_popAllItem_def PreemptiveCond_itemNum_def
  PreemptiveCond_isQueueEmpty_def PreemptiveCond_addItem_def PreemptiveCond_removeItem_def
  PreemptiveCond_removeThread_def

interpretation fifs_cond: fifo_queue "\<lambda>q. q" FIFSCond_addItem FIFSCond_selectNextItem
    "FIFSCond_popAllItem []" FIFSCond_itemNum FIFSCond_isQueueEmpty
proof
  show "\<exists>q'. FIFSCond_selectNextItem q = Inr (hd q, q') \<and> q' = tl q" if "q \<noteq> []" for q
    using that by (cases q) (simp_all add: FIFSCond_defs)
qed (simp_all add: FIFSCond_defs)

interpretation preemptive_cond: lifo_queue "\<lambda>q. q" PreemptiveCond_addItem PreemptiveCond_selectNextItem
    "PreemptiveCond_popAllItem []" PreemptiveCond_itemNum PreemptiveCond_isQueueEmpty
  by unfold_locales (simp_all add: PreemptiveCond_defs back_of_def)

lemma waiting_Cond_addItem [simp]: "waiting (Cond_addItem s w) = waiting s @ [w]"
  by (induction s) (simp_all add: FIFSCond_defs PreemptiveCond_defs)

lemma fst_Cond_popAllItem [simp]: "fst (Cond_popAllItem all s) = all @ waiting s"
  by (induction s) (simp_all add: FIFSCond_defs PreemptiveCond_defs)

lemma waiting_Cond_popAllItem [simp]: "waiting (snd (Cond_popAllItem all s)) = []"
  by (induction s) (simp_all add: FIFSCond_defs PreemptiveCond_defs)

lemma Cond_itemNum_waiting [simp]: "Cond_itemNum s = length (waiting s)"
  by (induction s) (simp_all add: FIFSCond_defs PreemptiveCond_defs)

lemma Cond_isQueueEmpty_waiting [simp]: "Cond_isQueueEmpty s \<longleftrightarrow> waiting s = []"
  by (induction s) (simp_all add: FIFSCond_defs PreemptiveCond_defs)

lemma Cond_removeThread_waiting:
  "fst (Cond_removeThread s t) = fst (take_first (\<lambda>w. wp_threadId w = t) (waiting s))"
  "waiting (snd (Cond_removeThread s t)) = snd (take_first (\<lambda>w. wp_threadId w = t) (waiting s))"
  by (induction s) (simp_all add: FIFSCond_defs PreemptiveCond_defs)

lemma Cond_removeThread_cases:
  obtains (absent) b' where "Cond_removeThread b t = (None, b')" "waiting b' = waiting b"
      "t \<notin> wp_threadId ` set (waiting b)"
    | (found) w b' where "Cond_removeThread b t = (Some w, b')" "wp_threadId w = t"
      "take_first (\<lambda>w. wp_threadId w = t) (waiting b) = (Some w, waiting b')"
proof (cases "take_first (\<lambda>w. wp_threadId w = t) (waiting b)")
  case (Pair r ys)
  obtain r' b' where rb: "Cond_removeThread b t = (r', b')" by (cases "Cond_removeThread b t")
  with Pair Cond_removeThread_waiting [of b t] have eq: "r' = r" "waiting b' = ys" by simp_all
  show ?thesis
  proof (cases r)
    case None
    with Pair have "ys = waiting b \<and> (\<forall>w\<in>set (waiting b). wp_threadId w \<noteq> t)"
      using take_first_None by fastforce
    with None eq rb show ?thesis by (intro absent [of b']) auto
  next
    case (Some w)
    with Pair have "wp_threadId w = t" using take_first_Some by fastforce
    with Some eq rb Pair show ?thesis by (intro found [of w b']) auto
  qed
qed

text \<open>
  The guided scan releases the waiter of the first thread in the remaining events that is
  waiting at all. Skipping repeated ids is sound: the id skipped was just tried, or is the
  initial \<open>0\<close>, which is nobody's id.
\<close>

lemma guided_scan_first:
  assumes "guided_scan ts lastThreadId b = (r, b')"
    and "lastThreadId \<notin> wp_threadId ` set (waiting b)"
  shows "(r, waiting b') =
     (case find (\<lambda>t. t \<in> wp_threadId ` set (waiting b)) ts of
        None \<Rightarrow> (None, waiting b)
      | Some t \<Rightarrow> take_first (\<lambda>w. wp_threadId w = t) (waiting b))"
  using assms
proof (induction ts arbitrary: lastThreadId b)
  case Nil
  then show ?case by simp
next
  case (Cons t ts)
  show ?case
  proof (cases "t = lastThreadId")
    case True
    with Cons.prems have "guided_scan ts lastThreadId b = (r, b')" by simp
    from Cons.IH [OF this Cons.prems(2)] True Cons.prems(2) show ?thesis by simp
  next
    case False
    show ?thesis
    proof (cases rule: Cond_removeThread_cases [of b t])
      case (absent c)
      with False Cons.prems have "guided_scan ts t c = (r, b')" by simp
      moreover from absent have "t \<notin> wp_threadId ` set (waiting c)" by simp
      ultimately have "(r, waiting b') =
          (case find (\<lambda>t. t \<in> wp_threadId ` set (waiting c)) ts of
             None \<Rightarrow> (None, waiting c)
           | Some t \<Rightarrow> take_first (\<lambda>w. wp_threadId w = t) (waiting c))" by (rule Cons.IH)
      then show ?thesis using absent(3) unfolding absent(2) by simp
    next
      case (found w c)
      then have "t \<in> wp_threadId ` set (waiting b)"
        by (metis (no_types, lifting) image_eqI in_set_conv_decomp take_first_Some)
      with False found Cons.prems show ?thesis by simp
    qed
  qed
qed

text \<open>What the guided scan does to the queue, whichever threads the prefix names.\<close>

lemma guided_scan_None: "guided_scan ts l b = (None, b') \<Longrightarrow> waiting b' = waiting b"
proof (induction ts arbitrary: l b)
  case (Cons t ts)
  show ?case
    by (cases rule: Cond_removeThread_cases [of b t])
       (use Cons in \<open>auto split: if_splits\<close>)
qed simp

lemma guided_scan_Some:
  "guided_scan ts l b = (Some w, b') \<Longrightarrow> mset (waiting b) = add_mset w (mset (waiting b'))"
proof (induction ts arbitrary: l b)
  case (Cons t ts)
  show ?case
  proof (cases rule: Cond_removeThread_cases [of b t])
    case (absent c)
    with Cons.prems have "guided_scan ts l b = (Some w, b') \<or> guided_scan ts t c = (Some w, b')"
      by (auto split: if_splits)
    with absent Cons.IH show ?thesis by metis
  next
    case (found v c)
    with Cons.prems have "guided_scan ts l b = (Some w, b') \<or> (v = w \<and> c = b')"
      by (auto split: if_splits)
    with take_first_mset [OF found(3)] Cons.IH show ?thesis by metis
  qed
qed simp

text \<open>Selecting on a non-empty queue succeeds, returns a waiter and removes exactly it.\<close>

lemma Cond_select_spec:
  "waiting s \<noteq> [] \<Longrightarrow>
     \<exists>w s'. Cond_selectNextItem h p s = Inr (Some w, s') \<and>
       mset (waiting s) = add_mset w (mset (waiting s'))"
proof (induction h p s rule: Cond_selectNextItem.induct)
  case (1 h p q)
  then show ?case by (cases q) (simp_all add: FIFSCond_defs)
next
  case (2 h p q)
  then show ?case by (simp add: PreemptiveCond_defs back_of_def mset_butlast_last)
next
  case (3 h p b)
  let ?ts = "map (\<lambda>e. ev_threadId (h e)) (remaining p)"
  from "3.prems" have ne: "waiting b \<noteq> []" by simp
  show ?case
  proof (cases "isFinished p")
    case True
    with "3.IH"(1) ne obtain w s' where "Cond_selectNextItem h p b = Inr (Some w, s')"
      "mset (waiting b) = add_mset w (mset (waiting s'))" by blast
    with True show ?thesis by simp
  next
    case False
    obtain r b' where scan: "guided_scan ?ts 0 b = (r, b')"
      by (cases "guided_scan ?ts 0 b")
    show ?thesis
    proof (cases r)
      case (Some w)
      with False scan guided_scan_Some [of ?ts 0 b w b'] show ?thesis by simp
    next
      case None
      with scan have eq: "waiting b' = waiting b" using guided_scan_None by simp
      with "3.IH"(2) [OF False scan [symmetric] None] ne obtain w s' where
        "Cond_selectNextItem h p b' = Inr (Some w, s')"
        "mset (waiting b') = add_mset w (mset (waiting s'))" by auto
      with False None scan eq ne show ?thesis by simp
    qed
  qed
qed

lemma Cond_select_mset:
  assumes "Cond_selectNextItem h p s = Inr (Some w, s')" and "waiting s \<noteq> []"
  shows "mset (waiting s) = add_mset w (mset (waiting s'))"
  using Cond_select_spec [OF assms(2), of h p] assms(1) by auto



section \<open>Waiting for a mutex\<close>

text \<open>
  \<open>MutexScheduler\<close> keeps thread ids; \<open>removeItem\<close> answers the id it removed, or \<open>0\<close> when the id
  is not in the queue.
\<close>

definition found_or_zero :: "uint option \<times> uint list \<Rightarrow> uint \<times> uint list" where
  "found_or_zero r = (case r of (None, q) \<Rightarrow> (0, q) | (Some t, q) \<Rightarrow> (t, q))"

definition FIFSMutex_selectNextItem :: "uint list \<Rightarrow> (uint \<times> uint list) outcome" where
  "FIFSMutex_selectNextItem queue = bind_outcome (front_of queue) (\<lambda>t. Inr (t, tl queue))"

definition FIFSMutex_popAllItem :: "uint list \<Rightarrow> uint list \<Rightarrow> uint list \<times> uint list" where
  "FIFSMutex_popAllItem allItem queue = (allItem @ queue, [])"

definition FIFSMutex_itemNum :: "uint list \<Rightarrow> nat" where
  "FIFSMutex_itemNum queue = length queue"

definition FIFSMutex_isQueueEmpty :: "uint list \<Rightarrow> bool" where
  "FIFSMutex_isQueueEmpty queue \<longleftrightarrow> queue = []"

definition FIFSMutex_addItem :: "uint list \<Rightarrow> uint \<Rightarrow> uint list" where
  "FIFSMutex_addItem queue threadId = queue @ [threadId]"

definition FIFSMutex_removeItem :: "uint list \<Rightarrow> uint \<Rightarrow> uint \<times> uint list" where
  "FIFSMutex_removeItem queue threadId = found_or_zero (take_first (\<lambda>t. t = threadId) queue)"

definition FIFSMutex_printAllItem :: "uint list \<Rightarrow> string" where
  "FIFSMutex_printAllItem queue = print_ids queue"

definition PreemptiveMutex_selectNextItem :: "uint list \<Rightarrow> (uint \<times> uint list) outcome" where
  "PreemptiveMutex_selectNextItem queue = bind_outcome (back_of queue) (\<lambda>t. Inr (t, butlast queue))"

definition PreemptiveMutex_popAllItem :: "uint list \<Rightarrow> uint list \<Rightarrow> uint list \<times> uint list" where
  "PreemptiveMutex_popAllItem allItem queue = (allItem @ queue, [])"

definition PreemptiveMutex_itemNum :: "uint list \<Rightarrow> nat" where
  "PreemptiveMutex_itemNum queue = length queue"

definition PreemptiveMutex_isQueueEmpty :: "uint list \<Rightarrow> bool" where
  "PreemptiveMutex_isQueueEmpty queue \<longleftrightarrow> queue = []"

definition PreemptiveMutex_addItem :: "uint list \<Rightarrow> uint \<Rightarrow> uint list" where
  "PreemptiveMutex_addItem queue threadId = queue @ [threadId]"

definition PreemptiveMutex_removeItem :: "uint list \<Rightarrow> uint \<Rightarrow> uint \<times> uint list" where
  "PreemptiveMutex_removeItem queue threadId = found_or_zero (take_first (\<lambda>t. t = threadId) queue)"

definition PreemptiveMutex_printAllItem :: "uint list \<Rightarrow> string" where
  "PreemptiveMutex_printAllItem queue = print_ids queue"

datatype mutex_scheduler = FIFSMutexScheduler "uint list" | PreemptiveMutexScheduler "uint list"

fun getMutexSchedulerByType :: "CondSchedulerType \<Rightarrow> mutex_scheduler outcome" where
  "getMutexSchedulerByType FIFS = Inr (FIFSMutexScheduler [])"
| "getMutexSchedulerByType Preemptive = Inr (PreemptiveMutexScheduler [])"
| "getMutexSchedulerByType Random = Inl (Undefined ''uninitialised MutexScheduler*'')"

interpretation fifs_mutex: fifo_queue "\<lambda>q. q" FIFSMutex_addItem FIFSMutex_selectNextItem
    "FIFSMutex_popAllItem []" FIFSMutex_itemNum FIFSMutex_isQueueEmpty
proof
  show "\<exists>q'. FIFSMutex_selectNextItem q = Inr (hd q, q') \<and> q' = tl q" if "q \<noteq> []" for q
    using that by (cases q) (simp_all add: FIFSMutex_selectNextItem_def)
qed (simp_all add: FIFSMutex_selectNextItem_def FIFSMutex_addItem_def FIFSMutex_popAllItem_def
      FIFSMutex_itemNum_def FIFSMutex_isQueueEmpty_def)

interpretation preemptive_mutex: lifo_queue "\<lambda>q. q" PreemptiveMutex_addItem PreemptiveMutex_selectNextItem
    "PreemptiveMutex_popAllItem []" PreemptiveMutex_itemNum PreemptiveMutex_isQueueEmpty
  by unfold_locales (simp_all add: PreemptiveMutex_selectNextItem_def PreemptiveMutex_addItem_def
      PreemptiveMutex_popAllItem_def PreemptiveMutex_itemNum_def PreemptiveMutex_isQueueEmpty_def back_of_def)

lemma FIFSMutex_removeItem_found:
  "FIFSMutex_removeItem queue t = (if t \<in> set queue then t else 0, remove1 t queue)"
  by (simp add: FIFSMutex_removeItem_def take_first_remove1 found_or_zero_def)

lemma PreemptiveMutex_removeItem_found:
  "PreemptiveMutex_removeItem queue t = (if t \<in> set queue then t else 0, remove1 t queue)"
  by (simp add: PreemptiveMutex_removeItem_def take_first_remove1 found_or_zero_def)


section \<open>The scheduler templates\<close>

text \<open>
  \<open>DefaultScheduler<Item>\<close> serves the item that arrived last; \<open>RandomScheduler<Item>\<close> serves the
  item at \<open>theRNG.getInt32() % itemList.size()\<close>, where the random number is an argument of the
  model. With no item the remainder by \<open>0\<close> is undefined.
\<close>

definition Default_selectNextItem :: "'a list \<Rightarrow> ('a \<times> 'a list) outcome" where
  "Default_selectNextItem queue = bind_outcome (back_of queue) (\<lambda>x. Inr (x, butlast queue))"

definition Default_popAllItem :: "'a list \<Rightarrow> 'a list \<times> 'a list" where
  "Default_popAllItem queue = (queue, [])"

definition Default_itemNum :: "'a list \<Rightarrow> nat" where
  "Default_itemNum queue = length queue"

definition Default_isQueueEmpty :: "'a list \<Rightarrow> bool" where
  "Default_isQueueEmpty queue \<longleftrightarrow> queue = []"

definition Default_addItem :: "'a list \<Rightarrow> 'a \<Rightarrow> 'a list" where
  "Default_addItem queue item = queue @ [item]"

definition Default_removeItem :: "'a list \<Rightarrow> 'a \<Rightarrow> 'a list" where
  "Default_removeItem queue item = snd (take_first (\<lambda>x. x = item) queue)"

definition Random_selectNextItem :: "uint \<Rightarrow> 'a list \<Rightarrow> ('a \<times> 'a list) outcome" where
  "Random_selectNextItem rnd itemList =
     (if itemList = [] then Inl (Undefined ''% 0'')
      else let index = unat rnd mod length itemList
           in Inr (itemList ! index, take index itemList @ drop (Suc index) itemList))"

definition Random_popAllItem :: "'a list \<Rightarrow> 'a list \<times> 'a list" where
  "Random_popAllItem itemList = (itemList, [])"

definition Random_itemNum :: "'a list \<Rightarrow> nat" where
  "Random_itemNum itemList = length itemList"

definition Random_isQueueEmpty :: "'a list \<Rightarrow> bool" where
  "Random_isQueueEmpty itemList \<longleftrightarrow> itemList = []"

definition Random_addItem :: "'a list \<Rightarrow> 'a \<Rightarrow> 'a list" where
  "Random_addItem itemList item = itemList @ [item]"

definition Random_removeItem :: "'a list \<Rightarrow> 'a \<Rightarrow> 'a list" where
  "Random_removeItem itemList item = snd (take_first (\<lambda>x. x = item) itemList)"

interpretation default_sched: lifo_queue "\<lambda>q. q" Default_addItem Default_selectNextItem
    Default_popAllItem Default_itemNum Default_isQueueEmpty
  by unfold_locales (simp_all add: Default_addItem_def Default_selectNextItem_def Default_popAllItem_def
      Default_itemNum_def Default_isQueueEmpty_def back_of_def)

lemma Random_select_mset:
  assumes "itemList \<noteq> []"
  shows "\<exists>x q'. Random_selectNextItem rnd itemList = Inr (x, q') \<and> mset itemList = add_mset x (mset q')"
proof -
  let ?i = "unat rnd mod length itemList"
  have "?i < length itemList" using assms by simp
  then have "mset itemList = mset (take ?i itemList @ itemList ! ?i # drop (Suc ?i) itemList)"
    by (simp add: id_take_nth_drop [symmetric])
  with assms show ?thesis by (simp add: Random_selectNextItem_def Let_def)
qed

interpretation random_sched: wait_queue "\<lambda>q. q" Random_addItem "Random_selectNextItem rnd"
    Random_popAllItem Random_itemNum Random_isQueueEmpty for rnd
proof
  show "\<exists>x q'. Random_selectNextItem rnd q = Inr (x, q') \<and> mset q = add_mset x (mset q')"
    if "q \<noteq> []" for q :: "'a list"
    using that by (rule Random_select_mset)
qed (simp_all add: Random_addItem_def Random_selectNextItem_def Random_popAllItem_def
      Random_itemNum_def Random_isQueueEmpty_def)


section \<open>Properties\<close>

text \<open>
  (C17) While a prefix is being replayed, a signal releases the waiter whose thread the remaining
  events run first, and leaves the other waiters in their order.
\<close>

theorem GuidedCondScheduler_follows_prefix:
  assumes "\<not> isFinished p" and "0 \<notin> wp_threadId ` set (waiting b)"
    and "find (\<lambda>t. t \<in> wp_threadId ` set (waiting b)) (map (\<lambda>e. ev_threadId (h e)) (remaining p)) = Some t"
  shows "\<exists>w b'. Cond_selectNextItem h p (GuidedCondScheduler b) = Inr (Some w, GuidedCondScheduler b') \<and>
    wp_threadId w = t \<and>
    (\<exists>before after. waiting b = before @ w # after \<and> waiting b' = before @ after \<and>
       t \<notin> wp_threadId ` set before)"
proof -
  let ?ts = "map (\<lambda>e. ev_threadId (h e)) (remaining p)"
  obtain r b' where scan: "guided_scan ?ts 0 b = (r, b')" by (cases "guided_scan ?ts 0 b")
  from guided_scan_first [OF scan assms(2)] assms(3)
  have found: "take_first (\<lambda>w. wp_threadId w = t) (waiting b) = (r, waiting b')" by simp
  from assms(3) have "t \<in> wp_threadId ` set (waiting b)" by (auto simp: find_Some_iff)
  with found obtain w where w: "r = Some w"
    using take_first_None_iff [of "\<lambda>w. wp_threadId w = t" "waiting b"] by (cases r) auto
  from take_first_Some [OF found [unfolded w]] obtain before after where
    "wp_threadId w = t" "waiting b = before @ w # after" "waiting b' = before @ after"
    "\<forall>a\<in>set before. wp_threadId a \<noteq> t" by blast
  moreover from this(4) have "t \<notin> wp_threadId ` set before" by auto
  moreover from assms(1) scan w
  have "Cond_selectNextItem h p (GuidedCondScheduler b) = Inr (Some w, GuidedCondScheduler b')" by simp
  ultimately show ?thesis by blast
qed

definition two_events :: "event_heap" where
  "two_events e = Event 0 (if e = 0 then 3 else 2) 0 [] 0 [] [] NORMAL"

theorem GuidedCondScheduler_follows_prefix_witness:
  "\<exists>w b'. Cond_selectNextItem two_events (Prefix [0, 1] Map.empty [])
       (GuidedCondScheduler (FIFSCondScheduler [new_WaitParam 0 ''m'' 1, new_WaitParam 1 ''m'' 2])) =
     Inr (Some w, GuidedCondScheduler b') \<and> wp_threadId w = 2"
  using GuidedCondScheduler_follows_prefix [of "Prefix [0, 1] Map.empty []"
      "FIFSCondScheduler [new_WaitParam 0 ''m'' 1, new_WaitParam 1 ''m'' 2]" two_events 2]
  by (auto simp: isFinished_def Prefix_def remaining_def two_events_def Event_def new_WaitParam_def)

text \<open>
  Draining the queue of a \<open>FIFSCondScheduler\<close> serves the waiters in the order of their
  arrival, and draining a \<open>PreemptiveCondScheduler\<close> in the reverse order.
\<close>

theorem cond_schedulers_drain_order:
  "(\<exists>q'. drain FIFSCond_selectNextItem (FIFSCond_itemNum q) q = Inr (q, q') \<and> FIFSCond_isQueueEmpty q') \<and>
   (\<exists>q'. drain PreemptiveCond_selectNextItem (PreemptiveCond_itemNum q) q = Inr (rev q, q') \<and>
      PreemptiveCond_isQueueEmpty q')"
  using fifs_cond.drain_in_arrival_order [of q] preemptive_cond.drain_in_reverse_order [of q]
  by (simp add: FIFSCond_itemNum_def FIFSCond_isQueueEmpty_def PreemptiveCond_itemNum_def
      PreemptiveCond_isQueueEmpty_def)

end
