(* ===== verification/Cond_Manager.thy ===== *)
theory Cond_Manager
  imports Mutex_Manager Wait_Schedulers
begin

text \<open>
  \<^verbatim>\<open>src/lib/Core/Condition.cpp\<close> and \<^verbatim>\<open>CondManager.cpp\<close>. A \<open>Condition\<close> is reached only through the
  manager's pool, so the pool holds the objects. The manager calls the mutex manager through
  a pointer: the mutex manager is threaded through the operations, with the interpreter's
  prefix for the guided queues. \<open>cm_freshWait\<close> is the next address of a \<open>WaitParam\<close>.

  The manager is shown never to fail, to release exactly the waiters a signal or broadcast
  names, and to hand each of them to the mutex manager.
\<close>

section \<open>\<open>Condition\<close>\<close>

record condition =
  cd_waitingList :: cond_scheduler
  cd_id :: uint
  cd_name :: string

definition new_Condition :: "uint \<Rightarrow> string \<Rightarrow> CondSchedulerType \<Rightarrow> condition outcome" where
  "new_Condition i n ty =
     bind_outcome (getCondSchedulerByType ty) (\<lambda>w. Inr \<lparr>cd_waitingList = w, cd_id = i, cd_name = n\<rparr>)"

definition new_Condition_guided :: "uint \<Rightarrow> string \<Rightarrow> CondSchedulerType \<Rightarrow> condition outcome" where
  "new_Condition_guided i n ty =
     bind_outcome (new_GuidedCondScheduler ty) (\<lambda>w. Inr \<lparr>cd_waitingList = w, cd_id = i, cd_name = n\<rparr>)"

definition Condition_wait :: "condition \<Rightarrow> WaitParam \<Rightarrow> condition" where
  "Condition_wait c waitParam = c\<lparr>cd_waitingList := Cond_addItem (cd_waitingList c) waitParam\<rparr>"

definition Condition_signal ::
  "event_heap \<Rightarrow> prefix \<Rightarrow> condition \<Rightarrow> (WaitParam option \<times> condition) outcome" where
  "Condition_signal h p c =
     (if Cond_isQueueEmpty (cd_waitingList c) then Inr (None, c)
      else bind_outcome (Cond_selectNextItem h p (cd_waitingList c))
             (\<lambda>(wp, w). Inr (wp, c\<lparr>cd_waitingList := w\<rparr>)))"

definition Condition_broadcast :: "WaitParam list \<Rightarrow> condition \<Rightarrow> WaitParam list \<times> condition" where
  "Condition_broadcast allWait c =
     (let (ws, w) = Cond_popAllItem allWait (cd_waitingList c) in (ws, c\<lparr>cd_waitingList := w\<rparr>))"


section \<open>\<open>CondManager\<close>\<close>

record cond_manager =
  cm_condPool :: "string \<rightharpoonup> condition"
  cm_nextConditionId :: uint
  cm_freshWait :: nat

definition new_CondManager :: cond_manager where
  "new_CondManager = \<lparr>cm_condPool = Map.empty, cm_nextConditionId = 1, cm_freshWait = 0\<rparr>"

definition getCondition :: "cond_manager \<Rightarrow> string \<Rightarrow> condition option" where
  "getCondition cm condName = cm_condPool cm condName"

definition put_condition :: "cond_manager \<Rightarrow> string \<Rightarrow> condition \<Rightarrow> cond_manager" where
  "put_condition cm condName c = cm\<lparr>cm_condPool := (cm_condPool cm)(condName \<mapsto> c)\<rparr>"

definition cond_wait ::
  "cond_manager \<Rightarrow> mutex_manager \<Rightarrow> string \<Rightarrow> string \<Rightarrow> uint \<Rightarrow>
   (unit answer \<times> cond_manager \<times> mutex_manager) outcome" where
  "cond_wait cm mm condName mutexName threadId =
     (case getMutex mm mutexName of
        None \<Rightarrow> Inr (Inl (''mutex '' @ mutexName @ '' undefined''), cm, mm)
      | Some ptr \<Rightarrow>
          (case getCondition cm condName of
             None \<Rightarrow> Inr (Inl (''condition '' @ condName @ '' undefined''), cm, mm)
           | Some c \<Rightarrow>
               bind_outcome (deref_mutex mm ptr)
                 (\<lambda>mx. if \<not> isThreadOwnMutex mx threadId
                       then Inr (Inl (uint64toString (ucast threadId) @ '' does not own mutex '' @ mutexName), cm, mm)
                       else let wp = new_WaitParam (cm_freshWait cm) mutexName threadId;
                                cm' = put_condition (cm\<lparr>cm_freshWait := Suc (cm_freshWait cm)\<rparr>) condName
                                        (Condition_wait c wp)
                            in bind_outcome (manager_unlock mm mutexName) (\<lambda>(r, mm'). Inr (r, cm', mm')))))"

definition cond_signal ::
  "event_heap \<Rightarrow> prefix \<Rightarrow> cond_manager \<Rightarrow> mutex_manager \<Rightarrow> string \<Rightarrow>
   (uint answer \<times> cond_manager \<times> mutex_manager) outcome" where
  "cond_signal h p cm mm condName =
     (case getCondition cm condName of
        None \<Rightarrow> Inr (Inl (''condition '' @ condName @ '' undefined''), cm, mm)
      | Some c \<Rightarrow>
          bind_outcome (Condition_signal h p c)
            (\<lambda>(wp, c'). let cm' = put_condition cm condName c'
                        in case wp of
                             None \<Rightarrow> Inr (Inr 0, cm', mm)
                           | Some w \<Rightarrow>
                               bind_outcome (addBlockedThread mm (wp_threadId w) (wp_mutexName w))
                                 (\<lambda>mm'. Inr (Inr (wp_threadId w), cm', mm'))))"

definition cond_broadcast ::
  "cond_manager \<Rightarrow> mutex_manager \<Rightarrow> string \<Rightarrow> (uint list answer \<times> cond_manager \<times> mutex_manager) outcome" where
  "cond_broadcast cm mm condName =
     (case getCondition cm condName of
        None \<Rightarrow> Inr (Inl (''condition '' @ condName @ '' undefined''), cm, mm)
      | Some c \<Rightarrow>
          let (itemList, c') = Condition_broadcast [] c
          in bind_outcome (fold_outcome (\<lambda>(t, n) mm. addBlockedThread mm t n)
                             (map (\<lambda>w. (wp_threadId w, wp_mutexName w)) itemList) mm)
               (\<lambda>mm'. Inr (Inr (map wp_threadId itemList), put_condition cm condName c', mm')))"

definition insert_condition ::
  "(uint \<Rightarrow> string \<Rightarrow> CondSchedulerType \<Rightarrow> condition outcome) \<Rightarrow> cond_manager \<Rightarrow> string \<Rightarrow>
   (unit answer \<times> cond_manager) outcome" where
  "insert_condition new cm condName =
     (case getCondition cm condName of
        Some _ \<Rightarrow> Inr (Inl (''redefinition of condition '' @ condName), cm)
      | None \<Rightarrow>
          bind_outcome (new (cm_nextConditionId cm) condName FIFS)
            (\<lambda>c. Inr (Inr (),
               cm\<lparr>cm_nextConditionId := cm_nextConditionId cm + 1,
                  cm_condPool := map_insert condName c (cm_condPool cm)\<rparr>)))"

definition addCondition :: "cond_manager \<Rightarrow> string \<Rightarrow> (unit answer \<times> cond_manager) outcome" where
  "addCondition = insert_condition new_Condition"

definition addCondition_guided :: "cond_manager \<Rightarrow> string \<Rightarrow> (unit answer \<times> cond_manager) outcome" where
  "addCondition_guided = insert_condition new_Condition_guided"

definition cond_clear :: "cond_manager \<Rightarrow> cond_manager" where
  "cond_clear cm = cm\<lparr>cm_condPool := Map.empty, cm_nextConditionId := 1\<rparr>"

definition getNextConditionId :: "cond_manager \<Rightarrow> uint" where
  "getNextConditionId cm = cm_nextConditionId cm"


section \<open>The waiters\<close>

text \<open>What a condition variable owes its clients: the threads that wait, each with its mutex.\<close>

definition waiters :: "cond_manager \<Rightarrow> string \<Rightarrow> (uint \<times> string) list" where
  "waiters cm c =
     (case cm_condPool cm c of
        None \<Rightarrow> []
      | Some cd \<Rightarrow> map (\<lambda>w. (wp_threadId w, wp_mutexName w)) (waiting (cd_waitingList cd)))"

text \<open>Every waiter's mutex exists, which is what the assertion of \<open>addBlockedThread\<close> needs.\<close>

definition waiters_ok :: "cond_manager \<Rightarrow> mutex_manager \<Rightarrow> bool" where
  "waiters_ok cm mm \<longleftrightarrow> (\<forall>c. \<forall>(t, n)\<in>set (waiters cm c). lt_holder (manager_table mm) n \<noteq> None)"

lemma waiters_put [simp]:
  "waiters (put_condition cm c cd) d =
     (if d = c then map (\<lambda>w. (wp_threadId w, wp_mutexName w)) (waiting (cd_waitingList cd)) else waiters cm d)"
  by (simp add: waiters_def put_condition_def)

lemma waiters_fresh [simp]: "waiters (cm\<lparr>cm_freshWait := k\<rparr>) d = waiters cm d"
  by (simp add: waiters_def)

lemma owner_in_table:
  assumes "manager_ok mm" and "getMutex mm n = Some p" and "deref_mutex mm p = Inr mx" and "t \<noteq> 0"
  shows "isThreadOwnMutex mx t \<longleftrightarrow> lt_holder (manager_table mm) n = Some (Some t)"
proof -
  from assms have mx: "mm_store mm p = Some mx" by (auto simp: deref_mutex_def split: option.splits)
  with manager_okD(1) [OF assms(1), of n p] assms(2) have "mx_name mx = n" by (auto simp: getMutex_def)
  with table_holder [OF assms(1) mx] manager_okD(4) [OF assms(1) mx] assms(4) show ?thesis
    by (auto simp: holder_of_def isThreadOwnMutex_def)
qed

lemma getMutex_deref:
  assumes "manager_ok mm" and "getMutex mm n = Some p"
  obtains mx where "deref_mutex mm p = Inr mx"
  using manager_okD(1) [OF assms(1)] assms(2) by (fastforce simp: getMutex_def deref_mutex_def)

text \<open>
  Waiting: the caller must hold the mutex, which it gives up; it joins the end of the queue.
\<close>

lemma cond_wait_holds:
  assumes "manager_ok mm" and "cm_condPool cm c = Some cd" and "t \<noteq> 0"
    and "lt_holder (manager_table mm) n = Some (Some t)"
  shows "\<exists>cm' mm'. cond_wait cm mm c n t = Inr (Inr (), cm', mm') \<and> manager_ok mm' \<and>
    manager_table mm' = (manager_table mm)\<lparr>lt_holder := (lt_holder (manager_table mm))(n \<mapsto> None)\<rparr> \<and>
    waiters cm' c = waiters cm c @ [(t, n)] \<and> (\<forall>d. d \<noteq> c \<longrightarrow> waiters cm' d = waiters cm d) \<and>
    dom (cm_condPool cm') = dom (cm_condPool cm)"
proof -
  from assms(1,4) table_undefined [OF assms(1), of n] obtain p where p: "getMutex mm n = Some p"
    by (cases "mm_mutexPool mm n") (auto simp: getMutex_def)
  obtain mx where mx: "deref_mutex mm p = Inr mx" using getMutex_deref [OF assms(1) p] .
  have own: "isThreadOwnMutex mx t" using owner_in_table [OF assms(1) p mx assms(3)] assms(4) by simp
  obtain r mm' where u: "manager_unlock mm n = Inr (r, mm')" "manager_ok mm'"
    "spec_unlock (manager_table mm) n = (r, manager_table mm')"
    using manager_unlock_refines [OF assms(1), of n] by blast
  from u(3) assms(4) have r: "r = Inr ()"
    "manager_table mm' = (manager_table mm)\<lparr>lt_holder := (lt_holder (manager_table mm))(n \<mapsto> None)\<rparr>"
    by (auto simp: spec_unlock_def split: if_splits)
  show ?thesis
    using p mx own u(1,2) r assms(2)
    by (auto simp: cond_wait_def getCondition_def Let_def Condition_wait_def new_WaitParam_def
        waiters_def put_condition_def)
qed

lemma cond_wait_refused:
  assumes "manager_ok mm" and "t \<noteq> 0" and "lt_holder (manager_table mm) n \<noteq> Some (Some t)"
  shows "\<exists>msg. cond_wait cm mm c n t = Inr (Inl msg, cm, mm)"
proof (cases "getMutex mm n")
  case None
  then show ?thesis by (simp add: cond_wait_def)
next
  case (Some p)
  then obtain mx where mx: "deref_mutex mm p = Inr mx" using getMutex_deref [OF assms(1)] by blast
  with owner_in_table [OF assms(1) Some mx assms(2)] assms(3) Some show ?thesis
    by (cases "getCondition cm c") (simp_all add: cond_wait_def)
qed

text \<open>Signalling: nobody when nobody waits, else exactly one waiter, who now waits for its mutex.\<close>

lemma cond_signal_nobody:
  assumes "cm_condPool cm c = Some cd" and "waiters cm c = []"
  shows "cond_signal h p cm mm c = Inr (Inr 0, cm, mm)"
proof -
  from assms have "waiting (cd_waitingList cd) = []" by (simp add: waiters_def)
  with assms(1) show ?thesis
    by (simp add: cond_signal_def getCondition_def Condition_signal_def put_condition_def map_upd_triv)
qed

lemma cond_signal_one:
  assumes "manager_ok mm" and "waiters_ok cm mm" and "waiters cm c \<noteq> []"
  shows "\<exists>t n cm' mm'. cond_signal h p cm mm c = Inr (Inr t, cm', mm') \<and> manager_ok mm' \<and>
    manager_table mm' = (manager_table mm)\<lparr>lt_blocked := map_insert t n (lt_blocked (manager_table mm))\<rparr> \<and>
    mset (waiters cm c) = add_mset (t, n) (mset (waiters cm' c)) \<and>
    (\<forall>d. d \<noteq> c \<longrightarrow> waiters cm' d = waiters cm d) \<and> dom (cm_condPool cm') = dom (cm_condPool cm)"
proof -
  from assms(3) obtain cd where cd: "cm_condPool cm c = Some cd" "waiting (cd_waitingList cd) \<noteq> []"
    by (auto simp: waiters_def split: option.splits)
  obtain w s where s: "Cond_selectNextItem h p (cd_waitingList cd) = Inr (Some w, s)"
    "mset (waiting (cd_waitingList cd)) = add_mset w (mset (waiting s))"
    using Cond_select_spec [OF cd(2)] by blast
  let ?pair = "\<lambda>w. (wp_threadId w, wp_mutexName w)"
  have ms: "mset (waiters cm c) = add_mset (?pair w) (mset (map ?pair (waiting s)))"
    using s(2) cd(1) by (simp add: waiters_def)
  then have "?pair w \<in> set (waiters cm c)"
    by (metis set_mset_mset union_single_eq_member)
  with assms(2) have "lt_holder (manager_table mm) (wp_mutexName w) \<noteq> None" by (auto simp: waiters_ok_def)
  then obtain mm' where "addBlockedThread mm (wp_threadId w) (wp_mutexName w) = Inr mm'" "manager_ok mm'"
    "manager_table mm' = (manager_table mm)\<lparr>lt_blocked :=
       map_insert (wp_threadId w) (wp_mutexName w) (lt_blocked (manager_table mm))\<rparr>"
    using blocking.block_refines [OF assms(1)] by blast
  with cd s ms show ?thesis
    by (intro exI [of _ "wp_threadId w"] exI [of _ "wp_mutexName w"])
       (auto simp: cond_signal_def getCondition_def Condition_signal_def put_condition_def waiters_def)
qed

text \<open>Broadcasting releases every waiter, in the order of the queue.\<close>

lemma cond_broadcast_all:
  assumes "manager_ok mm" and "waiters_ok cm mm" and "cm_condPool cm c = Some cd"
  shows "\<exists>cm' mm'. cond_broadcast cm mm c = Inr (Inr (map fst (waiters cm c)), cm', mm') \<and> manager_ok mm' \<and>
    manager_table mm' = (manager_table mm)\<lparr>lt_blocked := block_all (waiters cm c) (lt_blocked (manager_table mm))\<rparr> \<and>
    waiters cm' c = [] \<and> (\<forall>d. d \<noteq> c \<longrightarrow> waiters cm' d = waiters cm d) \<and>
    dom (cm_condPool cm') = dom (cm_condPool cm)"
proof -
  obtain ws w where pop: "Cond_popAllItem [] (cd_waitingList cd) = (ws, w)"
    by (cases "Cond_popAllItem [] (cd_waitingList cd)")
  then have ws: "ws = waiting (cd_waitingList cd)" "waiting w = []"
    using fst_Cond_popAllItem [of "[]" "cd_waitingList cd"] waiting_Cond_popAllItem [of "[]" "cd_waitingList cd"]
    by simp_all
  have eq: "waiters cm c = map (\<lambda>w. (wp_threadId w, wp_mutexName w)) ws"
    using assms(3) ws by (simp add: waiters_def)
  have "\<forall>(t, n)\<in>set (waiters cm c). lt_holder (manager_table mm) n \<noteq> None"
    using assms(2) by (auto simp: waiters_ok_def)
  from blocking.block_list [OF assms(1) this] obtain mm' where
    "fold_outcome (\<lambda>(t, n) m. addBlockedThread m t n) (waiters cm c) mm = Inr mm'" "manager_ok mm'"
    "manager_table mm' = (manager_table mm)\<lparr>lt_blocked := block_all (waiters cm c) (lt_blocked (manager_table mm))\<rparr>"
    by blast
  with assms(3) pop ws(2) eq show ?thesis
    by (auto simp: cond_broadcast_def getCondition_def Condition_broadcast_def Let_def put_condition_def
        waiters_def comp_def)
qed

lemma insert_condition_empty:
  assumes "getCondition cm c = None"
  shows "\<exists>cm'. addCondition cm c = Inr (Inr (), cm') \<and> waiters cm' = waiters cm \<and>
      dom (cm_condPool cm') = insert c (dom (cm_condPool cm))"
    and "\<exists>cm'. addCondition_guided cm c = Inr (Inr (), cm') \<and> waiters cm' = waiters cm \<and>
      dom (cm_condPool cm') = insert c (dom (cm_condPool cm))"
  using assms
  by (auto simp: addCondition_def addCondition_guided_def insert_condition_def new_Condition_def
      new_Condition_guided_def new_GuidedCondScheduler_def waiters_def fun_eq_iff getCondition_def
      map_insert_fresh)


section \<open>Properties\<close>


text \<open>A manager of mutexes with \<open>''m''\<close> held by thread 1, and one of conditions with \<open>''c''\<close>.\<close>

definition example_mutexes :: mutex_manager where
  "example_mutexes =
     (case manager_lock (snd (addMutex new_MutexManager ''m'')) ''m'' 1 of
        Inl _ \<Rightarrow> new_MutexManager | Inr (_, mm) \<Rightarrow> mm)"

definition example_conditions :: cond_manager where
  "example_conditions =
     (case addCondition new_CondManager ''c'' of Inl _ \<Rightarrow> new_CondManager | Inr (_, cm) \<Rightarrow> cm)"

lemma example_mutexes_ok:
  "manager_ok example_mutexes" "lt_holder (manager_table example_mutexes) ''m'' = Some (Some 1)"
proof -
  let ?m = "snd (addMutex new_MutexManager ''m'')"
  have ok: "manager_ok ?m" using addMutex_refines [OF new_MutexManager_ok] by blast
  have free: "lt_holder (manager_table ?m) ''m'' = Some None"
    by (simp add: addMutex_def getMutex_def new_MutexManager_def manager_table_def map_insert_def
        holder_of_def Mutex_def)
  obtain r m' where m': "manager_lock ?m ''m'' 1 = Inr (r, m')" "manager_ok m'"
    "spec_lock (manager_table ?m) ''m'' 1 = (r, manager_table m')"
    using manager_lock_refines [OF ok] by blast
  from m'(3) have "manager_table m' = snd (spec_lock (manager_table ?m) ''m'' 1)" by simp
  with m'(1,2) free show "manager_ok example_mutexes" "lt_holder (manager_table example_mutexes) ''m'' = Some (Some 1)"
    by (simp_all add: example_mutexes_def spec_lock_def)
qed

lemma example_conditions_pool:
  "cm_condPool example_conditions = [''c'' \<mapsto> \<lparr>cd_waitingList = FIFSCondScheduler [], cd_id = 1, cd_name = ''c''\<rparr>]"
  by (simp add: example_conditions_def addCondition_def insert_condition_def getCondition_def
      new_CondManager_def new_Condition_def map_insert_def)

lemma example_waiters: "waiters example_conditions d = []"
  by (simp add: waiters_def example_conditions_pool)


text \<open>
  (C10) No wake-up is lost or duplicated: a signal with waiters releases exactly one of them and a
  broadcast all of them, in order; each released thread is at once queued for the very mutex it
  gave up, and the assertion of \<open>addBlockedThread\<close> never fires.
\<close>

theorem CondManager_no_lost_wakeup:
  assumes "manager_ok mm" and "waiters_ok cm mm" and "waiters cm c \<noteq> []"
    and "dom (lt_blocked (manager_table mm)) \<inter> fst ` set (waiters cm c) = {}"
    and "distinct (map fst (waiters cm c))"
  shows "(\<exists>t n cm' mm'. cond_signal h p cm mm c = Inr (Inr t, cm', mm') \<and>
      mset (waiters cm c) = add_mset (t, n) (mset (waiters cm' c)) \<and>
      lt_blocked (manager_table mm') = (lt_blocked (manager_table mm))(t \<mapsto> n) \<and>
      lt_holder (manager_table mm') = lt_holder (manager_table mm)) \<and>
    (\<exists>cm' mm'. cond_broadcast cm mm c = Inr (Inr (map fst (waiters cm c)), cm', mm') \<and>
      waiters cm' c = [] \<and> (\<forall>(t, n)\<in>set (waiters cm c). lt_blocked (manager_table mm') t = Some n) \<and>
      (\<forall>t. t \<notin> fst ` set (waiters cm c) \<longrightarrow>
         lt_blocked (manager_table mm') t = lt_blocked (manager_table mm) t) \<and>
      lt_holder (manager_table mm') = lt_holder (manager_table mm))"
proof (rule conjI)
  obtain t n cm' mm' where s: "cond_signal h p cm mm c = Inr (Inr t, cm', mm')"
    "manager_table mm' = (manager_table mm)\<lparr>lt_blocked := map_insert t n (lt_blocked (manager_table mm))\<rparr>"
    "mset (waiters cm c) = add_mset (t, n) (mset (waiters cm' c))"
    using cond_signal_one [OF assms(1-3)] by metis
  from s(3) have "(t, n) \<in> set (waiters cm c)" by (metis set_mset_mset union_single_eq_member)
  with assms(4) have "lt_blocked (manager_table mm) t = None" by (force simp: dom_def)
  with s show "\<exists>t n cm' mm'. cond_signal h p cm mm c = Inr (Inr t, cm', mm') \<and>
      mset (waiters cm c) = add_mset (t, n) (mset (waiters cm' c)) \<and>
      lt_blocked (manager_table mm') = (lt_blocked (manager_table mm))(t \<mapsto> n) \<and>
      lt_holder (manager_table mm') = lt_holder (manager_table mm)"
    by (fastforce simp: map_insert_fresh)
next
  from assms(3) obtain cd where cd: "cm_condPool cm c = Some cd" by (auto simp: waiters_def split: option.splits)
  have fresh: "lt_blocked (manager_table mm) t = None" if "(t, n) \<in> set (waiters cm c)" for t n
    using assms(4) that by (force simp: dom_def)
  from cond_broadcast_all [OF assms(1,2) cd] obtain cm' mm' where
    "cond_broadcast cm mm c = Inr (Inr (map fst (waiters cm c)), cm', mm')" "waiters cm' c = []"
    and mm': "manager_table mm' =
      (manager_table mm)\<lparr>lt_blocked := block_all (waiters cm c) (lt_blocked (manager_table mm))\<rparr>"
    by metis
  moreover have "lt_blocked (manager_table mm') t = Some n" if "(t, n) \<in> set (waiters cm c)" for t n
    using block_all_apply [OF assms(5) that, of "lt_blocked (manager_table mm)"] fresh [OF that] mm' by simp
  moreover have "lt_blocked (manager_table mm') t = lt_blocked (manager_table mm) t"
    if "t \<notin> fst ` set (waiters cm c)" for t
    using block_all_other [OF that] mm' by simp
  ultimately show "\<exists>cm' mm'. cond_broadcast cm mm c = Inr (Inr (map fst (waiters cm c)), cm', mm') \<and>
      waiters cm' c = [] \<and> (\<forall>(t, n)\<in>set (waiters cm c). lt_blocked (manager_table mm') t = Some n) \<and>
      (\<forall>t. t \<notin> fst ` set (waiters cm c) \<longrightarrow>
         lt_blocked (manager_table mm') t = lt_blocked (manager_table mm) t) \<and>
      lt_holder (manager_table mm') = lt_holder (manager_table mm)"
    using mm' by (intro exI [of _ cm'] exI [of _ mm']) auto
qed

definition example_waiting :: cond_manager where
  "example_waiting =
     put_condition example_conditions ''c''
       \<lparr>cd_waitingList = FIFSCondScheduler [new_WaitParam 0 ''m'' 2, new_WaitParam 1 ''m'' 3], cd_id = 1, cd_name = ''c''\<rparr>"

lemma example_waiting_waiters:
  "waiters example_waiting d = (if d = ''c'' then [(2, ''m''), (3, ''m'')] else [])"
  by (simp add: example_waiting_def new_WaitParam_def example_waiters)

lemma example_not_blocked: "lt_blocked (manager_table example_mutexes) = Map.empty"
  by (simp add: example_mutexes_def addMutex_def new_MutexManager_def getMutex_def manager_lock_def
      mutex_lock_def deref_mutex_def Mutex_def map_insert_def manager_table_def fun_eq_iff)

theorem CondManager_no_lost_wakeup_witness:
  "\<exists>cm' mm'. cond_broadcast example_waiting example_mutexes ''c'' = Inr (Inr [2, 3], cm', mm') \<and>
     waiters cm' ''c'' = [] \<and> lt_blocked (manager_table mm') 3 = Some ''m''"
proof -
  have "waiters_ok example_waiting example_mutexes"
    by (auto simp: waiters_ok_def example_waiting_waiters example_mutexes_ok(2))
  then show ?thesis
    using CondManager_no_lost_wakeup [OF example_mutexes_ok(1), where cm = example_waiting and c = "''c''"
        and h = two_events and p = "Prefix [] Map.empty []"]
    by (auto simp: example_waiting_waiters example_not_blocked)
qed

end
