(* ===== verification/Barrier_Manager.thy ===== *)
theory Barrier_Manager
  imports Lock_Spec
begin

text \<open>
  \<^verbatim>\<open>src/lib/Core/Barrier.cpp\<close>, \<^verbatim>\<open>BarrierInfo.cpp\<close> and \<^verbatim>\<open>BarrierManager.cpp\<close>. The counters are
  32-bit and wrap. A \<open>Barrier*\<close> never leaves the manager's pool, so the pool holds the objects.

  A barrier of \<open>n\<close> is shown to release its threads exactly at each \<open>n\<close>-th arrival, all \<open>n\<close> of them
  and in order.
\<close>

section \<open>\<open>Barrier\<close> and \<open>BarrierInfo\<close>\<close>

record barrier =
  br_name :: string
  br_blockedList :: "uint list"
  br_count :: uint
  br_current :: uint

definition DEFAULTCOUNT :: uint where
  "DEFAULTCOUNT = 0x7fffffff"

definition Barrier :: "string \<Rightarrow> uint \<Rightarrow> barrier" where
  "Barrier n cnt = \<lparr>br_name = n, br_blockedList = [], br_count = cnt, br_current = 0\<rparr>"

definition Barrier_wait :: "barrier \<Rightarrow> uint \<Rightarrow> barrier" where
  "Barrier_wait b threadId =
     b\<lparr>br_current := br_current b + 1, br_blockedList := br_blockedList b @ [threadId]\<rparr>"

definition Barrier_reset :: "barrier \<Rightarrow> barrier" where
  "Barrier_reset b = b\<lparr>br_current := 0, br_blockedList := []\<rparr>"

definition Barrier_isFull :: "barrier \<Rightarrow> bool" where
  "Barrier_isFull b \<longleftrightarrow> br_current b = br_count b"

definition Barrier_setCount :: "barrier \<Rightarrow> uint \<Rightarrow> barrier" where
  "Barrier_setCount b cnt = b\<lparr>br_count := cnt\<rparr>"

definition Barrier_getBlockedList :: "barrier \<Rightarrow> uint list" where
  "Barrier_getBlockedList b = br_blockedList b"

record barrier_info =
  bi_count :: uint
  bi_current :: uint
  bi_releasedCount :: uint

definition BarrierInfo :: barrier_info where
  "BarrierInfo = \<lparr>bi_count = 0x7fffffff, bi_current = 0, bi_releasedCount = 0\<rparr>"

definition addWaitItem :: "barrier_info \<Rightarrow> bool \<times> barrier_info" where
  "addWaitItem b =
     (let b' = b\<lparr>bi_current := bi_current b + 1\<rparr> in (bi_current b' = bi_count b', b'))"

definition addReleaseItem :: "barrier_info \<Rightarrow> barrier_info" where
  "addReleaseItem b = b\<lparr>bi_current := 0, bi_releasedCount := bi_releasedCount b + 1\<rparr>"


section \<open>\<open>BarrierManager\<close>\<close>

type_synonym barrier_manager = "string \<rightharpoonup> barrier"

definition addBarrier :: "barrier_manager \<Rightarrow> string \<Rightarrow> unit answer \<times> barrier_manager" where
  "addBarrier bm n =
     (case bm n of
        Some _ \<Rightarrow> (Inl (''redefinition of barrier '' @ n), bm)
      | None \<Rightarrow> (Inr (), map_insert n (Barrier n DEFAULTCOUNT) bm))"

definition getBarrier :: "barrier_manager \<Rightarrow> string \<Rightarrow> barrier option" where
  "getBarrier bm n = bm n"

definition barrier_init :: "barrier_manager \<Rightarrow> string \<Rightarrow> uint \<Rightarrow> unit answer \<times> barrier_manager" where
  "barrier_init bm n cnt =
     (case getBarrier bm n of
        None \<Rightarrow> (Inl (''barrier '' @ n @ '' undefined''), bm)
      | Some b \<Rightarrow> (Inr (), bm(n \<mapsto> Barrier_setCount b cnt)))"

text \<open>
  The answer of \<open>wait\<close> is \<open>Some\<close> of the released threads when \<open>isReleased\<close> is set, and \<open>None\<close> when it
  is not.
\<close>

definition barrier_wait ::
  "barrier_manager \<Rightarrow> string \<Rightarrow> uint \<Rightarrow> uint list option answer \<times> barrier_manager" where
  "barrier_wait bm n threadId =
     (case getBarrier bm n of
        None \<Rightarrow> (Inl (''barrier '' @ n @ '' undefined''), bm)
      | Some b \<Rightarrow>
          let b' = Barrier_wait b threadId
          in if Barrier_isFull b'
             then (Inr (Some (Barrier_getBlockedList b')), bm(n \<mapsto> Barrier_reset b'))
             else (Inr None, bm(n \<mapsto> b')))"

definition barrier_clear :: "barrier_manager \<Rightarrow> barrier_manager" where
  "barrier_clear bm = Map.empty"


section \<open>Rounds of a barrier\<close>

lemmas barrier_defs = Barrier_wait_def Barrier_reset_def Barrier_isFull_def Barrier_setCount_def
  Barrier_getBlockedList_def

text \<open>The counter is the number of blocked threads, below the count unless the count is \<open>0\<close>.\<close>

definition barrier_ok :: "barrier \<Rightarrow> bool" where
  "barrier_ok b \<longleftrightarrow>
     br_current b = of_nat (length (br_blockedList b)) \<and>
     (br_count b = 0 \<or> length (br_blockedList b) < unat (br_count b))"

lemma barrier_ok_new: "barrier_ok (Barrier n cnt)"
  by (simp add: barrier_ok_def Barrier_def unat_gt_0)

lemma barrier_ok_reset: "barrier_ok (Barrier_reset b)"
  by (simp add: barrier_ok_def Barrier_reset_def unat_gt_0)

lemma barrier_full_iff:
  assumes "barrier_ok b" and "br_count b \<noteq> 0"
  shows "Barrier_isFull (Barrier_wait b t) \<longleftrightarrow> Suc (length (br_blockedList b)) = unat (br_count b)"
proof -
  from assms have lt: "Suc (length (br_blockedList b)) \<le> unat (br_count b)" by (auto simp: barrier_ok_def)
  also have "\<dots> < 2 ^ 32" using unsigned_less [of "br_count b"] by simp
  finally have "unat (of_nat (Suc (length (br_blockedList b))) :: uint) = Suc (length (br_blockedList b))"
    by (simp add: unat_of_nat del: of_nat_Suc)
  moreover from assms(1) have "br_current b + 1 = of_nat (Suc (length (br_blockedList b)))"
    by (simp add: barrier_ok_def add.commute)
  ultimately show ?thesis
    by (simp add: barrier_defs word_unat_eq_iff del: of_nat_Suc)
qed

lemma barrier_wait_ok:
  assumes "bm n = Some b" and "barrier_ok b" and "br_count b \<noteq> 0"
  shows "\<exists>b'. barrier_wait bm n t =
      (Inr (if Suc (length (br_blockedList b)) = unat (br_count b) then Some (br_blockedList b @ [t]) else None),
       bm(n \<mapsto> b')) \<and> barrier_ok b' \<and> br_count b' = br_count b \<and>
      br_blockedList b' =
        (if Suc (length (br_blockedList b)) = unat (br_count b) then [] else br_blockedList b @ [t])"
proof (cases "Suc (length (br_blockedList b)) = unat (br_count b)")
  case True
  with barrier_full_iff [OF assms(2,3), of t] assms(1) show ?thesis
    by (auto simp: barrier_wait_def getBarrier_def Let_def barrier_ok_reset
        intro!: exI [of _ "Barrier_reset (Barrier_wait b t)"])
       (auto simp: barrier_defs)
next
  case False
  with assms(2,3) have "barrier_ok (Barrier_wait b t)"
    by (auto simp: barrier_ok_def Barrier_wait_def add.commute)
  with False barrier_full_iff [OF assms(2,3), of t] assms(1) show ?thesis
    by (auto simp: barrier_wait_def getBarrier_def Let_def intro!: exI [of _ "Barrier_wait b t"])
       (auto simp: Barrier_wait_def)
qed

text \<open>The answers to a sequence of arrivals.\<close>

fun arrivals :: "barrier_manager \<Rightarrow> string \<Rightarrow> uint list \<Rightarrow> uint list option answer list" where
  "arrivals bm n [] = []"
| "arrivals bm n (t # ts) = (case barrier_wait bm n t of (r, bm') \<Rightarrow> r # arrivals bm' n ts)"

text \<open>
  The answer to arrival \<open>j\<close> at a barrier of \<open>k\<close>: at the end of a round, the \<open>k\<close> threads of that round.
\<close>

definition round_answer :: "nat \<Rightarrow> uint list \<Rightarrow> nat \<Rightarrow> uint list option" where
  "round_answer k ts j = (if Suc j mod k = 0 then Some (take k (drop (Suc j - k) ts)) else None)"

lemma round_answer_next:
  assumes "Suc (length l) = k"
  shows "round_answer k (l @ t # ts) (length l + Suc i) = round_answer k ts i"
proof -
  have arr: "Suc (length l + Suc i) = k + Suc i" using assms by simp
  have le: "k \<le> Suc i" if "Suc i mod k = 0" using that by (auto dest: dvd_imp_le)
  have "drop (Suc i) (l @ t # ts) = drop (Suc i - k) ts" if "k \<le> Suc i"
    using that assms by (auto simp: Suc_diff_le)
  moreover have "(k + Suc i) mod k = Suc i mod k" by (rule mod_add_self1)
  moreover have "k + Suc i - k = Suc i" by simp
  ultimately show ?thesis unfolding round_answer_def arr using le by (simp del: add_Suc_right)
qed

lemma arrivals_answers:
  assumes "bm n = Some b" and "barrier_ok b" and "unat (br_count b) = k" and "0 < k"
  shows "arrivals bm n ts =
    map (\<lambda>i. Inr (round_answer k (br_blockedList b @ ts) (length (br_blockedList b) + i))) [0..<length ts]"
  using assms
proof (induction ts arbitrary: bm b)
  case Nil
  then show ?case by simp
next
  case (Cons t ts)
  let ?l = "br_blockedList b"
  from Cons.prems have nz: "br_count b \<noteq> 0" by auto
  from Cons.prems nz have len: "length ?l < k" by (auto simp: barrier_ok_def)
  obtain b' where b': "barrier_wait bm n t =
      (Inr (if Suc (length ?l) = k then Some (?l @ [t]) else None), bm(n \<mapsto> b'))" "barrier_ok b'"
      "br_count b' = br_count b" "br_blockedList b' = (if Suc (length ?l) = k then [] else ?l @ [t])"
    using barrier_wait_ok [of bm n b, OF Cons.prems(1,2) nz, of t] Cons.prems(3) by auto
  have shift: "map f [0..<Suc m] = f 0 # map (\<lambda>i. f (Suc i)) [0..<m]"
    for f :: "nat \<Rightarrow> uint list option answer" and m
    by (simp add: upt_conv_Cons map_Suc_upt [symmetric] comp_def del: upt_Suc)
  have first: "round_answer k (?l @ t # ts) (length ?l) = (if Suc (length ?l) = k then Some (?l @ [t]) else None)"
    using len by (auto simp: round_answer_def)
  have IH: "arrivals (bm(n \<mapsto> b')) n ts =
      map (\<lambda>i. Inr (round_answer k (br_blockedList b' @ ts) (length (br_blockedList b') + i))) [0..<length ts]"
    using b' Cons.prems by (intro Cons.IH) simp_all
  show ?case
  proof (cases "Suc (length ?l) = k")
    case True
    with IH b'(1,4) first round_answer_next [OF True] show ?thesis by (simp add: shift del: upt_Suc fun_upd_apply)
  next
    case False
    with IH b'(1,4) first show ?thesis by (simp add: shift del: upt_Suc fun_upd_apply)
  qed
qed


section \<open>Properties\<close>

text \<open>
  (C18) A barrier initialised to \<open>k\<close> works in rounds: of any sequence of arrivals the first \<open>k - 1\<close> of
  each round block, and the last one releases the \<open>k\<close> threads of its round, in order of arrival.
\<close>

theorem BarrierManager_rounds:
  assumes "bm n = None" and "cnt \<noteq> 0" and "addBarrier bm n = (r, bm1)" and "barrier_init bm1 n cnt = (r', bm2)"
  shows "arrivals bm2 n ts = map (\<lambda>i. Inr (round_answer (unat cnt) ts i)) [0..<length ts]"
proof -
  from assms have bm2: "bm2 n = Some (Barrier n cnt)"
    by (auto simp: addBarrier_def barrier_init_def getBarrier_def map_insert_def Barrier_setCount_def Barrier_def)
  have "0 < unat cnt" using assms(2) by (simp add: unat_gt_0)
  with arrivals_answers [of bm2 n, OF bm2 barrier_ok_new] show ?thesis by (simp add: Barrier_def)
qed

definition example_barrier :: barrier_manager where
  "example_barrier = snd (barrier_init (snd (addBarrier Map.empty ''b'')) ''b'' 2)"

theorem BarrierManager_rounds_witness:
  "arrivals example_barrier ''b'' [4, 5, 6] = [Inr None, Inr (Some [4, 5]), Inr None]"
proof -
  have "[0..<3] = [0, 1, 2 :: nat]" by (simp add: upt_rec)
  then show ?thesis
    using BarrierManager_rounds [of Map.empty "''b''" 2 "fst (addBarrier Map.empty ''b'')"
        "snd (addBarrier Map.empty ''b'')" "fst (barrier_init (snd (addBarrier Map.empty ''b'')) ''b'' 2)"
        example_barrier "[4, 5, 6]"]
    by (simp add: example_barrier_def round_answer_def)
qed



end
