(* ===== verification/Pthread_Runtime.thy ===== *)
theory Pthread_Runtime
  imports Thread_List Cond_Manager Barrier_Manager
begin

text \<open>
  The multithreaded part of \<^verbatim>\<open>src/lib/Core/Executor.cpp\<close>: the handlers of the pthread calls, the
  end of a thread, the choice of the thread that runs next and the loop around them. The
  executor's state is what these functions use of it: the threads, the three managers, the
  record of joins, the prefix it replays, the counter of thread ids and the status. An argument
  of a call is \<open>Some\<close> of its value when it is a \<open>ConstantExpr\<close> and \<open>None\<close> otherwise. The contents of the
  program's memory, the argument registers and the listeners are not part of this state.
\<close>

section \<open>The state\<close>

datatype exec_status = SUCCESS | IGNOREDERROR | RUNTIMEERROR

record runtime =
  rt_state :: exec_state
  rt_mutexes :: mutex_manager
  rt_conds :: cond_manager
  rt_barriers :: barrier_manager
  rt_joinRecord :: "uint \<rightharpoonup> uint list"
  rt_prefix :: "prefix option"
  rt_nextThreadId :: uint
  rt_execStatus :: exec_status

text \<open>The schedulers that follow a prefix hold a pointer to the executor's; without one it is not read.\<close>

definition the_prefix :: "runtime \<Rightarrow> prefix" where
  "the_prefix rt = (case rt_prefix rt of None \<Rightarrow> Prefix [] Map.empty [] | Some p \<Rightarrow> p)"

definition replaying :: "runtime \<Rightarrow> bool" where
  "replaying rt \<longleftrightarrow> (case rt_prefix rt of None \<Rightarrow> False | Some p \<Rightarrow> \<not> isFinished p)"

definition current_id :: "runtime \<Rightarrow> uint outcome" where
  "current_id rt =
     (case es_currentThread (rt_state rt) of None \<Rightarrow> Inl (Undefined ''currentThread'') | Some t \<Rightarrow> Inr t)"

definition on_state :: "(exec_state \<Rightarrow> exec_state outcome) \<Rightarrow> runtime \<Rightarrow> runtime outcome" where
  "on_state f rt = bind_outcome (f (rt_state rt)) (\<lambda>st. Inr (rt\<lparr>rt_state := st\<rparr>))"

definition set_thread :: "uint \<Rightarrow> (thread \<Rightarrow> thread) \<Rightarrow> exec_state \<Rightarrow> exec_state outcome" where
  "set_thread t f st =
     bind_outcome (update_thread (es_threadList st) t f) (\<lambda>l. Inr (st\<lparr>es_threadList := l\<rparr>))"

text \<open>\<open>getCurrentThread()\<close>, followed by a use of the pointer.\<close>

definition ask_current :: "event_heap \<Rightarrow> runtime \<Rightarrow> (uint \<times> runtime) outcome" where
  "ask_current h rt =
     bind_outcome (getCurrentThread h (the_prefix rt) (rt_state rt))
       (\<lambda>(t, st). case t of
                    None \<Rightarrow> Inl (Undefined ''Thread*'')
                  | Some t \<Rightarrow> Inr (t, rt\<lparr>rt_state := st\<rparr>))"


section \<open>Vector clocks\<close>

text \<open>The loop that raises the entries of a clock to those of another, for the first \<open>n\<close> entries.\<close>

definition raise_entry :: "uint list \<Rightarrow> nat \<Rightarrow> uint list \<Rightarrow> uint list outcome" where
  "raise_entry src i dst =
     bind_outcome (at_index dst i)
       (\<lambda>d. bind_outcome (at_index src i) (\<lambda>s. if d < s then set_index dst i s else Inr dst))"

definition merge_clock :: "nat \<Rightarrow> uint list \<Rightarrow> uint list \<Rightarrow> uint list outcome" where
  "merge_clock n src dst = fold_outcome (raise_entry src) [0..<n] dst"

definition copy_clock :: "uint list \<Rightarrow> uint list \<Rightarrow> uint list outcome" where
  "copy_clock src dst =
     fold_outcome (\<lambda>i d. bind_outcome (at_index src i) (set_index d i)) [0..<length src] dst"

definition bump_clock :: "uint \<Rightarrow> uint list \<Rightarrow> uint list outcome" where
  "bump_clock t vc = bind_outcome (at_index vc (unat t)) (\<lambda>n. set_index vc (unat t) (n + 1))"

definition clock_of :: "exec_state \<Rightarrow> uint \<Rightarrow> uint list outcome" where
  "clock_of st t = bind_outcome (findThreadById (es_threadList st) t) (\<lambda>th. Inr (th_vectorClock th))"

definition put_clock :: "uint \<Rightarrow> uint list \<Rightarrow> exec_state \<Rightarrow> exec_state outcome" where
  "put_clock t vc = set_thread t (\<lambda>th. th\<lparr>th_vectorClock := vc\<rparr>)"

text \<open>
  Thread \<open>t\<close> learns the clock of \<open>s\<close>; the loop runs over the entries of the one or of the other.
\<close>

definition learn_clock :: "bool \<Rightarrow> uint \<Rightarrow> uint \<Rightarrow> exec_state \<Rightarrow> exec_state outcome" where
  "learn_clock bySource s t st =
     bind_outcome (clock_of st s)
       (\<lambda>src. bind_outcome (clock_of st t)
          (\<lambda>dst. bind_outcome (merge_clock (if bySource then length src else length dst) src dst)
             (\<lambda>vc. put_clock t vc st)))"

definition tick :: "uint \<Rightarrow> exec_state \<Rightarrow> exec_state outcome" where
  "tick t st =
     bind_outcome (clock_of st t) (\<lambda>vc. bind_outcome (bump_clock t vc) (\<lambda>vc. put_clock t vc st))"


section \<open>The handlers\<close>

definition executePThreadCreate :: "event_heap \<Rightarrow> kfunction \<Rightarrow> runtime \<Rightarrow> runtime outcome" where
  "executePThreadCreate h kf rt =
     bind_outcome
       (if replaying rt
        then bind_outcome (getNextThreadId (the_prefix rt))
               (\<lambda>t. createThread_id (rt_state rt) (rt_nextThreadId rt) kf (ucast t))
        else createThread (rt_state rt) (rt_nextThreadId rt) kf)
       (\<lambda>(new, st, next).
          bind_outcome (ask_current h (rt\<lparr>rt_state := st, rt_nextThreadId := next\<rparr>))
            (\<lambda>(t, rt).
               bind_outcome (clock_of (rt_state rt) t)
                 (\<lambda>src. bind_outcome (clock_of (rt_state rt) new)
                    (\<lambda>dst. bind_outcome (copy_clock src dst)
                       (\<lambda>vc. bind_outcome (bump_clock new vc) (\<lambda>vc. on_state (put_clock new vc) rt))))))"

definition executePThreadJoin :: "u64 option \<Rightarrow> runtime \<Rightarrow> runtime outcome" where
  "executePThreadJoin arg rt =
     (case arg of
        None \<Rightarrow> Inl (Undefined ''threadIdExpr'')
      | Some v \<Rightarrow>
          let threadId = ucast v :: uint
          in bind_outcome (findThreadById (es_threadList (rt_state rt)) threadId)
               (\<lambda>joinThread.
                  if \<not> isTerminated joinThread
                  then bind_outcome (current_id rt)
                         (\<lambda>cur. let waiting = (case rt_joinRecord rt threadId of None \<Rightarrow> [] | Some ws \<Rightarrow> ws)
                                in on_state (\<lambda>st. swapOutThread st cur False False True False)
                                     (rt\<lparr>rt_joinRecord := (rt_joinRecord rt)(threadId \<mapsto> waiting @ [cur])\<rparr>))
                  else Inr rt))"

definition executePThreadCondWait :: "u64 option \<Rightarrow> u64 option \<Rightarrow> runtime \<Rightarrow> runtime outcome" where
  "executePThreadCondWait condAddress mutexAddress rt =
     (case mutexAddress of
        None \<Rightarrow> Inl (Assertion ''mutex address is not const'')
      | Some m \<Rightarrow>
          (case condAddress of
             None \<Rightarrow> Inl (Assertion ''cond address is not const'')
           | Some c \<Rightarrow>
               bind_outcome (current_id rt)
                 (\<lambda>cur. bind_outcome
                    (cond_wait (rt_conds rt) (rt_mutexes rt) (uint64toString c) (uint64toString m) cur)
                    (\<lambda>(r, cm, mm).
                       case r of
                         Inl _ \<Rightarrow> Inl (Assertion ''wait error'')
                       | Inr _ \<Rightarrow> on_state (\<lambda>st. swapOutThread st cur True False False False)
                                     (rt\<lparr>rt_conds := cm, rt_mutexes := mm\<rparr>)))))"

text \<open>What a released waiter goes through: it is scheduled again, still without its mutex.\<close>

definition release_waiter :: "event_heap \<Rightarrow> uint \<Rightarrow> runtime \<Rightarrow> runtime outcome" where
  "release_waiter h t rt =
     bind_outcome (on_state (\<lambda>st. swapInThread_id st t False True) rt)
       (\<lambda>rt. bind_outcome (ask_current h rt)
          (\<lambda>(cur, rt). bind_outcome (on_state (learn_clock False cur t) rt) (on_state (tick cur))))"

definition executePThreadCondSignal :: "event_heap \<Rightarrow> u64 option \<Rightarrow> runtime \<Rightarrow> runtime outcome" where
  "executePThreadCondSignal h condAddress rt =
     (case condAddress of
        None \<Rightarrow> Inl (Assertion ''cond address is not const'')
      | Some c \<Rightarrow>
          bind_outcome (cond_signal h (the_prefix rt) (rt_conds rt) (rt_mutexes rt) (uint64toString c))
            (\<lambda>(r, cm, mm).
               case r of
                 Inl _ \<Rightarrow> Inl (Assertion ''signal failed'')
               | Inr released \<Rightarrow>
                   let rt = rt\<lparr>rt_conds := cm, rt_mutexes := mm\<rparr>
                   in if released \<noteq> 0 then release_waiter h released rt else Inr rt))"

definition executePThreadCondBroadcast :: "event_heap \<Rightarrow> u64 option \<Rightarrow> runtime \<Rightarrow> runtime outcome" where
  "executePThreadCondBroadcast h condAddress rt =
     (case condAddress of
        None \<Rightarrow> Inl (Assertion ''cond address is not const'')
      | Some c \<Rightarrow>
          bind_outcome (cond_broadcast (rt_conds rt) (rt_mutexes rt) (uint64toString c))
            (\<lambda>(r, cm, mm).
               case r of
                 Inl _ \<Rightarrow> Inl (Assertion ''broadcast failed'')
               | Inr threadList \<Rightarrow>
                   fold_outcome (release_waiter h) threadList (rt\<lparr>rt_conds := cm, rt_mutexes := mm\<rparr>)))"

definition executePThreadMutexLock :: "u64 option \<Rightarrow> runtime \<Rightarrow> runtime outcome" where
  "executePThreadMutexLock mutexAddress rt =
     (case mutexAddress of
        None \<Rightarrow> Inl (Assertion ''mutex address is not const'')
      | Some m \<Rightarrow>
          bind_outcome (current_id rt)
            (\<lambda>cur. bind_outcome (manager_lock (rt_mutexes rt) (uint64toString m) cur)
               (\<lambda>(r, mm).
                  case r of
                    Inl _ \<Rightarrow> Inl (Assertion ''lock error!'')
                  | Inr isBlocked \<Rightarrow>
                      let rt = rt\<lparr>rt_mutexes := mm\<rparr>
                      in if isBlocked then on_state (\<lambda>st. switchThreadToMutexBlocked st cur) rt else Inr rt)))"

definition executePThreadMutexUnlock :: "u64 option \<Rightarrow> runtime \<Rightarrow> runtime outcome" where
  "executePThreadMutexUnlock mutexAddress rt =
     (case mutexAddress of
        None \<Rightarrow> Inl (Assertion ''mutex address is not const'')
      | Some m \<Rightarrow>
          bind_outcome (manager_unlock (rt_mutexes rt) (uint64toString m))
            (\<lambda>(r, mm).
               case r of
                 Inl _ \<Rightarrow> Inl (Assertion ''unlock error'')
               | Inr _ \<Rightarrow> Inr (rt\<lparr>rt_mutexes := mm\<rparr>)))"

definition executePThreadBarrierInit :: "u64 option \<Rightarrow> u64 option \<Rightarrow> runtime \<Rightarrow> runtime outcome" where
  "executePThreadBarrierInit barrierAddress cnt rt =
     (case barrierAddress of
        None \<Rightarrow> Inl (Assertion ''barrier address is not const'')
      | Some b \<Rightarrow>
          (case cnt of
             None \<Rightarrow> Inl (Assertion ''count is not const'')
           | Some n \<Rightarrow>
               (case barrier_init (rt_barriers rt) (uint64toString b) (ucast n) of
                  (Inl _, _) \<Rightarrow> Inl (Assertion ''barrier init error'')
                | (Inr _, bm) \<Rightarrow> Inr (rt\<lparr>rt_barriers := bm\<rparr>))))"

text \<open>The assertion on the error path tests a string literal, which is never null.\<close>

definition wake_other :: "uint \<Rightarrow> uint \<Rightarrow> runtime \<Rightarrow> runtime outcome" where
  "wake_other cur t rt =
     (if t \<noteq> cur then on_state (\<lambda>st. swapInThread_id st t True False) rt else Inr rt)"

definition executePThreadBarrierWait :: "u64 option \<Rightarrow> runtime \<Rightarrow> runtime outcome" where
  "executePThreadBarrierWait barrierAddress rt =
     (case barrierAddress of
        None \<Rightarrow> Inl (Assertion ''barrier address is not const'')
      | Some b \<Rightarrow>
          bind_outcome (current_id rt)
            (\<lambda>cur. let (r, bm) = barrier_wait (rt_barriers rt) (uint64toString b) cur;
                       rt = rt\<lparr>rt_barriers := bm\<rparr>
                   in case r of
                        Inl _ \<Rightarrow> Inr rt
                      | Inr (Some blockedList) \<Rightarrow> fold_outcome (wake_other cur) blockedList rt
                      | Inr None \<Rightarrow> on_state (\<lambda>st. swapOutThread st cur False True False False) rt))"

definition executePThreadBarrierDestory :: "runtime \<Rightarrow> runtime outcome" where
  "executePThreadBarrierDestory rt = Inr rt"

text \<open>
  \<open>Ret\<close>: in the initial frame the thread ends, which wakes the threads that joined it; in any
  other frame control returns behind the call. The value returned is not modelled.
\<close>

definition wake_joiner :: "uint \<Rightarrow> uint \<Rightarrow> runtime \<Rightarrow> runtime outcome" where
  "wake_joiner finished t rt =
     bind_outcome (on_state (\<lambda>st. swapInThread_id st t True False) rt)
       (on_state (learn_clock True finished t))"

definition execute_Ret :: "runtime \<Rightarrow> runtime outcome" where
  "execute_Ret rt =
     bind_outcome (current_id rt)
       (\<lambda>cur. bind_outcome (findThreadById (es_threadList (rt_state rt)) cur)
          (\<lambda>th. bind_outcome (back_of (th_stack th))
             (\<lambda>sf. if length (th_stack th) \<le> 1
                   then bind_outcome (assert_that (sf_caller sf = None) ''caller set on initial stack frame'')
                          (\<lambda>_. bind_outcome
                             (fold_outcome (wake_joiner cur)
                                (case rt_joinRecord rt cur of None \<Rightarrow> [] | Some ws \<Rightarrow> ws) rt)
                             (on_state (\<lambda>st. swapOutThread st cur False False False True)))
                   else (case sf_caller sf of
                           None \<Rightarrow> Inl (Undefined ''kcaller'')
                         | Some k \<Rightarrow>
                             on_state (set_thread cur
                               (\<lambda>th. th\<lparr>th_stack := butlast (th_stack th), th_pc := Suc k\<rparr>)) rt))))"


section \<open>Choosing the thread that runs\<close>

definition state_of :: "runtime \<Rightarrow> uint \<Rightarrow> ThreadState outcome" where
  "state_of rt t =
     bind_outcome (findThreadById (es_threadList (rt_state rt)) t) (\<lambda>th. Inr (th_threadState th))"

definition next_thread :: "event_heap \<Rightarrow> runtime \<Rightarrow> (uint \<times> runtime) outcome" where
  "next_thread h rt =
     bind_outcome (getNextThread h (the_prefix rt) (rt_state rt))
       (\<lambda>(t, st). case t of
                    None \<Rightarrow> Inl (Undefined ''Thread*'')
                  | Some t \<Rightarrow> Inr (t, rt\<lparr>rt_state := st\<rparr>))"

text \<open>
  The loop entered when the chosen thread waits for a mutex: the thread tries to take it, and
  when it cannot, another thread is chosen. The result says whether a thread is able to run. The
  flag \<open>deadlock\<close> is declared in the body of the loop, so it is \<open>False\<close> whenever it is read. \<open>None\<close> means
  that the loop has not ended after as many rounds as the first argument says.
\<close>

fun lock_loop :: "nat \<Rightarrow> event_heap \<Rightarrow> uint \<Rightarrow> uint \<Rightarrow> runtime \<Rightarrow> (bool \<times> uint \<times> runtime) outcome option" where
  "lock_loop 0 h origin t rt = None"
| "lock_loop (Suc n) h origin t rt =
     (let deadlock = False
      in case tryToLockForBlockedThread (rt_mutexes rt) t of
           Inl e \<Rightarrow> Some (Inl e)
         | Inr (Inl _, mm) \<Rightarrow> Some (Inl (Assertion ''try to get lock but failed''))
         | Inr (Inr isBlocked, mm) \<Rightarrow>
             let rt = rt\<lparr>rt_mutexes := mm\<rparr>
             in if isBlocked
                then if replaying rt then Some (Inr (False, t, rt))
                     else (case bind_outcome (on_state ExecutionState_reSchedule rt) (next_thread h) of
                             Inl e \<Rightarrow> Some (Inl e)
                           | Inr (t', rt') \<Rightarrow>
                               if t' = origin \<and> deadlock then Some (Inr (False, t', rt'))
                               else (case state_of rt' t' of
                                       Inl e \<Rightarrow> Some (Inl e)
                                     | Inr s \<Rightarrow> if s = RUNNABLE then Some (Inr (True, t', rt'))
                                                else lock_loop n h origin t' rt'))
                else (case on_state (\<lambda>st. switchThreadToRunnable st t) rt of
                        Inl e \<Rightarrow> Some (Inl e)
                      | Inr rt' \<Rightarrow> Some (Inr (True, t, rt'))))"

definition select_thread :: "nat \<Rightarrow> event_heap \<Rightarrow> runtime \<Rightarrow> (bool \<times> uint \<times> runtime) outcome option" where
  "select_thread fuel h rt =
     (case next_thread h rt of
        Inl e \<Rightarrow> Some (Inl e)
      | Inr (t, rt) \<Rightarrow>
          (case state_of rt t of
             Inl e \<Rightarrow> Some (Inl e)
           | Inr s \<Rightarrow>
               if s = RUNNABLE then Some (Inr (True, t, rt))
               else if s = MUTEX_BLOCKED then lock_loop fuel h t t rt
               else Some (Inr (False, t, rt))))"


section \<open>One round of the interpreter\<close>

text \<open>
  The effects an instruction can have on this state: a pthread call, a return, or the creation
  of the synchronisation objects of an allocation; every other instruction leaves it alone.
\<close>

datatype action =
    Create kfunction
  | Join "u64 option"
  | CondWait "u64 option" "u64 option"
  | CondSignal "u64 option"
  | CondBroadcast "u64 option"
  | MutexLock "u64 option"
  | MutexUnlock "u64 option"
  | BarrierInit "u64 option" "u64 option"
  | BarrierWait "u64 option"
  | BarrierDestory
  | Return
  | Define_mutex string
  | Define_cond string
  | Define_barrier string
  | Other

definition add_cond :: "runtime \<Rightarrow> string \<Rightarrow> runtime outcome" where
  "add_cond rt n =
     bind_outcome (if Option.is_none (rt_prefix rt) then addCondition (rt_conds rt) n else addCondition_guided (rt_conds rt) n)
       (\<lambda>(_, cm). Inr (rt\<lparr>rt_conds := cm\<rparr>))"

fun executeInstruction :: "event_heap \<Rightarrow> action \<Rightarrow> runtime \<Rightarrow> runtime outcome" where
  "executeInstruction h (Create kf) rt = executePThreadCreate h kf rt"
| "executeInstruction h (Join a) rt = executePThreadJoin a rt"
| "executeInstruction h (CondWait c m) rt = executePThreadCondWait c m rt"
| "executeInstruction h (CondSignal c) rt = executePThreadCondSignal h c rt"
| "executeInstruction h (CondBroadcast c) rt = executePThreadCondBroadcast h c rt"
| "executeInstruction h (MutexLock m) rt = executePThreadMutexLock m rt"
| "executeInstruction h (MutexUnlock m) rt = executePThreadMutexUnlock m rt"
| "executeInstruction h (BarrierInit b n) rt = executePThreadBarrierInit b n rt"
| "executeInstruction h (BarrierWait b) rt = executePThreadBarrierWait b rt"
| "executeInstruction h BarrierDestory rt = executePThreadBarrierDestory rt"
| "executeInstruction h Return rt = execute_Ret rt"
| "executeInstruction h (Define_mutex n) rt = Inr (rt\<lparr>rt_mutexes := snd (addMutex (rt_mutexes rt) n)\<rparr>)"
| "executeInstruction h (Define_cond n) rt = add_cond rt n"
| "executeInstruction h (Define_barrier n) rt = Inr (rt\<lparr>rt_barriers := snd (addBarrier (rt_barriers rt) n)\<rparr>)"
| "executeInstruction h Other rt = Inr rt"

definition stepInstruction :: "runtime \<Rightarrow> runtime outcome" where
  "stepInstruction rt =
     bind_outcome (current_id rt)
       (\<lambda>t. on_state (set_thread t (\<lambda>th. th\<lparr>th_prevPC := th_pc th, th_pc := Suc (th_pc th)\<rparr>)) rt)"

text \<open>The round stops the run, or leaves a state to go on from.\<close>

datatype round = Stop runtime | Continue runtime

text \<open>The program's effect at an instruction is the argument \<open>program\<close>.\<close>

definition finish_round :: "runtime \<Rightarrow> round outcome" where
  "finish_round rt =
     (let rt = rt\<lparr>rt_prefix := map_option increase (rt_prefix rt)\<rparr>
      in if rt_execStatus rt \<noteq> SUCCESS then Inr (Stop rt)
         else if Thread_isSchedulerEmpty (es_threadScheduler (rt_state rt))
         then bind_outcome (examineAllThreadFinalState (rt_state rt))
                (\<lambda>b. Inr (Stop (rt\<lparr>rt_execStatus := (if b then SUCCESS else RUNTIMEERROR)\<rparr>)))
         else Inr (Continue rt))"

definition run_chosen :: "event_heap \<Rightarrow> (kinst \<Rightarrow> runtime \<Rightarrow> action) \<Rightarrow> uint \<Rightarrow> runtime \<Rightarrow> round outcome" where
  "run_chosen h program t rt =
     bind_outcome (findThreadById (es_threadList (rt_state rt)) t)
       (\<lambda>th. let ki = th_pc th
             in bind_outcome (if replaying rt
                              then bind_outcome (getCurrentInst h (the_prefix rt)) (\<lambda>i. Inr (ki \<noteq> i))
                              else Inr False)
                  (\<lambda>unmatched.
                     if unmatched then Inr (Stop (rt\<lparr>rt_execStatus := IGNOREDERROR\<rparr>))
                     else bind_outcome (stepInstruction rt)
                            (\<lambda>rt. bind_outcome (executeInstruction h (program ki rt) rt) finish_round)))"

definition run_round ::
  "nat \<Rightarrow> event_heap \<Rightarrow> (kinst \<Rightarrow> runtime \<Rightarrow> action) \<Rightarrow> runtime \<Rightarrow> round outcome option" where
  "run_round fuel h program rt =
     (case select_thread fuel h rt of
        None \<Rightarrow> None
      | Some (Inl e) \<Rightarrow> Some (Inl e)
      | Some (Inr (able, t, rt)) \<Rightarrow>
          if \<not> able then Some (Inr (Stop (rt\<lparr>rt_execStatus := RUNTIMEERROR\<rparr>)))
          else Some (run_chosen h program t rt))"


section \<open>Between two executions\<close>

definition prepareNextExecution :: "runtime \<Rightarrow> runtime" where
  "prepareNextExecution rt =
     rt\<lparr>rt_mutexes := manager_clear (rt_mutexes rt), rt_conds := cond_clear (rt_conds rt),
        rt_barriers := barrier_clear (rt_barriers rt), rt_joinRecord := Map.empty, rt_nextThreadId := 1\<rparr>"

text \<open>\<open>runFunctionAsMain\<close> builds the initial state, guided when there is a prefix.\<close>

definition start_execution :: "kfunction \<Rightarrow> runtime \<Rightarrow> runtime outcome" where
  "start_execution kf rt =
     bind_outcome
       (if Option.is_none (rt_prefix rt) then new_ExecutionState (rt_nextThreadId rt) kf
        else new_ExecutionState_prefix (rt_nextThreadId rt) kf)
       (\<lambda>(st, next). Inr (rt\<lparr>rt_state := st, rt_nextThreadId := next, rt_execStatus := SUCCESS\<rparr>))"

end
