(* ===== verification/Thread_Consistency.thy ===== *)
theory Thread_Consistency
  imports Thread_List
begin

text \<open>
  The consistency of the runtime's tables, stated over what they hold: the state of each
  thread, the scheduler's queue, the threads that wait for a mutex, and the lists of those that
  wait at a condition, at a barrier or for another thread to end. Each transition a thread can make
  is shown to keep the tables consistent.
\<close>

section \<open>Lists that partition a set\<close>

definition partitioned :: "('k \<Rightarrow> 'a list) \<Rightarrow> 'a set \<Rightarrow> bool" where
  "partitioned f S \<longleftrightarrow>
     (\<forall>k. distinct (f k)) \<and> (\<forall>t j k. t \<in> set (f j) \<longrightarrow> t \<in> set (f k) \<longrightarrow> j = k) \<and>
     (\<forall>t. t \<in> S \<longleftrightarrow> (\<exists>k. t \<in> set (f k)))"

lemma partitioned_member: "partitioned f S \<Longrightarrow> t \<in> set (f k) \<Longrightarrow> t \<in> S"
  by (auto simp: partitioned_def)

lemma partitioned_set: "partitioned f S \<Longrightarrow> S = T \<Longrightarrow> partitioned f T"
  by simp

lemma partitioned_add:
  assumes "partitioned f S" and "t \<notin> S"
  shows "partitioned (f(k := f k @ [t])) (insert t S)"
proof -
  have mem: "u \<in> set ((f(k := f k @ [t])) i) \<longleftrightarrow> u \<in> set (f i) \<or> (i = k \<and> u = t)" for u i by auto
  have fresh: "t \<notin> set (f i)" for i using assms by (auto simp: partitioned_def)
  then have "distinct ((f(k := f k @ [t])) i)" for i using assms(1) by (simp add: partitioned_def)
  moreover have "i = j" if "u \<in> set (f i) \<or> (i = k \<and> u = t)" "u \<in> set (f j) \<or> (j = k \<and> u = t)" for u i j
    using that fresh assms(1) unfolding partitioned_def by blast
  moreover have "u \<in> insert t S \<longleftrightarrow> (\<exists>i. u \<in> set (f i) \<or> (i = k \<and> u = t))" for u
    using assms(1) unfolding partitioned_def by blast
  ultimately show ?thesis unfolding partitioned_def mem by blast
qed

lemma partitioned_take:
  assumes "partitioned f S" and "mset (f k) = add_mset t (mset xs)"
  shows "partitioned (f(k := xs)) (S - {t})"
proof -
  have "distinct (t # xs)"
    using assms mset_eq_imp_distinct_iff [of "f k" "t # xs"] by (simp add: partitioned_def)
  then have t: "t \<notin> set xs" "distinct xs" by auto
  have set: "set (f k) = insert t (set xs)" using assms(2) mset_eq_setD [of "f k" "t # xs"] by simp
  have mem: "u \<in> set ((f(k := xs)) i) \<longleftrightarrow> u \<in> set (f i) \<and> u \<noteq> t" for u i
  proof (cases "i = k")
    case False
    have "t \<notin> set (f i)" using False set assms(1) unfolding partitioned_def by blast
    with False show ?thesis by auto
  qed (use set t in auto)
  have "distinct ((f(k := xs)) i)" for i using assms(1) t by (simp add: partitioned_def)
  with assms(1) show ?thesis unfolding partitioned_def mem by blast
qed

lemma partitioned_head:
  assumes "partitioned (f(k := t # xs)) S"
  shows "partitioned (f(k := xs)) (S - {t})" and "t \<in> S" and "t \<notin> set xs"
proof -
  show "partitioned (f(k := xs)) (S - {t})"
    using partitioned_take [OF assms, of k t xs] by simp
  have "distinct ((f(k := t # xs)) k)" using assms unfolding partitioned_def by blast
  then show "t \<notin> set xs" by simp
  show "t \<in> S" using partitioned_member [of "f(k := t # xs)" S t k] assms by simp
qed


section \<open>Consistency\<close>

definition in_state_set :: "(uint \<rightharpoonup> ThreadState) \<Rightarrow> ThreadState set \<Rightarrow> uint set" where
  "in_state_set ts ss = {t. \<exists>s. ts t = Some s \<and> s \<in> ss}"

lemma in_state_set_iff [simp]: "t \<in> in_state_set ts ss \<longleftrightarrow> (\<exists>s. ts t = Some s \<and> s \<in> ss)"
  by (simp add: in_state_set_def)

text \<open>The record of joins is kept after the thread that was joined has ended; then it says nothing.\<close>

definition live_joins :: "(uint \<rightharpoonup> ThreadState) \<Rightarrow> (uint \<Rightarrow> uint list) \<Rightarrow> uint \<Rightarrow> uint list" where
  "live_joins ts jr k = (if ts k = Some TERMINATED then [] else jr k)"

definition consistent ::
  "(uint \<rightharpoonup> ThreadState) \<Rightarrow> uint list \<Rightarrow> uint set \<Rightarrow> (string \<Rightarrow> uint list) \<Rightarrow> (string \<Rightarrow> uint list) \<Rightarrow>
   (uint \<Rightarrow> uint list) \<Rightarrow> bool" where
  "consistent ts q bl w b jr \<longleftrightarrow>
     distinct q \<and> set q = in_state_set ts {RUNNABLE, MUTEX_BLOCKED} \<and>
     bl = in_state_set ts {MUTEX_BLOCKED} \<and>
     partitioned w (in_state_set ts {COND_BLOCKED}) \<and>
     partitioned b (in_state_set ts {BARRIER_BLOCKED}) \<and>
     partitioned (live_joins ts jr) (in_state_set ts {JOIN_BLOCKED})"

lemma in_state_set_upd:
  "in_state_set (ts(t \<mapsto> s)) ss = (if s \<in> ss then insert t (in_state_set ts ss) else in_state_set ts ss - {t})"
  by (auto simp: in_state_set_def)

lemma live_joins_upd:
  assumes "ts t \<noteq> Some TERMINATED" and "s \<noteq> TERMINATED"
  shows "live_joins (ts(t \<mapsto> s)) jr = live_joins ts jr"
  using assms by (auto simp: live_joins_def fun_eq_iff)

lemmas consistent_simps = consistent_def in_state_set_upd live_joins_upd

lemma not_in_state: "ts t = Some s \<Longrightarrow> s \<notin> ss \<Longrightarrow> in_state_set ts ss - {t} = in_state_set ts ss"
  by auto

lemma consistent_state:
  assumes "consistent ts q bl w b jr"
  shows "t \<in> set q \<longleftrightarrow> ts t = Some RUNNABLE \<or> ts t = Some MUTEX_BLOCKED"
    and "t \<in> bl \<longleftrightarrow> ts t = Some MUTEX_BLOCKED"
    and "t \<in> set (w c) \<Longrightarrow> ts t = Some COND_BLOCKED"
    and "t \<in> set (b n) \<Longrightarrow> ts t = Some BARRIER_BLOCKED"
    and "ts k \<noteq> Some TERMINATED \<Longrightarrow> t \<in> set (jr k) \<Longrightarrow> ts t = Some JOIN_BLOCKED"
proof -
  show "t \<in> set q \<longleftrightarrow> ts t = Some RUNNABLE \<or> ts t = Some MUTEX_BLOCKED"
    "t \<in> bl \<longleftrightarrow> ts t = Some MUTEX_BLOCKED"
    using assms by (auto simp: consistent_def)
  have w: "partitioned w (in_state_set ts {COND_BLOCKED})"
    and b: "partitioned b (in_state_set ts {BARRIER_BLOCKED})"
    and jr: "partitioned (live_joins ts jr) (in_state_set ts {JOIN_BLOCKED})"
    using assms by (simp_all add: consistent_def)
  show "ts t = Some COND_BLOCKED" if "t \<in> set (w c)"
    using partitioned_member [of w _ t c, OF w that] by auto
  show "ts t = Some BARRIER_BLOCKED" if "t \<in> set (b n)"
    using partitioned_member [of b _ t n, OF b that] by auto
  show "ts t = Some JOIN_BLOCKED" if "ts k \<noteq> Some TERMINATED" "t \<in> set (jr k)"
    using partitioned_member [of "live_joins ts jr" _ t k, OF jr] that by (auto simp: live_joins_def)
qed

section \<open>Transitions\<close>

lemma consistent_permute: "consistent ts q bl w b jr \<Longrightarrow> mset q' = mset q \<Longrightarrow> consistent ts q' bl w b jr"
  using mset_eq_setD mset_eq_imp_distinct_iff by (metis (no_types, lifting) consistent_def)

lemma consistent_lock_blocked:
  assumes "consistent ts q bl w b jr" and "ts t = Some RUNNABLE"
  shows "consistent (ts(t \<mapsto> MUTEX_BLOCKED)) q (insert t bl) w b jr"
  using assms by (simp add: consistent_simps not_in_state insert_absorb)

lemma consistent_lock_taken:
  assumes "consistent ts q bl w b jr" and "ts t = Some MUTEX_BLOCKED"
  shows "consistent (ts(t \<mapsto> RUNNABLE)) q (bl - {t}) w b jr"
  using assms by (simp add: consistent_simps not_in_state insert_absorb)

lemma consistent_wait:
  assumes "consistent ts q bl w b jr" and "ts t = Some RUNNABLE"
  shows "consistent (ts(t \<mapsto> COND_BLOCKED)) (remove1 t q) bl (w(c := w c @ [t])) b jr"
  using assms by (simp add: consistent_simps not_in_state partitioned_add)

lemma consistent_released:
  assumes "consistent ts q bl w b jr" and "mset (w c) = add_mset t (mset xs)"
  shows "consistent (ts(t \<mapsto> MUTEX_BLOCKED)) (q @ [t]) (insert t bl) (w(c := xs)) b jr"
proof -
  have "t \<in> set (w c)" using assms(2) by (metis set_mset_mset union_single_eq_member)
  with consistent_state(3) [OF assms(1)] have "ts t = Some COND_BLOCKED" .
  with assms partitioned_take [of w _ c t xs] show ?thesis
    by (auto simp: consistent_simps not_in_state)
qed

lemma consistent_barrier_wait:
  assumes "consistent ts q bl w b jr" and "ts t = Some RUNNABLE"
  shows "consistent (ts(t \<mapsto> BARRIER_BLOCKED)) (remove1 t q) bl w (b(n := b n @ [t])) jr"
  using assms by (simp add: consistent_simps not_in_state partitioned_add)

lemma consistent_barrier_released:
  assumes "consistent ts q bl w (b(n := t # xs)) jr"
  shows "consistent (ts(t \<mapsto> RUNNABLE)) (q @ [t]) bl w (b(n := xs)) jr"
proof -
  have "ts t = Some BARRIER_BLOCKED" using consistent_state(4) [OF assms, of t n] by simp
  with assms partitioned_head(1) [of b n t xs] show ?thesis
    by (auto simp: consistent_simps not_in_state)
qed

lemma consistent_join:
  assumes "consistent ts q bl w b jr" and "ts t = Some RUNNABLE" and "ts k \<noteq> Some TERMINATED"
  shows "consistent (ts(t \<mapsto> JOIN_BLOCKED)) (remove1 t q) bl w b (jr(k := jr k @ [t]))"
proof -
  have "live_joins ts (jr(k := jr k @ [t])) = (live_joins ts jr)(k := live_joins ts jr k @ [t])"
    using assms(3) by (auto simp: live_joins_def fun_eq_iff)
  with assms show ?thesis by (simp add: consistent_simps not_in_state partitioned_add)
qed

lemma consistent_woken:
  assumes "consistent ts q bl w b (jr(k := t # xs))" and "ts k \<noteq> Some TERMINATED"
  shows "consistent (ts(t \<mapsto> RUNNABLE)) (q @ [t]) bl w b (jr(k := xs))"
proof -
  have st: "ts t = Some JOIN_BLOCKED" using consistent_state(5) [OF assms(1), of k t] assms(2) by simp
  have lj: "live_joins ts (jr(k := ys)) = (live_joins ts jr)(k := ys)" for ys
    using assms(2) by (auto simp: live_joins_def fun_eq_iff)
  from st assms partitioned_head(1) [of "live_joins ts jr" k t xs] show ?thesis
    by (auto simp: consistent_simps not_in_state lj)
qed

lemma consistent_create:
  assumes "consistent ts q bl w b jr" and "ts t = None"
  shows "consistent (ts(t \<mapsto> RUNNABLE)) (q @ [t]) bl w b jr"
proof -
  have "in_state_set ts ss - {t} = in_state_set ts ss" for ss using assms(2) by auto
  with assms show ?thesis by (simp add: consistent_simps)
qed

lemma consistent_exit:
  assumes "consistent ts q bl w b (jr(t := []))" and "ts t = Some RUNNABLE"
  shows "consistent (ts(t \<mapsto> TERMINATED)) (remove1 t q) bl w b jr"
proof -
  have "live_joins (ts(t \<mapsto> TERMINATED)) jr = live_joins ts (jr(t := []))"
    by (auto simp: live_joins_def fun_eq_iff)
  with assms show ?thesis by (simp add: consistent_def in_state_set_upd not_in_state)
qed

text \<open>When nothing is scheduled, every thread has ended or waits for good.\<close>

lemma consistent_idle:
  assumes "consistent ts [] bl w b jr"
  shows "bl = {}" and "ts t = Some s \<Longrightarrow> s \<in> {COND_BLOCKED, BARRIER_BLOCKED, JOIN_BLOCKED, TERMINATED}"
  using assms by (cases s; force simp: consistent_def)+

end
