(* ===== verification/Runtime_Invariant.thy ===== *)
theory Runtime_Invariant
  imports Pthread_Runtime Thread_Consistency
begin

text \<open>
  The invariant of the multithreaded runtime: its tables are consistent with the states of the
  threads. Every handler of \<open>Pthread_Runtime\<close>, the choice of the next thread and the round around
  them keep it.
\<close>

section \<open>The invariant\<close>

definition queue :: "runtime \<Rightarrow> uint list" where
  "queue rt = scheduled (es_threadScheduler (rt_state rt))"

definition blocked_at :: "barrier_manager \<Rightarrow> string \<Rightarrow> uint list" where
  "blocked_at bm n = (case bm n of None \<Rightarrow> [] | Some b \<Rightarrow> br_blockedList b)"

definition joins :: "(uint \<rightharpoonup> uint list) \<Rightarrow> uint \<Rightarrow> uint list" where
  "joins jr k = (case jr k of None \<Rightarrow> [] | Some ws \<Rightarrow> ws)"

definition mutex_waiters :: "mutex_manager \<Rightarrow> uint set" where
  "mutex_waiters mm = dom (lt_blocked (manager_table mm))"

definition cond_waiters :: "cond_manager \<Rightarrow> string \<Rightarrow> uint list" where
  "cond_waiters cm c = map fst (waiters cm c)"

definition tables_ok :: "runtime \<Rightarrow> bool" where
  "tables_ok rt \<longleftrightarrow>
     consistent (states (rt_state rt)) (queue rt) (mutex_waiters (rt_mutexes rt)) (cond_waiters (rt_conds rt))
       (blocked_at (rt_barriers rt)) (joins (rt_joinRecord rt))"

text \<open>
  Thread ids are between 1 and 5, also those a prefix recorded in an earlier execution.
\<close>

definition valid_id :: "uint \<Rightarrow> bool" where
  "valid_id t \<longleftrightarrow> t \<noteq> 0 \<and> t \<le> 5"

lemma valid_id_succ: "valid_id t \<Longrightarrow> t + 1 \<noteq> 0 \<and> t + 1 \<le> 6"
  unfolding valid_id_def by (simp add: word_le_nat_alt word_unat_eq_iff unat_plus_if')

lemma valid_id_pred: "t \<noteq> 0 \<Longrightarrow> t \<le> 6 \<Longrightarrow> t + 1 \<le> 6 \<Longrightarrow> valid_id t"
  unfolding valid_id_def by (simp add: word_le_nat_alt word_unat_eq_iff unat_plus_if')

definition ids_ok :: "runtime \<Rightarrow> bool" where
  "ids_ok rt \<longleftrightarrow>
     (\<forall>t\<in>dom (states (rt_state rt)). valid_id t) \<and> rt_nextThreadId rt \<noteq> 0 \<and> rt_nextThreadId rt \<le> 6 \<and>
     (\<forall>p. rt_prefix rt = Some p \<longrightarrow> (\<forall>v\<in>ran (threadIdMap p). valid_id (ucast v)))"

definition runtime_ok :: "runtime \<Rightarrow> bool" where
  "runtime_ok rt \<longleftrightarrow>
     state_ok (rt_state rt) \<and> manager_ok (rt_mutexes rt) \<and> waiters_ok (rt_conds rt) (rt_mutexes rt) \<and>
     ids_ok rt \<and> tables_ok rt"

lemma queue_update [simp]:
  "queue (rt\<lparr>rt_mutexes := mm\<rparr>) = queue rt" "queue (rt\<lparr>rt_conds := cm\<rparr>) = queue rt"
  "queue (rt\<lparr>rt_barriers := bm\<rparr>) = queue rt" "queue (rt\<lparr>rt_joinRecord := jr\<rparr>) = queue rt"
  "queue (rt\<lparr>rt_state := st\<rparr>) = scheduled (es_threadScheduler st)"
  by (simp_all add: queue_def)

lemmas runtime_ok_defs = runtime_ok_def tables_ok_def queue_def

text \<open>The thread whose instruction is executed can run.\<close>

definition current_runs :: "runtime \<Rightarrow> bool" where
  "current_runs rt \<longleftrightarrow>
     (\<exists>t. es_currentThread (rt_state rt) = Some t \<and> states (rt_state rt) t = Some RUNNABLE)"


section \<open>Changes that only touch clocks and program counters\<close>

definition quiet :: "exec_state \<Rightarrow> exec_state \<Rightarrow> bool" where
  "quiet st st' \<longleftrightarrow>
     state_ok st' \<and> states st' = states st \<and> es_threadScheduler st' = es_threadScheduler st \<and>
     es_currentThread st' = es_currentThread st"

lemma quiet_trans: "quiet a b \<Longrightarrow> quiet b c \<Longrightarrow> quiet a c"
  by (simp add: quiet_def)

lemma set_thread_quiet:
  assumes "set_thread t f st = Inr st'" and "state_ok st"
    and "\<And>th. th_threadId (f th) = th_threadId th" and "\<And>th. th_threadState (f th) = th_threadState th"
    and "\<And>th. length (th_vectorClock th) = 5 \<Longrightarrow> length (th_vectorClock (f th)) = 5"
  shows "quiet st st'"
proof -
  from assms(1) obtain l where l: "update_thread (es_threadList st) t f = Inr l"
    and st': "st' = st\<lparr>es_threadList := l\<rparr>"
    by (auto simp: set_thread_def outcome_simps)
  from st' have ll: "es_threadList st' = l" by simp
  have "state_ok st' \<and> (\<exists>s. states st t = Some s \<and> states st' = (states st)(t \<mapsto> s))"
    by (rule update_states [OF l [folded ll] assms(2), where g = "\<lambda>s. s"]) (use assms in auto)
  then show ?thesis by (auto simp: quiet_def st' fun_upd_idem)
qed

lemma raise_entry_length: "raise_entry src i dst = Inr d \<Longrightarrow> length d = length dst"
  by (auto simp: raise_entry_def outcome_simps split: if_splits)

lemma merge_clock_length: "merge_clock n src dst = Inr d \<Longrightarrow> length d = length dst"
  unfolding merge_clock_def
  by (rule fold_outcome_invariant [where P = "\<lambda>d. length d = length dst"])
     (auto dest: raise_entry_length)

lemma copy_clock_length: "copy_clock src dst = Inr d \<Longrightarrow> length d = length dst"
  unfolding copy_clock_def
  by (rule fold_outcome_invariant [where P = "\<lambda>d. length d = length dst"]) (auto simp: outcome_simps)

lemma bump_clock_length: "bump_clock t vc = Inr d \<Longrightarrow> length d = length vc"
  by (auto simp: bump_clock_def outcome_simps)

lemma put_clock_quiet:
  "put_clock t vc st = Inr st' \<Longrightarrow> state_ok st \<Longrightarrow> length vc = 5 \<Longrightarrow> quiet st st'"
  unfolding put_clock_def by (erule set_thread_quiet) auto

lemma clock_of_length: "clock_of st t = Inr vc \<Longrightarrow> state_ok st \<Longrightarrow> length vc = 5"
  by (auto simp: clock_of_def outcome_simps state_ok_def)

lemma learn_clock_quiet: "learn_clock d s t st = Inr st' \<Longrightarrow> state_ok st \<Longrightarrow> quiet st st'"
  by (auto simp: learn_clock_def outcome_simps dest!: merge_clock_length clock_of_length
      intro!: put_clock_quiet)

lemma tick_quiet: "tick t st = Inr st' \<Longrightarrow> state_ok st \<Longrightarrow> quiet st st'"
  by (auto simp: tick_def outcome_simps dest!: bump_clock_length clock_of_length intro!: put_clock_quiet)

text \<open>An operation on the threads leaves the rest of the executor alone.\<close>

lemma on_state_Inr [outcome_simps]:
  "on_state f rt = Inr rt' \<longleftrightarrow> (\<exists>st. f (rt_state rt) = Inr st \<and> rt' = rt\<lparr>rt_state := st\<rparr>)"
  by (auto simp: on_state_def bind_eq_Inr_iff)

lemma runtime_state_ext: "rt = rt\<lparr>rt_state := rt_state rt\<rparr>"
  by simp

lemma ask_current_Inr:
  assumes "ask_current h rt = Inr (t, rt')"
  shows "\<exists>st. rt' = rt\<lparr>rt_state := st\<rparr> \<and> es_threadList st = es_threadList (rt_state rt) \<and>
    mset (scheduled (es_threadScheduler st)) = mset (scheduled (es_threadScheduler (rt_state rt)))"
proof -
  from assms obtain st where "getCurrentThread h (the_prefix rt) (rt_state rt) = Inr (Some t, st)"
    "rt' = rt\<lparr>rt_state := st\<rparr>"
    by (auto simp: ask_current_def outcome_simps split: option.splits)
  then show ?thesis using getCurrentThread_effect by blast
qed

lemma next_thread_Inr:
  assumes "next_thread h rt = Inr (t, rt')"
  shows "\<exists>st. rt' = rt\<lparr>rt_state := st\<rparr> \<and> es_threadList st = es_threadList (rt_state rt) \<and>
    mset (scheduled (es_threadScheduler st)) = mset (scheduled (es_threadScheduler (rt_state rt))) \<and>
    es_currentThread st = Some t"
proof -
  from assms obtain st where "getNextThread h (the_prefix rt) (rt_state rt) = Inr (Some t, st)"
    "rt' = rt\<lparr>rt_state := st\<rparr>"
    by (auto simp: next_thread_def outcome_simps split: option.splits)
  then show ?thesis using getNextThread_effect by blast
qed

lemma runtime_ok_permute:
  assumes "runtime_ok rt" and "es_threadList st = es_threadList (rt_state rt)"
    and "mset (scheduled (es_threadScheduler st)) = mset (scheduled (es_threadScheduler (rt_state rt)))"
  shows "runtime_ok (rt\<lparr>rt_state := st\<rparr>)"
  using assms states_cong [OF assms(2)] state_ok_cong [OF assms(2)]
  by (auto simp: runtime_ok_defs ids_ok_def intro: consistent_permute)

lemma runtime_ok_quiet:
  assumes "runtime_ok rt" and "quiet (rt_state rt) st"
  shows "runtime_ok (rt\<lparr>rt_state := st\<rparr>)"
  using assms by (simp add: runtime_ok_defs ids_ok_def quiet_def)



section \<open>The handlers keep the invariant\<close>

lemma current_id_Inr [outcome_simps]: "current_id rt = Inr t \<longleftrightarrow> es_currentThread (rt_state rt) = Some t"
  by (auto simp: current_id_def split: option.splits)

lemma current_runs_state:
  "current_runs rt \<Longrightarrow> es_currentThread (rt_state rt) = Some t \<Longrightarrow> states (rt_state rt) t = Some RUNNABLE"
  by (simp add: current_runs_def)

subsection \<open>Mutexes\<close>

lemma mutex_waiters_lock:
  assumes "manager_ok mm" and "manager_lock mm n t = Inr (Inr b, mm')"
  shows "manager_ok mm'" and "mutex_waiters mm' = (if b then insert t (mutex_waiters mm) else mutex_waiters mm - {t})"
    and "dom (lt_holder (manager_table mm')) = dom (lt_holder (manager_table mm))"
proof -
  have s: "manager_ok mm'" "spec_lock (manager_table mm) n t = (Inr b, manager_table mm')"
    using manager_lock_refines [OF assms(1), of n t] assms(2) by auto
  then show "manager_ok mm'" by simp
  from s(2) have t: "manager_table mm' = snd (spec_lock (manager_table mm) n t)"
    and b: "Inr b = fst (spec_lock (manager_table mm) n t)" by simp_all
  show "mutex_waiters mm' = (if b then insert t (mutex_waiters mm) else mutex_waiters mm - {t})"
    "dom (lt_holder (manager_table mm')) = dom (lt_holder (manager_table mm))"
    using b unfolding mutex_waiters_def t by (auto simp: spec_lock_def split: option.split_asm)
qed

lemma waiters_ok_mono:
  assumes "waiters_ok cm mm" and "dom (lt_holder (manager_table mm)) \<subseteq> dom (lt_holder (manager_table mm'))"
  shows "waiters_ok cm mm'"
  using assms unfolding waiters_ok_def by fastforce

lemma lock_ok:
  assumes "executePThreadMutexLock a rt = Inr rt'" and "runtime_ok rt" and "current_runs rt"
  shows "runtime_ok rt'"
proof -
  from assms(1) obtain m t b mm where a: "a = Some m" and t: "es_currentThread (rt_state rt) = Some t"
    and l: "manager_lock (rt_mutexes rt) (uint64toString m) t = Inr (Inr b, mm)"
    and rt': "if b then (\<exists>st. switchThreadToMutexBlocked (rt_state rt) t = Inr st \<and>
                  rt' = rt\<lparr>rt_mutexes := mm, rt_state := st\<rparr>)
              else rt' = rt\<lparr>rt_mutexes := mm\<rparr>"
    by (auto simp: executePThreadMutexLock_def outcome_simps Let_def split: if_splits)
  have st: "states (rt_state rt) t = Some RUNNABLE" using current_runs_state [OF assms(3) t] .
  have ok: "manager_ok (rt_mutexes rt)" and con: "tables_ok rt" and "state_ok (rt_state rt)"
    using assms(2) by (simp_all add: runtime_ok_def)
  note mw = mutex_waiters_lock [OF ok l]
  have w: "waiters_ok (rt_conds rt) mm"
    using waiters_ok_mono [of "rt_conds rt" "rt_mutexes rt" mm] mw(3) assms(2) by (simp add: runtime_ok_def)
  show ?thesis
  proof (cases b)
    case True
    with rt' obtain st' where st': "switchThreadToMutexBlocked (rt_state rt) t = Inr st'"
      "rt' = rt\<lparr>rt_mutexes := mm, rt_state := st'\<rparr>" by auto
    note eff = switchThreadToMutexBlocked_effect [OF st'(1) \<open>state_ok (rt_state rt)\<close>]
    with True assms(2) mw w st'(2) st con show ?thesis
      by (auto simp: runtime_ok_def tables_ok_def queue_def ids_ok_def intro: consistent_lock_blocked)
  next
    case False
    have "t \<notin> mutex_waiters (rt_mutexes rt)"
      using con st consistent_state(2) by (fastforce simp: tables_ok_def)
    with False mw have "mutex_waiters mm = mutex_waiters (rt_mutexes rt)" by auto
    with False rt' assms(2) mw(1) w show ?thesis
      by (simp add: runtime_ok_def tables_ok_def queue_def ids_ok_def)
  qed
qed

lemma mutex_waiters_unlock:
  assumes "manager_ok mm" and "manager_unlock mm n = Inr (r, mm')"
  shows "manager_ok mm'" and "mutex_waiters mm' = mutex_waiters mm"
    and "dom (lt_holder (manager_table mm')) = dom (lt_holder (manager_table mm))"
proof -
  have s: "manager_ok mm'" "spec_unlock (manager_table mm) n = (r, manager_table mm')"
    using manager_unlock_refines [OF assms(1), of n] assms(2) by auto
  then show "manager_ok mm'" by simp
  from s(2) have t: "manager_table mm' = snd (spec_unlock (manager_table mm) n)" by simp
  show "mutex_waiters mm' = mutex_waiters mm"
    "dom (lt_holder (manager_table mm')) = dom (lt_holder (manager_table mm))"
    unfolding mutex_waiters_def t by (simp_all add: spec_unlock_def insert_absorb)
qed

lemma unlock_ok:
  assumes "executePThreadMutexUnlock a rt = Inr rt'" and "runtime_ok rt"
  shows "runtime_ok rt'"
proof -
  from assms(1) obtain m mm where l: "manager_unlock (rt_mutexes rt) (uint64toString m) = Inr (Inr (), mm)"
    and rt': "rt' = rt\<lparr>rt_mutexes := mm\<rparr>"
    by (auto simp: executePThreadMutexUnlock_def outcome_simps)
  have ok: "manager_ok (rt_mutexes rt)" using assms(2) by (simp add: runtime_ok_def)
  note mw = mutex_waiters_unlock [OF ok l]
  have "waiters_ok (rt_conds rt) mm"
    using waiters_ok_mono [of "rt_conds rt" "rt_mutexes rt" mm] mw(3) assms(2) by (simp add: runtime_ok_def)
  with mw assms(2) rt' show ?thesis by (simp add: runtime_ok_def tables_ok_def queue_def ids_ok_def)
qed

subsection \<open>Condition variables\<close>

lemma cond_wait_ok:
  assumes "executePThreadCondWait c m rt = Inr rt'" and "runtime_ok rt" and "current_runs rt"
  shows "runtime_ok rt'"
proof -
  from assms(1) obtain cv mv t cm mm st where t: "es_currentThread (rt_state rt) = Some t"
    and w: "cond_wait (rt_conds rt) (rt_mutexes rt) (uint64toString cv) (uint64toString mv) t = Inr (Inr (), cm, mm)"
    and st: "swapOutThread (rt_state rt) t True False False False = Inr st"
    and rt': "rt' = rt\<lparr>rt_conds := cm, rt_mutexes := mm, rt_state := st\<rparr>"
    by (auto simp: executePThreadCondWait_def outcome_simps)
  let ?c = "uint64toString cv" and ?m = "uint64toString mv"
  have ok: "manager_ok (rt_mutexes rt)" "waiters_ok (rt_conds rt) (rt_mutexes rt)" "state_ok (rt_state rt)"
    and con: "tables_ok rt" and ids: "ids_ok rt"
    using assms(2) by (simp_all add: runtime_ok_def)
  have run: "states (rt_state rt) t = Some RUNNABLE" using current_runs_state [OF assms(3) t] .
  then have "t \<noteq> 0" using ids by (auto simp: ids_ok_def valid_id_def)
  from w obtain cd where cd: "cm_condPool (rt_conds rt) ?c = Some cd"
    by (auto simp: cond_wait_def getCondition_def split: option.splits)
  have hold: "lt_holder (manager_table (rt_mutexes rt)) ?m = Some (Some t)"
    using cond_wait_refused [OF ok(1) \<open>t \<noteq> 0\<close>, of ?m "rt_conds rt" ?c] w by auto
  from cond_wait_holds [OF ok(1) cd \<open>t \<noteq> 0\<close> hold] w
  have mm: "manager_ok mm" "manager_table mm =
      (manager_table (rt_mutexes rt))\<lparr>lt_holder := (lt_holder (manager_table (rt_mutexes rt)))(?m \<mapsto> None)\<rparr>"
    and cm: "waiters cm ?c = waiters (rt_conds rt) ?c @ [(t, ?m)]" "\<forall>d. d \<noteq> ?c \<longrightarrow> waiters cm d = waiters (rt_conds rt) d"
    by auto
  have wok: "waiters_ok cm mm"
    unfolding waiters_ok_def
  proof
    fix d
    show "\<forall>(t, n)\<in>set (waiters cm d). lt_holder (manager_table mm) n \<noteq> None"
      using ok(2) cm mm(2) by (cases "d = ?c") (auto simp: waiters_ok_def)
  qed
  have "cond_waiters cm = (cond_waiters (rt_conds rt))(?c := cond_waiters (rt_conds rt) ?c @ [t])"
    using cm by (auto simp: cond_waiters_def fun_eq_iff)
  moreover have "mutex_waiters mm = mutex_waiters (rt_mutexes rt)" by (simp add: mutex_waiters_def mm(2))
  moreover from swapOutThread_effect [OF st ok(3)] have eff: "state_ok st"
    "states st = (states (rt_state rt))(t \<mapsto> COND_BLOCKED)"
    "scheduled (es_threadScheduler st) = remove1 t (queue rt)" by (auto simp: queue_def)
  moreover note consistent_wait [OF con [unfolded tables_ok_def] run, of ?c]
  ultimately show ?thesis
    using ids wok mm(1) run rt' by (auto simp: runtime_ok_def tables_ok_def queue_def ids_ok_def)
qed

text \<open>A waiter that is released and scheduled again.\<close>

lemma release_waiter_effect:
  assumes "release_waiter h t rt = Inr rt'" and "state_ok (rt_state rt)"
  shows "\<exists>st. rt' = rt\<lparr>rt_state := st\<rparr> \<and> state_ok st \<and>
    states st = (states (rt_state rt))(t \<mapsto> MUTEX_BLOCKED) \<and>
    mset (scheduled (es_threadScheduler st)) = mset (queue rt @ [t])"
proof -
  from assms(1) obtain s1 cur rt2 s3 s4 where s1: "swapInThread_id (rt_state rt) t False True = Inr s1"
    and ask: "ask_current h (rt\<lparr>rt_state := s1\<rparr>) = Inr (cur, rt2)"
    and s3: "learn_clock False cur t (rt_state rt2) = Inr s3"
    and s4: "tick cur s3 = Inr s4" and rt': "rt' = rt2\<lparr>rt_state := s4\<rparr>"
    by (auto simp: release_waiter_def outcome_simps)
  note eff = swapInThread_id_effect [OF s1 assms(2)]
  obtain s2 where s2: "rt2 = rt\<lparr>rt_state := s2\<rparr>" "es_threadList s2 = es_threadList s1"
    "mset (scheduled (es_threadScheduler s2)) = mset (scheduled (es_threadScheduler s1))"
    using ask_current_Inr [OF ask] by auto
  have ok2: "state_ok s2" using eff state_ok_cong [OF s2(2)] by simp
  have q: "quiet s2 s4"
  proof -
    have "quiet s2 s3" using learn_clock_quiet s3 s2(1) ok2 by simp
    moreover from this have "quiet s3 s4" using tick_quiet [OF s4] by (simp add: quiet_def)
    ultimately show ?thesis by (rule quiet_trans)
  qed
  have "states s2 = (states (rt_state rt))(t \<mapsto> MUTEX_BLOCKED)"
    using eff states_cong [OF s2(2)] by (auto simp: in_state_def)
  with q s2 eff rt' show ?thesis by (auto simp: quiet_def queue_def)
qed

lemma release_all_effect:
  assumes "fold_outcome (release_waiter h) xs rt = Inr rt'" and "state_ok (rt_state rt)"
    and "consistent (states (rt_state rt)) (queue rt) bl (w(c := xs)) b jr"
  shows "\<exists>st. rt' = rt\<lparr>rt_state := st\<rparr> \<and> state_ok st \<and> dom (states st) = dom (states (rt_state rt)) \<and>
    consistent (states st) (scheduled (es_threadScheduler st)) (bl \<union> set xs) (w(c := [])) b jr"
  using assms
proof (induction xs arbitrary: rt bl)
  case Nil
  then show ?case by (intro exI [of _ "rt_state rt"]) (auto simp: queue_def)
next
  case (Cons t xs)
  from Cons.prems(1) obtain rt1 where r: "release_waiter h t rt = Inr rt1"
    and rest: "fold_outcome (release_waiter h) xs rt1 = Inr rt'" by (auto simp: outcome_simps)
  obtain s1 where s1: "rt1 = rt\<lparr>rt_state := s1\<rparr>" "state_ok s1"
    "states s1 = (states (rt_state rt))(t \<mapsto> MUTEX_BLOCKED)"
    "mset (scheduled (es_threadScheduler s1)) = mset (queue rt @ [t])"
    using release_waiter_effect [OF r Cons.prems(2)] by blast
  have "consistent (states s1) (queue rt @ [t]) (insert t bl) ((w(c := t # xs))(c := xs)) b jr"
    unfolding s1(3) by (rule consistent_released [OF Cons.prems(3)]) simp
  then have "consistent (states s1) (queue rt @ [t]) (insert t bl) (w(c := xs)) b jr"
    by (simp only: fun_upd_upd)
  from consistent_permute [OF this s1(4)]
  have "consistent (states (rt_state rt1)) (queue rt1) (insert t bl) (w(c := xs)) b jr"
    by (simp add: s1(1) queue_def)
  moreover have "state_ok (rt_state rt1)" by (simp add: s1)
  ultimately obtain st where st: "rt' = rt1\<lparr>rt_state := st\<rparr>" "state_ok st"
    "dom (states st) = dom (states (rt_state rt1))"
    "consistent (states st) (scheduled (es_threadScheduler st)) (insert t bl \<union> set xs) (w(c := [])) b jr"
    using Cons.IH [OF rest] by blast
  have "t \<in> dom (states (rt_state rt))"
    using consistent_state(3) [OF Cons.prems(3), of t c] by (auto simp: dom_def)
  then have "dom (states st) = dom (states (rt_state rt))" using st(3) s1(1,3) by auto
  moreover have "insert t bl \<union> set xs = bl \<union> set (t # xs)" by simp
  ultimately show ?case using st(1,2,4) s1(1) by (intro exI [of _ st]) (simp del: fun_upd_apply)
qed

lemma broadcast_ok:
  assumes "executePThreadCondBroadcast h a rt = Inr rt'" and "runtime_ok rt"
  shows "runtime_ok rt'"
proof -
  from assms(1) obtain cv xs cm mm where
    bc: "cond_broadcast (rt_conds rt) (rt_mutexes rt) (uint64toString cv) = Inr (Inr xs, cm, mm)"
    and loop: "fold_outcome (release_waiter h) xs (rt\<lparr>rt_conds := cm, rt_mutexes := mm\<rparr>) = Inr rt'"
    by (auto simp: executePThreadCondBroadcast_def outcome_simps)
  let ?c = "uint64toString cv"
  have ok: "manager_ok (rt_mutexes rt)" "waiters_ok (rt_conds rt) (rt_mutexes rt)" "state_ok (rt_state rt)"
    and con: "tables_ok rt" and ids: "ids_ok rt"
    using assms(2) by (simp_all add: runtime_ok_def)
  from bc obtain cd where cd: "cm_condPool (rt_conds rt) ?c = Some cd"
    by (auto simp: cond_broadcast_def getCondition_def split: option.splits)
  from cond_broadcast_all [OF ok(1,2) cd] bc
  have xs: "xs = map fst (waiters (rt_conds rt) ?c)" and mm: "manager_ok mm" "manager_table mm =
      (manager_table (rt_mutexes rt))\<lparr>lt_blocked := block_all (waiters (rt_conds rt) ?c) (lt_blocked (manager_table (rt_mutexes rt)))\<rparr>"
    and cm: "waiters cm ?c = []" "\<forall>d. d \<noteq> ?c \<longrightarrow> waiters cm d = waiters (rt_conds rt) d"
    by auto
  let ?w = "cond_waiters (rt_conds rt)"
  have self: "?w(?c := xs) = ?w" by (simp add: xs cond_waiters_def fun_eq_iff)
  let ?rt = "rt\<lparr>rt_conds := cm, rt_mutexes := mm\<rparr>"
  have "consistent (states (rt_state ?rt)) (queue ?rt) (mutex_waiters (rt_mutexes rt)) (?w(?c := xs))
      (blocked_at (rt_barriers rt)) (joins (rt_joinRecord rt))"
    using con by (simp only: self) (simp add: tables_ok_def queue_def)
  moreover have "state_ok (rt_state ?rt)" using ok(3) by simp
  ultimately obtain st where st: "rt' = ?rt\<lparr>rt_state := st\<rparr>" "state_ok st"
    "dom (states st) = dom (states (rt_state rt))"
    "consistent (states st) (scheduled (es_threadScheduler st)) (mutex_waiters (rt_mutexes rt) \<union> set xs)
       (?w(?c := [])) (blocked_at (rt_barriers rt)) (joins (rt_joinRecord rt))"
    using release_all_effect [OF loop] by (metis runtime.select_convs(1) runtime.surjective runtime.update_convs(2) runtime.update_convs(3))
  have "cond_waiters cm = ?w(?c := [])" using cm by (auto simp: cond_waiters_def fun_eq_iff)
  moreover have "mutex_waiters mm = mutex_waiters (rt_mutexes rt) \<union> set xs"
    by (auto simp: mutex_waiters_def mm(2) dom_block_all xs)
  moreover have "waiters_ok cm mm"
    unfolding waiters_ok_def
  proof
    fix d
    show "\<forall>(t, n)\<in>set (waiters cm d). lt_holder (manager_table mm) n \<noteq> None"
      using ok(2) cm mm(2) by (cases "d = ?c") (auto simp: waiters_ok_def)
  qed
  ultimately show ?thesis
    using st mm(1) ids by (auto simp: runtime_ok_def tables_ok_def queue_def ids_ok_def)
qed

lemma signal_ok:
  assumes "executePThreadCondSignal h a rt = Inr rt'" and "runtime_ok rt"
  shows "runtime_ok rt'"
proof -
  from assms(1) obtain cv r cm mm where
    sg: "cond_signal h (the_prefix rt) (rt_conds rt) (rt_mutexes rt) (uint64toString cv) = Inr (Inr r, cm, mm)"
    and rel: "if r \<noteq> 0 then release_waiter h r (rt\<lparr>rt_conds := cm, rt_mutexes := mm\<rparr>) = Inr rt'
              else rt' = rt\<lparr>rt_conds := cm, rt_mutexes := mm\<rparr>"
    by (auto simp: executePThreadCondSignal_def outcome_simps Let_def split: if_splits)
  let ?c = "uint64toString cv" and ?rt = "rt\<lparr>rt_conds := cm, rt_mutexes := mm\<rparr>"
  have ok: "manager_ok (rt_mutexes rt)" "waiters_ok (rt_conds rt) (rt_mutexes rt)" "state_ok (rt_state rt)"
    and con: "tables_ok rt" and ids: "ids_ok rt"
    using assms(2) by (simp_all add: runtime_ok_def)
  from sg obtain cd where cd: "cm_condPool (rt_conds rt) ?c = Some cd"
    by (auto simp: cond_signal_def getCondition_def split: option.splits)
  show ?thesis
  proof (cases "waiters (rt_conds rt) ?c = []")
    case True
    with cond_signal_nobody [OF cd True] sg rel assms(2) show ?thesis
      by (simp add: runtime_ok_def tables_ok_def queue_def ids_ok_def)
  next
    case False
    from cond_signal_one [OF ok(1,2) False, of h "the_prefix rt"] sg obtain n where mm: "manager_ok mm"
      "manager_table mm = (manager_table (rt_mutexes rt))\<lparr>lt_blocked := map_insert r n (lt_blocked (manager_table (rt_mutexes rt)))\<rparr>"
      and cm: "mset (waiters (rt_conds rt) ?c) = add_mset (r, n) (mset (waiters cm ?c))"
        "\<forall>d. d \<noteq> ?c \<longrightarrow> waiters cm d = waiters (rt_conds rt) d"
      by auto
    let ?w = "cond_waiters (rt_conds rt)"
    have ms: "mset (?w ?c) = add_mset r (mset (cond_waiters cm ?c))"
      using cm(1) by (simp add: cond_waiters_def)
    have "r \<in> set (?w ?c)" using ms by (metis set_mset_mset union_single_eq_member)
    with con consistent_state(3) have "states (rt_state rt) r = Some COND_BLOCKED" by (auto simp: tables_ok_def)
    then have r: "r \<in> dom (states (rt_state rt))" "r \<noteq> 0" using ids by (auto simp: ids_ok_def valid_id_def)
    with rel have "release_waiter h r ?rt = Inr rt'" by simp
    from release_waiter_effect [OF this] ok(3) obtain st where st: "rt' = ?rt\<lparr>rt_state := st\<rparr>" "state_ok st"
      "states st = (states (rt_state rt))(r \<mapsto> MUTEX_BLOCKED)"
      "mset (scheduled (es_threadScheduler st)) = mset (queue ?rt @ [r])"
      by auto
    have w: "cond_waiters cm = ?w(?c := cond_waiters cm ?c)" using cm(2) by (auto simp: cond_waiters_def fun_eq_iff)
    have b: "mutex_waiters mm = insert r (mutex_waiters (rt_mutexes rt))" by (simp add: mutex_waiters_def mm(2))
    have "consistent (states st) (queue rt @ [r]) (mutex_waiters mm) (cond_waiters cm)
        (blocked_at (rt_barriers rt)) (joins (rt_joinRecord rt))"
      using consistent_released [OF con [unfolded tables_ok_def] ms] by (simp only: st(3) b) (subst w, simp)
    then have "consistent (states st) (scheduled (es_threadScheduler st)) (mutex_waiters mm) (cond_waiters cm)
        (blocked_at (rt_barriers rt)) (joins (rt_joinRecord rt))"
      by (rule consistent_permute) (use st(4) in \<open>simp add: queue_def\<close>)
    moreover have "waiters_ok cm mm"
      unfolding waiters_ok_def
    proof
      fix d
      have "set (waiters cm d) \<subseteq> set (waiters (rt_conds rt) d)"
      proof (cases "d = ?c")
        case True
        then show ?thesis using cm(1) by (metis set_mset_mset set_mset_add_mset_insert subset_insertI)
      qed (use cm(2) in simp)
      then show "\<forall>(t, n)\<in>set (waiters cm d). lt_holder (manager_table mm) n \<noteq> None"
        using ok(2) mm(2) by (fastforce simp: waiters_ok_def)
    qed
    ultimately show ?thesis
      using st mm(1) ids r by (auto simp: runtime_ok_def tables_ok_def queue_def ids_ok_def insert_absorb)
  qed
qed

subsection \<open>Barriers\<close>

lemma barrier_init_ok:
  assumes "executePThreadBarrierInit a k rt = Inr rt'" and "runtime_ok rt"
  shows "runtime_ok rt'"
proof -
  from assms(1) obtain n c r bm where bm: "barrier_init (rt_barriers rt) n c = (Inr r, bm)"
    and rt': "rt' = rt\<lparr>rt_barriers := bm\<rparr>"
    by (auto simp: executePThreadBarrierInit_def outcome_simps)
  from bm obtain b where b: "rt_barriers rt n = Some b" "bm = (rt_barriers rt)(n \<mapsto> Barrier_setCount b c)"
    by (auto simp: barrier_init_def getBarrier_def split: option.splits)
  then have "blocked_at bm = blocked_at (rt_barriers rt)"
    by (auto simp: blocked_at_def Barrier_setCount_def fun_eq_iff)
  with assms(2) rt' show ?thesis by (simp add: runtime_ok_def tables_ok_def queue_def ids_ok_def)
qed

lemma wake_others_effect:
  assumes "fold_outcome (wake_other cur) xs rt = Inr rt'" and "state_ok (rt_state rt)" and "cur \<notin> set xs"
    and "consistent (states (rt_state rt)) (queue rt) bl w (b(n := xs)) jr"
  shows "\<exists>st. rt' = rt\<lparr>rt_state := st\<rparr> \<and> state_ok st \<and> dom (states st) = dom (states (rt_state rt)) \<and>
    consistent (states st) (scheduled (es_threadScheduler st)) bl w (b(n := [])) jr"
  using assms
proof (induction xs arbitrary: rt)
  case Nil
  then show ?case by (intro exI [of _ "rt_state rt"]) (simp add: queue_def del: fun_upd_apply)
next
  case (Cons t xs)
  from Cons.prems(1) obtain rt1 where w: "wake_other cur t rt = Inr rt1"
    and rest1: "fold_outcome (wake_other cur) xs rt1 = Inr rt'" by (auto simp: outcome_simps)
  from w Cons.prems(3) obtain st1 where s: "swapInThread_id (rt_state rt) t True False = Inr st1"
    and rt1: "rt1 = rt\<lparr>rt_state := st1\<rparr>"
    by (auto simp: wake_other_def outcome_simps)
  note rest = rest1 [unfolded rt1]
  from swapInThread_id_effect [OF s Cons.prems(2)] have st1: "state_ok st1"
    "states st1 = (states (rt_state rt))(t \<mapsto> RUNNABLE)" "scheduled (es_threadScheduler st1) = queue rt @ [t]"
    "t \<in> dom (states (rt_state rt))"
    by (auto simp: queue_def)
  from consistent_barrier_released [OF Cons.prems(4)]
  have "consistent (states st1) (scheduled (es_threadScheduler st1)) bl w (b(n := xs)) jr"
    by (simp only: st1)
  then obtain st where "rt' = rt\<lparr>rt_state := st1\<rparr>\<lparr>rt_state := st\<rparr>" "state_ok st"
    "dom (states st) = dom (states st1)"
    "consistent (states st) (scheduled (es_threadScheduler st)) bl w (b(n := [])) jr"
    using Cons.IH [OF rest] st1(1) Cons.prems(3) by (auto simp: queue_def simp del: fun_upd_apply)
  with st1(2,4) show ?case by (intro exI [of _ st]) (auto simp del: fun_upd_apply)
qed

lemma wake_others_skip:
  "fold_outcome (wake_other cur) (xs @ [cur]) rt = fold_outcome (wake_other cur) xs rt"
  by (cases "fold_outcome (wake_other cur) xs rt") (simp_all add: fold_outcome_append wake_other_def)

lemma barrier_wait_ok_state:
  assumes "executePThreadBarrierWait a rt = Inr rt'" and "runtime_ok rt" and "current_runs rt"
  shows "runtime_ok rt'"
proof -
  have sok: "state_ok (rt_state rt)" and con: "tables_ok rt" and ids: "ids_ok rt"
    using assms(2) by (simp_all add: runtime_ok_def)
  from assms(1) obtain n t r bm where t: "es_currentThread (rt_state rt) = Some t"
    and bw: "barrier_wait (rt_barriers rt) n t = (r, bm)"
    and res: "(case r of Inl _ \<Rightarrow> Inr (rt\<lparr>rt_barriers := bm\<rparr>)
      | Inr (Some xs) \<Rightarrow> fold_outcome (wake_other t) xs (rt\<lparr>rt_barriers := bm\<rparr>)
      | Inr None \<Rightarrow> on_state (\<lambda>st. swapOutThread st t False True False False) (rt\<lparr>rt_barriers := bm\<rparr>)) = Inr rt'"
    by (auto simp: executePThreadBarrierWait_def outcome_simps Let_def)
  have run: "states (rt_state rt) t = Some RUNNABLE" using current_runs_state [OF assms(3) t] .
  let ?b = "blocked_at (rt_barriers rt)"
  show ?thesis
  proof (cases "rt_barriers rt n")
    case None
    with bw have "bm = rt_barriers rt" "\<exists>e. r = Inl e" by (auto simp: barrier_wait_def getBarrier_def)
    with res assms(2) show ?thesis by auto
  next
    case (Some br)
    show ?thesis
    proof (cases "Barrier_isFull (Barrier_wait br t)")
      case True
      with Some bw have bm: "bm = (rt_barriers rt)(n \<mapsto> Barrier_reset (Barrier_wait br t))"
        and r: "r = Inr (Some (?b n @ [t]))"
        by (auto simp: barrier_wait_def getBarrier_def Let_def blocked_at_def Barrier_wait_def
            Barrier_getBlockedList_def)
      have b': "blocked_at bm = ?b(n := [])"
        by (auto simp: blocked_at_def bm Barrier_reset_def fun_eq_iff)
      have nt: "t \<notin> set (?b n)"
        using con run consistent_state(4) by (fastforce simp: tables_ok_def)
      have loop: "fold_outcome (wake_other t) (?b n) (rt\<lparr>rt_barriers := bm\<rparr>) = Inr rt'"
        using res r by (simp add: wake_others_skip)
      let ?rt = "rt\<lparr>rt_barriers := bm\<rparr>"
      have "consistent (states (rt_state ?rt)) (queue ?rt) (mutex_waiters (rt_mutexes rt))
          (cond_waiters (rt_conds rt)) (?b(n := ?b n)) (joins (rt_joinRecord rt))"
        using con by (simp add: tables_ok_def)
      from wake_others_effect [OF loop _ nt this] obtain st where
        "rt' = ?rt\<lparr>rt_state := st\<rparr>" "state_ok st" "dom (states st) = dom (states (rt_state rt))"
        "consistent (states st) (scheduled (es_threadScheduler st)) (mutex_waiters (rt_mutexes rt))
          (cond_waiters (rt_conds rt)) (?b(n := [])) (joins (rt_joinRecord rt))"
        using sok by auto
      with b' assms(2) show ?thesis by (auto simp: runtime_ok_def tables_ok_def queue_def ids_ok_def)
    next
      case False
      with Some bw have bm: "bm = (rt_barriers rt)(n \<mapsto> Barrier_wait br t)" and r: "r = Inr None"
        by (auto simp: barrier_wait_def getBarrier_def Let_def)
      have b': "blocked_at bm = ?b(n := ?b n @ [t])"
        using Some by (auto simp: blocked_at_def bm Barrier_wait_def fun_eq_iff)
      from res r obtain st where st: "swapOutThread (rt_state rt) t False True False False = Inr st"
        "rt' = rt\<lparr>rt_barriers := bm, rt_state := st\<rparr>"
        by (auto simp: outcome_simps)
      from swapOutThread_effect [OF st(1) sok] have "state_ok st"
        "states st = (states (rt_state rt))(t \<mapsto> BARRIER_BLOCKED)"
        "scheduled (es_threadScheduler st) = remove1 t (queue rt)" by (auto simp: queue_def)
      with consistent_barrier_wait [OF con [unfolded tables_ok_def] run, of n] b' st(2) assms(2) run show ?thesis
        by (auto simp: runtime_ok_def tables_ok_def queue_def ids_ok_def)
    qed
  qed
qed

subsection \<open>Creation, joins and the end of a thread\<close>

lemma join_ok:
  assumes "executePThreadJoin a rt = Inr rt'" and "runtime_ok rt" and "current_runs rt"
  shows "runtime_ok rt'"
proof -
  from assms(1) obtain k th where k: "thread_at (es_threadList (rt_state rt)) k = Some th"
    and res: "if isTerminated th then rt' = rt
      else \<exists>t st. es_currentThread (rt_state rt) = Some t \<and>
        swapOutThread (rt_state rt) t False False True False = Inr st \<and>
        rt' = rt\<lparr>rt_joinRecord := (rt_joinRecord rt)(k \<mapsto> joins (rt_joinRecord rt) k @ [t]), rt_state := st\<rparr>"
    by (auto simp: executePThreadJoin_def Let_def joins_def outcome_simps split: if_splits)
  show ?thesis
  proof (cases "isTerminated th")
    case True
    with res assms(2) show ?thesis by simp
  next
    case False
    with res obtain t st where t: "es_currentThread (rt_state rt) = Some t"
      and st: "swapOutThread (rt_state rt) t False False True False = Inr st"
      and rt': "rt' = rt\<lparr>rt_joinRecord := (rt_joinRecord rt)(k \<mapsto> joins (rt_joinRecord rt) k @ [t]), rt_state := st\<rparr>"
      by auto
    have sok: "state_ok (rt_state rt)" and con: "tables_ok rt" using assms(2) by (simp_all add: runtime_ok_def)
    have run: "states (rt_state rt) t = Some RUNNABLE" using current_runs_state [OF assms(3) t] .
    have live: "states (rt_state rt) k \<noteq> Some TERMINATED" using k False by (simp add: states_def isTerminated_def)
    have "joins ((rt_joinRecord rt)(k \<mapsto> joins (rt_joinRecord rt) k @ [t])) =
        (joins (rt_joinRecord rt))(k := joins (rt_joinRecord rt) k @ [t])"
      by (auto simp: joins_def fun_eq_iff)
    moreover from swapOutThread_effect [OF st sok] have "state_ok st"
      "states st = (states (rt_state rt))(t \<mapsto> JOIN_BLOCKED)"
      "scheduled (es_threadScheduler st) = remove1 t (queue rt)" by (auto simp: queue_def)
    moreover note consistent_join [OF con [unfolded tables_ok_def] run live]
    ultimately show ?thesis using rt' assms(2) run by (auto simp: runtime_ok_def tables_ok_def ids_ok_def)
  qed
qed

lemma wake_joiners_effect:
  assumes "fold_outcome (wake_joiner cur) xs rt = Inr rt'" and "state_ok (rt_state rt)"
    and "states (rt_state rt) cur = Some RUNNABLE"
    and "consistent (states (rt_state rt)) (queue rt) bl w b (jr(cur := xs))"
  shows "\<exists>st. rt' = rt\<lparr>rt_state := st\<rparr> \<and> state_ok st \<and> dom (states st) = dom (states (rt_state rt)) \<and>
    states st cur = Some RUNNABLE \<and>
    consistent (states st) (scheduled (es_threadScheduler st)) bl w b (jr(cur := []))"
  using assms
proof (induction xs arbitrary: rt)
  case Nil
  then show ?case by (intro exI [of _ "rt_state rt"]) (simp add: queue_def del: fun_upd_apply)
next
  case (Cons t xs)
  from Cons.prems(1) obtain rt1 where w: "wake_joiner cur t rt = Inr rt1"
    and rest: "fold_outcome (wake_joiner cur) xs rt1 = Inr rt'" by (auto simp: outcome_simps)
  from w obtain s1 s2 where s1: "swapInThread_id (rt_state rt) t True False = Inr s1"
    and s2: "learn_clock True cur t s1 = Inr s2" and rt1: "rt1 = rt\<lparr>rt_state := s2\<rparr>"
    by (auto simp: wake_joiner_def outcome_simps)
  note eff = swapInThread_id_effect [OF s1 Cons.prems(2)]
  have q: "quiet s1 s2" using learn_clock_quiet [OF s2] eff by blast
  have st2: "state_ok s2" "states s2 = (states (rt_state rt))(t \<mapsto> RUNNABLE)"
    "scheduled (es_threadScheduler s2) = queue rt @ [t]" "t \<in> dom (states (rt_state rt))"
    using q eff by (auto simp: quiet_def queue_def)
  have "states (rt_state rt) cur \<noteq> Some TERMINATED" using Cons.prems(3) by simp
  from consistent_woken [OF Cons.prems(4) this]
  have con: "consistent (states (rt_state rt1)) (queue rt1) bl w b (jr(cur := xs))"
    by (simp add: rt1 st2(2,3) del: fun_upd_apply)
  have "state_ok (rt_state rt1)" "states (rt_state rt1) cur = Some RUNNABLE"
    using rt1 st2(1,2) Cons.prems(3) by simp_all
  from Cons.IH [OF rest this con] obtain st where "rt' = rt1\<lparr>rt_state := st\<rparr>" "state_ok st"
    "dom (states st) = dom (states (rt_state rt1))" "states st cur = Some RUNNABLE"
    "consistent (states st) (scheduled (es_threadScheduler st)) bl w b (jr(cur := []))"
    by blast
  with rt1 st2(2,4) show ?case by (intro exI [of _ st]) (auto simp del: fun_upd_apply)
qed

lemma ret_ok:
  assumes "execute_Ret rt = Inr rt'" and "runtime_ok rt" and "current_runs rt"
  shows "runtime_ok rt'"
proof -
  have sok: "state_ok (rt_state rt)" and con: "tables_ok rt" using assms(2) by (simp_all add: runtime_ok_def)
  from assms(1) obtain t th sf where t: "es_currentThread (rt_state rt) = Some t"
    and th: "thread_at (es_threadList (rt_state rt)) t = Some th" "back_of (th_stack th) = Inr sf"
    and res: "if length (th_stack th) \<le> 1
      then sf_caller sf = None \<and> (\<exists>rt1. fold_outcome (wake_joiner t) (joins (rt_joinRecord rt) t) rt = Inr rt1 \<and>
             on_state (\<lambda>st. swapOutThread st t False False False True) rt1 = Inr rt')
      else \<exists>k st. sf_caller sf = Some k \<and>
             set_thread t (\<lambda>th. th\<lparr>th_stack := butlast (th_stack th), th_pc := Suc k\<rparr>) (rt_state rt) = Inr st \<and>
             rt' = rt\<lparr>rt_state := st\<rparr>"
    by (auto simp: execute_Ret_def joins_def outcome_simps split: if_splits)
  have run: "states (rt_state rt) t = Some RUNNABLE" using current_runs_state [OF assms(3) t] .
  show ?thesis
  proof (cases "length (th_stack th) \<le> 1")
    case True
    with res obtain rt1 st' where loop: "fold_outcome (wake_joiner t) (joins (rt_joinRecord rt) t) rt = Inr rt1"
      and st': "swapOutThread (rt_state rt1) t False False False True = Inr st'" "rt' = rt1\<lparr>rt_state := st'\<rparr>"
      by (auto simp: outcome_simps)
    have "consistent (states (rt_state rt)) (queue rt) (mutex_waiters (rt_mutexes rt)) (cond_waiters (rt_conds rt))
        (blocked_at (rt_barriers rt)) ((joins (rt_joinRecord rt))(t := joins (rt_joinRecord rt) t))"
      using con by (simp add: tables_ok_def)
    from wake_joiners_effect [OF loop sok run this] obtain st where st: "rt1 = rt\<lparr>rt_state := st\<rparr>" "state_ok st"
      "dom (states st) = dom (states (rt_state rt))" "states st t = Some RUNNABLE"
      "consistent (states st) (scheduled (es_threadScheduler st)) (mutex_waiters (rt_mutexes rt))
        (cond_waiters (rt_conds rt)) (blocked_at (rt_barriers rt)) ((joins (rt_joinRecord rt))(t := []))"
      by blast
    from st'(1) st(1) have out: "swapOutThread st t False False False True = Inr st'" by simp
    from swapOutThread_effect [OF out st(2)] have "state_ok st'"
      "states st' = (states st)(t \<mapsto> TERMINATED)"
      "scheduled (es_threadScheduler st') = remove1 t (scheduled (es_threadScheduler st))" by auto
    with consistent_exit [OF st(5,4)] st st'(2) assms(2) show ?thesis
      by (auto simp: runtime_ok_def tables_ok_def ids_ok_def)
  next
    case False
    with res obtain k st where
      s: "set_thread t (\<lambda>th. th\<lparr>th_stack := butlast (th_stack th), th_pc := Suc k\<rparr>) (rt_state rt) = Inr st"
      and rt': "rt' = rt\<lparr>rt_state := st\<rparr>" by auto
    have "quiet (rt_state rt) st" by (rule set_thread_quiet [OF s sok]) auto
    with runtime_ok_quiet [OF assms(2)] rt' show ?thesis by simp
  qed
qed

lemma create_ok:
  assumes "executePThreadCreate h kf rt = Inr rt'" and "runtime_ok rt"
  shows "runtime_ok rt'"
proof -
  have sok: "state_ok (rt_state rt)" and con: "tables_ok rt" and ids: "ids_ok rt"
    using assms(2) by (simp_all add: runtime_ok_def)
  from assms(1) obtain new st nxt t rt1 src dst vc vc' where
    cr: "(if replaying rt
        then bind_outcome (getNextThreadId (the_prefix rt))
               (\<lambda>t. createThread_id (rt_state rt) (rt_nextThreadId rt) kf (ucast t))
        else createThread (rt_state rt) (rt_nextThreadId rt) kf) = Inr (new, st, nxt)"
    and ask: "ask_current h (rt\<lparr>rt_state := st, rt_nextThreadId := nxt\<rparr>) = Inr (t, rt1)"
    and dst: "clock_of (rt_state rt1) new = Inr dst" and cp: "copy_clock src dst = Inr vc"
    and bump: "bump_clock new vc = Inr vc'" and put: "on_state (put_clock new vc') rt1 = Inr rt'"
    unfolding executePThreadCreate_def by (clarsimp simp: bind_eq_Inr_iff)
  have new: "valid_id new \<and> nxt \<noteq> 0 \<and> nxt \<le> 6 \<and> state_ok st \<and> states (rt_state rt) new = None \<and>
      states st = (states (rt_state rt))(new \<mapsto> RUNNABLE) \<and> scheduled (es_threadScheduler st) = queue rt @ [new]"
  proof (cases "replaying rt")
    case True
    with cr obtain p v where p: "rt_prefix rt = Some p" "getNextThreadId p = Inr v"
      and c: "createThread_id (rt_state rt) (rt_nextThreadId rt) kf (ucast v) = Inr (new, st, nxt)"
      by (auto simp: replaying_def the_prefix_def outcome_simps split: option.splits)
    from p(2) have "v \<in> ran (threadIdMap p)"
      by (auto simp: getNextThreadId_def outcome_simps ran_def)
    with ids p(1) have v: "valid_id (ucast v)" by (simp add: ids_ok_def)
    have "nxt = ucast v + 1 \<or> nxt = rt_nextThreadId rt"
      using c by (auto simp: createThread_id_def outcome_simps split: if_splits)
    then have "nxt \<noteq> 0 \<and> nxt \<le> 6" using valid_id_succ [OF v] ids by (auto simp: ids_ok_def)
    with createThread_id_effect [OF c sok] v show ?thesis by (auto simp: queue_def)
  next
    case False
    with cr have c: "createThread (rt_state rt) (rt_nextThreadId rt) kf = Inr (new, st, nxt)" by simp
    have v: "valid_id (rt_nextThreadId rt)"
      using valid_id_pred createThread_effect(2,3) [OF c sok] ids by (simp add: ids_ok_def)
    with valid_id_succ [OF v] createThread_effect [OF c sok] show ?thesis by (auto simp: queue_def)
  qed
  let ?rt = "rt\<lparr>rt_state := st, rt_nextThreadId := nxt\<rparr>"
  have "runtime_ok ?rt"
    using new assms(2) consistent_create [OF con [unfolded tables_ok_def], of new]
    by (auto simp: runtime_ok_def tables_ok_def ids_ok_def queue_def)
  moreover obtain s1 where "rt1 = ?rt\<lparr>rt_state := s1\<rparr>" "es_threadList s1 = es_threadList (rt_state ?rt)"
    "mset (scheduled (es_threadScheduler s1)) = mset (scheduled (es_threadScheduler (rt_state ?rt)))"
    using ask_current_Inr [OF ask] by blast
  ultimately have ok1: "runtime_ok rt1" using runtime_ok_permute [of ?rt s1] by simp
  then have sok1: "state_ok (rt_state rt1)" by (simp add: runtime_ok_def)
  from put obtain s2 where s2: "put_clock new vc' (rt_state rt1) = Inr s2" "rt' = rt1\<lparr>rt_state := s2\<rparr>"
    by (auto simp: outcome_simps)
  have "length vc' = 5"
    using clock_of_length [OF dst sok1] copy_clock_length [OF cp] bump_clock_length [OF bump] by simp
  with put_clock_quiet [OF s2(1) sok1] runtime_ok_quiet [OF ok1] s2(2) show ?thesis by simp
qed

subsection \<open>New synchronisation objects\<close>

lemma define_mutex_ok: "runtime_ok rt \<Longrightarrow> runtime_ok (rt\<lparr>rt_mutexes := snd (addMutex (rt_mutexes rt) n)\<rparr>)"
proof -
  assume ok: "runtime_ok rt"
  let ?mm = "rt_mutexes rt" and ?mm' = "snd (addMutex (rt_mutexes rt) n)"
  have m: "manager_ok ?mm" using ok by (simp add: runtime_ok_def)
  from addMutex_refines [OF m, of n] have m': "manager_ok ?mm'"
    and t: "manager_table ?mm' = snd (spec_add (manager_table ?mm) n)" by auto
  have "mutex_waiters ?mm' = mutex_waiters ?mm" by (simp add: mutex_waiters_def t spec_add_def)
  moreover have "dom (lt_holder (manager_table ?mm)) \<subseteq> dom (lt_holder (manager_table ?mm'))"
    by (auto simp: t spec_add_def)
  with ok have "waiters_ok (rt_conds rt) ?mm'" by (auto simp: runtime_ok_def intro: waiters_ok_mono)
  ultimately show ?thesis using ok m' by (simp add: runtime_ok_def tables_ok_def ids_ok_def)
qed

lemma insert_condition_waiters:
  assumes "(if b then addCondition cm n else addCondition_guided cm n) = Inr (r, cm')"
  shows "waiters cm' = waiters cm"
proof (cases "getCondition cm n")
  case None
  with insert_condition_empty [OF None] assms show ?thesis by (auto split: if_splits)
next
  case (Some c)
  with assms show ?thesis
    by (auto simp: addCondition_def addCondition_guided_def insert_condition_def split: if_splits)
qed

lemma define_cond_ok:
  assumes "add_cond rt n = Inr rt'" and "runtime_ok rt"
  shows "runtime_ok rt'"
proof -
  from assms(1) obtain r cm where
    cm: "(if Option.is_none (rt_prefix rt) then addCondition (rt_conds rt) n else addCondition_guided (rt_conds rt) n) = Inr (r, cm)"
    and rt': "rt' = rt\<lparr>rt_conds := cm\<rparr>"
    by (auto simp: add_cond_def outcome_simps)
  have "waiters cm = waiters (rt_conds rt)" using cm by (rule insert_condition_waiters)
  then have "cond_waiters cm = cond_waiters (rt_conds rt)" "waiters_ok cm (rt_mutexes rt)"
    using assms(2) by (auto simp: cond_waiters_def fun_eq_iff waiters_ok_def runtime_ok_def)
  with assms(2) rt' show ?thesis by (simp add: runtime_ok_def tables_ok_def ids_ok_def)
qed

lemma define_barrier_ok: "runtime_ok rt \<Longrightarrow> runtime_ok (rt\<lparr>rt_barriers := snd (addBarrier (rt_barriers rt) n)\<rparr>)"
proof -
  assume ok: "runtime_ok rt"
  have "blocked_at (snd (addBarrier (rt_barriers rt) n)) = blocked_at (rt_barriers rt)"
    by (auto simp: addBarrier_def blocked_at_def map_insert_def Barrier_def fun_eq_iff split: option.splits)
  with ok show ?thesis by (simp add: runtime_ok_def tables_ok_def ids_ok_def)
qed

text \<open>Together: an instruction of a thread that can run keeps the invariant.\<close>

lemma executeInstruction_ok:
  assumes "executeInstruction h a rt = Inr rt'" and "runtime_ok rt" and "current_runs rt"
  shows "runtime_ok rt'"
  using assms
  by (cases a) (auto simp: executePThreadBarrierDestory_def lock_ok unlock_ok cond_wait_ok signal_ok broadcast_ok
      barrier_init_ok barrier_wait_ok_state join_ok ret_ok create_ok define_mutex_ok define_cond_ok define_barrier_ok)

end
