(* ===== verification/Runtime_Runs.thy ===== *)
theory Runtime_Runs
  imports Runtime_Invariant
begin

text \<open>
  Runs of the interpreter: the choice of the next thread keeps the invariant, so it holds in every
  state that can be reached; the loop over blocked threads ends exactly when some thread can go on.
\<close>

section \<open>Choosing a thread keeps the invariant\<close>

lemma tryToLock_waiters:
  assumes "manager_ok mm" and "tryToLockForBlockedThread mm t = Inr (Inr b, mm')"
  shows "manager_ok mm'" and "mutex_waiters mm' = (if b then mutex_waiters mm else mutex_waiters mm - {t})"
    and "dom (lt_holder (manager_table mm')) = dom (lt_holder (manager_table mm))" and "t \<in> mutex_waiters mm"
proof -
  have s: "manager_ok mm'" "spec_try (manager_table mm) t = (Inr b, manager_table mm')"
    using tryToLock_refines [OF assms(1), of t] assms(2) by auto
  then show "manager_ok mm'" by simp
  from s(2) obtain n where n: "lt_blocked (manager_table mm) t = Some n"
    and l: "spec_lock (manager_table mm) n t = (Inr b, manager_table mm')"
    by (auto simp: spec_try_def split: option.splits)
  then show "t \<in> mutex_waiters mm" by (auto simp: mutex_waiters_def)
  from l have t': "manager_table mm' = snd (spec_lock (manager_table mm) n t)"
    and b: "Inr b = fst (spec_lock (manager_table mm) n t)" by simp_all
  show "mutex_waiters mm' = (if b then mutex_waiters mm else mutex_waiters mm - {t})"
    "dom (lt_holder (manager_table mm')) = dom (lt_holder (manager_table mm))"
    using b n unfolding mutex_waiters_def t' by (auto simp: spec_lock_def split: option.split_asm)
qed

lemma tryToLock_runtime_ok:
  assumes "tryToLockForBlockedThread (rt_mutexes rt) t = Inr (Inr True, mm)" and "runtime_ok rt"
  shows "runtime_ok (rt\<lparr>rt_mutexes := mm\<rparr>)"
proof -
  have m: "manager_ok (rt_mutexes rt)" "waiters_ok (rt_conds rt) (rt_mutexes rt)"
    using assms(2) by (simp_all add: runtime_ok_def)
  note tw = tryToLock_waiters [OF m(1) assms(1)]
  have "waiters_ok (rt_conds rt) mm" using waiters_ok_mono [OF m(2)] tw(3) by simp
  with tw assms(2) show ?thesis by (simp add: runtime_ok_def tables_ok_def ids_ok_def)
qed

lemma tryToLock_acquired:
  assumes "tryToLockForBlockedThread (rt_mutexes rt) t = Inr (Inr False, mm)" and "runtime_ok rt"
    and "switchThreadToRunnable (rt_state rt) t = Inr st"
  shows "runtime_ok (rt\<lparr>rt_mutexes := mm, rt_state := st\<rparr>)" and "states st t = Some RUNNABLE"
    and "es_currentThread st = es_currentThread (rt_state rt)"
proof -
  have m: "manager_ok (rt_mutexes rt)" "waiters_ok (rt_conds rt) (rt_mutexes rt)" "state_ok (rt_state rt)"
    and con: "tables_ok rt"
    using assms(2) by (simp_all add: runtime_ok_def)
  note tw = tryToLock_waiters [OF m(1) assms(1)]
  note eff = switchThreadToRunnable_effect [OF assms(3) m(3)]
  have w: "waiters_ok (rt_conds rt) mm" using waiters_ok_mono [OF m(2)] tw(3) by simp
  have "consistent (states st) (queue rt) (mutex_waiters mm) (cond_waiters (rt_conds rt))
      (blocked_at (rt_barriers rt)) (joins (rt_joinRecord rt))"
    using consistent_lock_taken [OF con [unfolded tables_ok_def], of t] eff tw(2) by simp
  with eff w tw(1) assms(2) show "runtime_ok (rt\<lparr>rt_mutexes := mm, rt_state := st\<rparr>)"
    by (auto simp: runtime_ok_def tables_ok_def ids_ok_def queue_def)
  show "states st t = Some RUNNABLE" "es_currentThread st = es_currentThread (rt_state rt)" using eff by simp_all
qed

lemma next_thread_ok:
  assumes "next_thread h rt = Inr (t, rt')" and "runtime_ok rt"
  shows "runtime_ok rt'" and "es_currentThread (rt_state rt') = Some t"
    and "states (rt_state rt') = states (rt_state rt)"
proof -
  obtain st where st: "rt' = rt\<lparr>rt_state := st\<rparr>" "es_threadList st = es_threadList (rt_state rt)"
    "mset (scheduled (es_threadScheduler st)) = mset (scheduled (es_threadScheduler (rt_state rt)))"
    "es_currentThread st = Some t"
    using next_thread_Inr [OF assms(1)] by blast
  show "runtime_ok rt'" unfolding st(1) by (rule runtime_ok_permute [OF assms(2) st(2,3)])
  show "es_currentThread (rt_state rt') = Some t" "states (rt_state rt') = states (rt_state rt)"
    using st states_cong [OF st(2)] by simp_all
qed

lemma reSchedule_ok:
  assumes "on_state ExecutionState_reSchedule rt = Inr rt'" and "runtime_ok rt"
  shows "runtime_ok rt'" and "states (rt_state rt') = states (rt_state rt)"
proof -
  from assms(1) obtain s where s: "Thread_reSchedule (es_threadScheduler (rt_state rt)) = Inr s"
    "rt' = rt\<lparr>rt_state := (rt_state rt)\<lparr>es_threadScheduler := s\<rparr>\<rparr>"
    by (auto simp: ExecutionState_reSchedule_def outcome_simps)
  with Thread_reSchedule_mset [OF s(1)] runtime_ok_permute [OF assms(2)] show "runtime_ok rt'" by simp
  from s(2) show "states (rt_state rt') = states (rt_state rt)" by (simp add: states_def)
qed

lemma state_of_Inr: "state_of rt t = Inr s \<longleftrightarrow> states (rt_state rt) t = Some s"
  by (auto simp: state_of_def states_def outcome_simps)

text \<open>A thread that is reported able to run is the current one, and can run.\<close>

definition chosen_ok :: "bool \<Rightarrow> uint \<Rightarrow> runtime \<Rightarrow> bool" where
  "chosen_ok able t rt \<longleftrightarrow> runtime_ok rt \<and>
     (able \<longrightarrow> es_currentThread (rt_state rt) = Some t \<and> states (rt_state rt) t = Some RUNNABLE)"

lemma lock_loop_ok:
  "lock_loop n h origin t rt = Some (Inr (able, t', rt')) \<Longrightarrow> runtime_ok rt \<Longrightarrow>
     es_currentThread (rt_state rt) = Some t \<Longrightarrow> chosen_ok able t' rt'"
proof (induction n arbitrary: t rt)
  case 0
  then show ?case by simp
next
  case (Suc n)
  obtain b mm where attempt: "tryToLockForBlockedThread (rt_mutexes rt) t = Inr (Inr b, mm)"
    using Suc.prems(1) by (auto simp: Let_def split: sum.splits prod.splits)
  let ?rt = "rt\<lparr>rt_mutexes := mm\<rparr>"
  show ?case
  proof (cases b)
    case False
    with Suc.prems(1) attempt obtain rt2 where sw: "on_state (\<lambda>st. switchThreadToRunnable st t) ?rt = Inr rt2"
      and res: "able" "t' = t" "rt' = rt2" by (auto simp: Let_def split: sum.splits)
    from sw obtain st where "switchThreadToRunnable (rt_state rt) t = Inr st" "rt2 = ?rt\<lparr>rt_state := st\<rparr>"
      by (auto simp: outcome_simps)
    with tryToLock_acquired [of rt t mm st] False attempt Suc.prems(2,3) res show ?thesis by (simp add: chosen_ok_def)
  next
    case True
    have ok: "runtime_ok ?rt" using tryToLock_runtime_ok attempt True Suc.prems(2) by simp
    show ?thesis
    proof (cases "replaying ?rt")
      case True': True
      with Suc.prems(1) attempt True ok show ?thesis by (auto simp: Let_def chosen_ok_def)
    next
      case False
      then obtain t1 rt1 where nx: "bind_outcome (on_state ExecutionState_reSchedule ?rt) (next_thread h) = Inr (t1, rt1)"
        using Suc.prems(1) attempt True by (auto simp: Let_def split: sum.splits)
      then obtain rt0 where rs: "on_state ExecutionState_reSchedule ?rt = Inr rt0" "next_thread h rt0 = Inr (t1, rt1)"
        by (auto simp: outcome_simps)
      have ok1: "runtime_ok rt1" "es_currentThread (rt_state rt1) = Some t1"
        using next_thread_ok [OF rs(2)] reSchedule_ok [OF rs(1) ok] by simp_all
      obtain s where s: "state_of rt1 t1 = Inr s"
        using Suc.prems(1) attempt True False nx by (auto simp: Let_def split: sum.splits)
      show ?thesis
      proof (cases "s = RUNNABLE")
        case run: True
        then show ?thesis using Suc.prems(1) attempt True False nx s ok1 by (auto simp: Let_def chosen_ok_def state_of_Inr)
      next
        case norun: False
        then have "lock_loop n h origin t1 rt1 = Some (Inr (able, t', rt'))"
          using Suc.prems(1) attempt True False nx s by (simp add: Let_def)
        then show ?thesis using Suc.IH ok1 by blast
      qed
    qed
  qed
qed

lemma select_thread_ok:
  assumes "select_thread n h rt = Some (Inr (able, t, rt'))" and "runtime_ok rt"
  shows "chosen_ok able t rt'"
proof -
  obtain u rt1 where nx: "next_thread h rt = Inr (u, rt1)"
    using assms(1) by (auto simp: select_thread_def split: sum.splits)
  obtain s where s: "state_of rt1 u = Inr s"
    using assms(1) nx by (auto simp: select_thread_def split: sum.splits)
  note ok = next_thread_ok [OF nx assms(2)]
  show ?thesis
  proof (cases "s = MUTEX_BLOCKED")
    case True
    then have "lock_loop n h u u rt1 = Some (Inr (able, t, rt'))"
      using assms(1) nx s by (simp add: select_thread_def)
    then show ?thesis using lock_loop_ok ok(1,2) by blast
  next
    case False
    then show ?thesis
      using assms(1) nx s ok by (auto simp: select_thread_def chosen_ok_def state_of_Inr split: if_splits)
  qed
qed



section \<open>Rounds and reachable states\<close>

lemma stepInstruction_ok:
  assumes "stepInstruction rt = Inr rt'" and "runtime_ok rt" and "current_runs rt"
  shows "runtime_ok rt'" and "current_runs rt'"
proof -
  from assms(1) obtain t st where
    st: "set_thread t (\<lambda>th. th\<lparr>th_prevPC := th_pc th, th_pc := Suc (th_pc th)\<rparr>) (rt_state rt) = Inr st"
    and rt': "rt' = rt\<lparr>rt_state := st\<rparr>"
    by (auto simp: stepInstruction_def outcome_simps)
  have q: "quiet (rt_state rt) st"
    by (rule set_thread_quiet [OF st]) (use assms(2) in \<open>auto simp: runtime_ok_def\<close>)
  with runtime_ok_quiet [OF assms(2)] rt' show "runtime_ok rt'" by simp
  from q rt' assms(3) show "current_runs rt'" by (simp add: current_runs_def quiet_def)
qed

lemma prefix_step_ok:
  "runtime_ok rt \<Longrightarrow> runtime_ok (rt\<lparr>rt_prefix := map_option increase (rt_prefix rt)\<rparr>)"
  by (auto simp: runtime_ok_def tables_ok_def ids_ok_def queue_def increase_def)

lemma status_ok: "runtime_ok rt \<Longrightarrow> runtime_ok (rt\<lparr>rt_execStatus := s\<rparr>)"
  by (simp add: runtime_ok_def tables_ok_def ids_ok_def queue_def)

definition after_round :: "round \<Rightarrow> runtime" where
  "after_round r = (case r of Stop rt \<Rightarrow> rt | Continue rt \<Rightarrow> rt)"

lemma finish_round_ok:
  assumes "finish_round rt = Inr r" and "runtime_ok rt"
  shows "runtime_ok (after_round r)"
  using assms(1) prefix_step_ok [OF assms(2)] status_ok
  by (auto simp: finish_round_def Let_def after_round_def outcome_simps split: if_splits)

lemma run_chosen_ok:
  assumes "run_chosen h program t rt = Inr r" and "runtime_ok rt" and "current_runs rt"
  shows "runtime_ok (after_round r)"
proof -
  from assms(1) consider "r = Stop (rt\<lparr>rt_execStatus := IGNOREDERROR\<rparr>)"
    | rt1 a rt2 where "stepInstruction rt = Inr rt1" "executeInstruction h a rt1 = Inr rt2" "finish_round rt2 = Inr r"
    by (auto simp: run_chosen_def Let_def outcome_simps split: if_splits)
  then show ?thesis
  proof cases
    case 1
    then show ?thesis using status_ok [OF assms(2)] by (simp add: after_round_def)
  next
    case 2
    then show ?thesis
      using stepInstruction_ok [OF 2(1) assms(2,3)] executeInstruction_ok finish_round_ok by blast
  qed
qed

lemma run_round_ok:
  assumes "run_round fuel h program rt = Some (Inr r)" and "runtime_ok rt"
  shows "runtime_ok (after_round r)"
proof -
  obtain able t rt1 where sel: "select_thread fuel h rt = Some (Inr (able, t, rt1))"
    using assms(1) by (auto simp: run_round_def split: option.splits sum.splits)
  note ok = select_thread_ok [OF sel assms(2), unfolded chosen_ok_def]
  show ?thesis
  proof (cases able)
    case True
    then have "run_chosen h program t rt1 = Inr r" using assms(1) sel by (simp add: run_round_def)
    with run_chosen_ok ok True show ?thesis by (auto simp: current_runs_def)
  next
    case False
    then have "r = Stop (rt1\<lparr>rt_execStatus := RUNTIMEERROR\<rparr>)" using assms(1) sel by (simp add: run_round_def)
    with status_ok ok show ?thesis by (simp add: after_round_def)
  qed
qed

text \<open>
  The states at the head of the interpreter's loop, for any program, from the state that
  \<open>runFunctionAsMain\<close> builds.
\<close>

inductive reachable :: "event_heap \<Rightarrow> (kinst \<Rightarrow> runtime \<Rightarrow> action) \<Rightarrow> runtime \<Rightarrow> runtime \<Rightarrow> bool"
  for h program rt0 where
  start: "reachable h program rt0 rt0"
| round: "reachable h program rt0 rt \<Longrightarrow> run_round fuel h program rt = Some (Inr (Continue rt')) \<Longrightarrow>
    reachable h program rt0 rt'"

lemma reachable_ok: "reachable h program rt0 rt \<Longrightarrow> runtime_ok rt0 \<Longrightarrow> runtime_ok rt"
  by (induction rule: reachable.induct) (auto dest!: run_round_ok simp: after_round_def)

definition fresh_runtime :: "prefix option \<Rightarrow> exec_state \<Rightarrow> runtime" where
  "fresh_runtime p st =
     \<lparr>rt_state = st, rt_mutexes = new_MutexManager, rt_conds = new_CondManager, rt_barriers = Map.empty,
      rt_joinRecord = Map.empty, rt_prefix = p, rt_nextThreadId = 1, rt_execStatus = SUCCESS\<rparr>"

lemma start_state_effect:
  assumes "start_state sched 1 kf = Inr (st, n)" and "scheduled sched = []"
  shows "n = 2" and "state_ok st" and "states st = [1 \<mapsto> RUNNABLE]" and "scheduled (es_threadScheduler st) = [1]"
proof -
  let ?th = "new_Thread 1 None kf"
  have th: "th_threadId ?th = 1" "th_threadState ?th = RUNNABLE" "length (th_vectorClock ?th) = 5"
    by (simp_all add: new_Thread_def pushFrame_def)
  from assms obtain l where l: "addThread new_ThreadList ?th = Inr l" and n: "n = 2"
    and st: "st = \<lparr>es_threadList = l, es_threadScheduler = Thread_addItem sched 1, es_currentThread = Some 1\<rparr>"
    by (auto simp: start_state_def Thread_getNextThreadId_def Let_def outcome_simps)
  have "thread_at new_ThreadList = Map.empty"
    by (auto simp: thread_at_def new_ThreadList_def fun_eq_iff)
  then have at: "thread_at l = [1 \<mapsto> ?th]" using addThread_at(2) [OF l] th(1) by simp
  have "threads_ok l" by (rule addThread_ok [OF l threads_ok_new])
  with at th st assms(2) n show "n = 2" "state_ok st" "states st = [1 \<mapsto> RUNNABLE]"
    "scheduled (es_threadScheduler st) = [1]"
    by (auto simp: state_ok_def states_def fun_eq_iff)
qed

lemma start_execution_ok:
  assumes "start_execution kf (fresh_runtime p st0) = Inr rt"
    and "\<And>q. p = Some q \<Longrightarrow> \<forall>v\<in>ran (threadIdMap q). valid_id (ucast v)"
  shows "runtime_ok rt"
proof -
  obtain sched st n where s: "start_state sched 1 kf = Inr (st, n)" "scheduled sched = []"
    and rt: "rt = (fresh_runtime p st0)\<lparr>rt_state := st, rt_nextThreadId := n\<rparr>"
    using assms(1)
    by (fastforce simp: start_execution_def fresh_runtime_def new_ExecutionState_def new_ExecutionState_prefix_def
        new_GuidedThreadScheduler_def outcome_simps split: if_splits)
  note eff = start_state_effect [OF s]
  have "consistent [1 \<mapsto> RUNNABLE] [1] {} (\<lambda>_. []) (\<lambda>_. []) (\<lambda>_. [])"
    by (auto simp: consistent_def partitioned_def live_joins_def split: if_splits)
  moreover have "waiters new_CondManager = (\<lambda>_. [])" by (simp add: waiters_def new_CondManager_def fun_eq_iff)
  moreover have "mutex_waiters new_MutexManager = {}"
    by (simp add: mutex_waiters_def manager_table_def new_MutexManager_def)
  moreover have "cond_waiters new_CondManager = (\<lambda>_. [])" "blocked_at Map.empty = (\<lambda>_. [])" "joins Map.empty = (\<lambda>_. [])"
    by (simp_all add: cond_waiters_def waiters_def new_CondManager_def blocked_at_def joins_def fun_eq_iff)
  ultimately show ?thesis
    using eff rt assms(2)
    by (auto simp: runtime_ok_def tables_ok_def ids_ok_def fresh_runtime_def queue_def waiters_ok_def valid_id_def)
qed



section \<open>When the loop over blocked threads ends\<close>

text \<open>
  The default configuration: a first-in-first-served queue, possibly behind a prefix that has
  been replayed.
\<close>

definition serves_front :: "runtime \<Rightarrow> uint list \<Rightarrow> bool" where
  "serves_front rt q \<longleftrightarrow> \<not> replaying rt \<and>
     (es_threadScheduler (rt_state rt) = FIFSThreadScheduler q \<or>
      es_threadScheduler (rt_state rt) = GuidedThreadScheduler (FIFSThreadScheduler q))"

text \<open>A thread can go on when it is runnable or the mutex it waits for is free.\<close>

definition can_proceed :: "runtime \<Rightarrow> uint \<Rightarrow> bool" where
  "can_proceed rt t \<longleftrightarrow>
     states (rt_state rt) t = Some RUNNABLE \<or>
     (states (rt_state rt) t = Some MUTEX_BLOCKED \<and>
      (\<exists>n. lt_blocked (manager_table (rt_mutexes rt)) t = Some n \<and>
           lt_holder (manager_table (rt_mutexes rt)) n = Some None))"

lemma serves_front_queue: "serves_front rt q \<Longrightarrow> queue rt = q"
  by (auto simp: serves_front_def queue_def)

lemma not_replaying_finished: "\<not> replaying rt \<Longrightarrow> isFinished (the_prefix rt)"
  by (auto simp: replaying_def the_prefix_def isFinished_def Prefix_def split: option.splits)

lemma next_thread_front:
  assumes "serves_front rt (t # q)"
  shows "next_thread h rt = Inr (t, rt\<lparr>rt_state := (rt_state rt)\<lparr>es_currentThread := Some t\<rparr>\<rparr>)"
proof -
  have "isFinished (the_prefix rt)" using assms not_replaying_finished by (simp add: serves_front_def)
  then have sel: "Thread_selectNextItem h (the_prefix rt) (find_in (rt_state rt)) (es_threadScheduler (rt_state rt)) =
      Inr (t, es_threadScheduler (rt_state rt))"
    and ne: "scheduled (es_threadScheduler (rt_state rt)) \<noteq> []"
    using assms by (auto simp: serves_front_def FIFSThread_selectNextItem_def)
  have "(rt_state rt)\<lparr>es_threadScheduler := es_threadScheduler (rt_state rt)\<rparr> = rt_state rt" by simp
  with sel ne show ?thesis by (simp add: next_thread_def getNextThread_def)
qed

lemma reSchedule_front:
  assumes "serves_front rt (t # q)"
  shows "\<exists>rt'. on_state ExecutionState_reSchedule rt = Inr rt' \<and> serves_front rt' (q @ [t]) \<and>
    states (rt_state rt') = states (rt_state rt) \<and> rt_mutexes rt' = rt_mutexes rt"
  using assms
  by (auto simp: serves_front_def ExecutionState_reSchedule_def FIFSThread_reSchedule_def on_state_def
      replaying_def states_def)

text \<open>Trying a mutex that is held changes nothing.\<close>

lemma tryToLock_held:
  assumes "manager_ok mm" and "lt_blocked (manager_table mm) t = Some n"
    and "lt_holder (manager_table mm) n \<noteq> Some None"
  shows "tryToLockForBlockedThread mm t = Inr (Inr True, mm)"
proof -
  from assms(2) have "mm_blockedThreadPool mm t \<noteq> None"
    by (simp add: table_not_blocked [OF assms(1), symmetric])
  then obtain p where p: "mm_blockedThreadPool mm t = Some p" by blast
  with manager_okD(5) [OF assms(1)] obtain mx where mx: "mm_store mm p = Some mx" by blast
  with table_blocked [OF p mx] assms(2) have "mx_name mx = n" by simp
  with table_holder [OF assms(1) mx] assms(3) have "mx_isLocked mx" by (auto simp: holder_of_def split: if_splits)
  moreover have "map_insert t p (mm_blockedThreadPool mm) = mm_blockedThreadPool mm"
    using p by (simp add: map_insert_def)
  ultimately show ?thesis
    using p mx by (simp add: tryToLockForBlockedThread_def mutex_lock_def deref_mutex_def)
qed

lemma tryToLock_free:
  assumes "manager_ok mm" and "lt_blocked (manager_table mm) t = Some n"
    and "lt_holder (manager_table mm) n = Some None"
  shows "\<exists>mm'. tryToLockForBlockedThread mm t = Inr (Inr False, mm')"
  using tryToLock_refines [OF assms(1), of t] assms(2,3) by (auto simp: spec_try_def spec_lock_def)

lemma blocked_waits:
  assumes "runtime_ok rt" and "states (rt_state rt) t = Some MUTEX_BLOCKED"
  obtains n where "lt_blocked (manager_table (rt_mutexes rt)) t = Some n"
proof -
  have "t \<in> mutex_waiters (rt_mutexes rt)"
    using assms consistent_state(2) by (fastforce simp: runtime_ok_def tables_ok_def)
  then show ?thesis using that by (auto simp: mutex_waiters_def)
qed

text \<open>A round in which the thread at the front cannot go on moves it to the back.\<close>

lemma lock_loop_blocked:
  assumes "runtime_ok rt" and "serves_front rt (t # q)" and "states (rt_state rt) t = Some MUTEX_BLOCKED"
    and "\<not> can_proceed rt t"
  shows "\<exists>rt' u q'. q @ [t] = u # q' \<and> runtime_ok rt' \<and> serves_front rt' (q @ [t]) \<and>
    states (rt_state rt') = states (rt_state rt) \<and> rt_mutexes rt' = rt_mutexes rt \<and>
    (\<forall>n origin. lock_loop (Suc n) h origin t rt =
       (if states (rt_state rt) u = Some RUNNABLE then Some (Inr (True, u, rt')) else lock_loop n h origin u rt'))"
proof -
  obtain m where m: "lt_blocked (manager_table (rt_mutexes rt)) t = Some m"
    using blocked_waits [OF assms(1,3)] .
  have "manager_ok (rt_mutexes rt)" using assms(1) by (simp add: runtime_ok_def)
  moreover have "lt_holder (manager_table (rt_mutexes rt)) m \<noteq> Some None"
    using assms(3,4) m by (auto simp: can_proceed_def)
  ultimately have attempt: "tryToLockForBlockedThread (rt_mutexes rt) t = Inr (Inr True, rt_mutexes rt)"
    using tryToLock_held m by blast
  have same: "rt\<lparr>rt_mutexes := rt_mutexes rt\<rparr> = rt" by simp
  obtain rt0 where rt0: "on_state ExecutionState_reSchedule rt = Inr rt0" "serves_front rt0 (q @ [t])"
    "states (rt_state rt0) = states (rt_state rt)" "rt_mutexes rt0 = rt_mutexes rt"
    using reSchedule_front [OF assms(2)] by blast
  obtain u q' where u: "q @ [t] = u # q'" by (cases q) auto
  let ?rt = "rt0\<lparr>rt_state := (rt_state rt0)\<lparr>es_currentThread := Some u\<rparr>\<rparr>"
  have nx: "next_thread h rt0 = Inr (u, ?rt)" using next_thread_front rt0(2) u by simp
  have ok: "runtime_ok ?rt" using next_thread_ok(1) [OF nx] reSchedule_ok(1) [OF rt0(1) assms(1)] by simp
  have sf: "serves_front ?rt (q @ [t])" using rt0(2) by (simp add: serves_front_def replaying_def)
  have st: "states (rt_state ?rt) = states (rt_state rt)" using rt0(3) by (simp add: states_def)
  have "u \<in> set (queue ?rt)" using u serves_front_queue [OF sf] by simp
  with ok consistent_state(1) have "states (rt_state ?rt) u \<noteq> None"
    by (fastforce simp: runtime_ok_def tables_ok_def)
  then obtain s where s: "states (rt_state rt) u = Some s" using st by auto
  then have so: "state_of ?rt u = Inr s" using st by (simp add: state_of_Inr)
  have "\<not> replaying rt" using assms(2) by (simp add: serves_front_def)
  then have "lock_loop (Suc n) h origin t rt =
      (if states (rt_state rt) u = Some RUNNABLE then Some (Inr (True, u, ?rt)) else lock_loop n h origin u ?rt)"
    for n origin
    using attempt rt0(1) nx so s by (simp add: Let_def same)
  with u ok sf st rt0(4) show ?thesis by (intro exI [of _ ?rt] exI [of _ u] exI [of _ q']) simp
qed

lemma can_proceed_cong:
  "states (rt_state rt') = states (rt_state rt) \<Longrightarrow> rt_mutexes rt' = rt_mutexes rt \<Longrightarrow>
     can_proceed rt' t = can_proceed rt t"
  by (simp add: can_proceed_def)

lemma queue_schedulable:
  assumes "runtime_ok rt" and "serves_front rt q" and "t \<in> set q"
  shows "states (rt_state rt) t = Some RUNNABLE \<or> states (rt_state rt) t = Some MUTEX_BLOCKED"
  using assms consistent_state(1) serves_front_queue [OF assms(2)] by (fastforce simp: runtime_ok_def tables_ok_def)

lemma lock_loop_never_ends:
  "runtime_ok rt \<Longrightarrow> serves_front rt (t # q) \<Longrightarrow> \<forall>u\<in>set (t # q). \<not> can_proceed rt u \<Longrightarrow>
     lock_loop n h origin t rt = None"
proof (induction n arbitrary: rt t q)
  case 0
  then show ?case by simp
next
  case (Suc n)
  have blocked: "states (rt_state rt) u = Some MUTEX_BLOCKED" if "u \<in> set (t # q)" for u
    using queue_schedulable [OF Suc.prems(1,2) that] Suc.prems(3) that by (auto simp: can_proceed_def)
  have "\<not> can_proceed rt t" using Suc.prems(3) by simp
  from lock_loop_blocked [OF Suc.prems(1,2) blocked this, of h] obtain rt' u q' where
    u: "q @ [t] = u # q'" "runtime_ok rt'" "serves_front rt' (q @ [t])"
    "states (rt_state rt') = states (rt_state rt)" "rt_mutexes rt' = rt_mutexes rt"
    "\<And>n origin. lock_loop (Suc n) h origin t rt =
       (if states (rt_state rt) u = Some RUNNABLE then Some (Inr (True, u, rt')) else lock_loop n h origin u rt')"
    by auto
  have mem: "set (u # q') = set (t # q)" using arg_cong [OF u(1), of set] by simp
  then have "u \<in> set (t # q)" by auto
  with blocked have "states (rt_state rt) u = Some MUTEX_BLOCKED" by blast
  moreover have "\<forall>v\<in>set (u # q'). \<not> can_proceed rt' v"
    unfolding mem can_proceed_cong [OF u(4,5)] using Suc.prems(3) .
  ultimately show ?case using u(6) [of n origin] Suc.IH [of rt' u q'] u(1,2,3) by simp
qed

lemma lock_loop_ends:
  "runtime_ok rt \<Longrightarrow> serves_front rt (t # q) \<Longrightarrow> states (rt_state rt) t = Some MUTEX_BLOCKED \<Longrightarrow>
     \<exists>u\<in>set (t # q). can_proceed rt u \<Longrightarrow> length (takeWhile (\<lambda>u. \<not> can_proceed rt u) (t # q)) < n \<Longrightarrow>
     \<exists>u rt'. lock_loop n h origin t rt = Some (Inr (True, u, rt'))"
proof (induction n arbitrary: rt t q)
  case 0
  then show ?case by simp
next
  case (Suc n)
  show ?case
  proof (cases "can_proceed rt t")
    case True
    with Suc.prems(3) obtain m where m: "lt_blocked (manager_table (rt_mutexes rt)) t = Some m"
      "lt_holder (manager_table (rt_mutexes rt)) m = Some None" by (auto simp: can_proceed_def)
    have "manager_ok (rt_mutexes rt)" using Suc.prems(1) by (simp add: runtime_ok_def)
    with tryToLock_free m obtain mm where mm: "tryToLockForBlockedThread (rt_mutexes rt) t = Inr (Inr False, mm)"
      by blast
    from Suc.prems(3) obtain th where th: "thread_at (es_threadList (rt_state rt)) t = Some th"
      "th_threadState th = MUTEX_BLOCKED" by (auto simp: states_Some)
    then have "\<exists>st. switchThreadToRunnable (rt_state rt) t = Inr st"
      by (auto simp: switchThreadToRunnable_def outcome_simps update_thread_Inr isMutexBlocked_def)
    with mm show ?thesis by (auto simp: Let_def on_state_def)
  next
    case False
    from lock_loop_blocked [OF Suc.prems(1,2,3) False, of h] obtain rt' u q' where
      u: "q @ [t] = u # q'" "runtime_ok rt'" "serves_front rt' (q @ [t])"
      "states (rt_state rt') = states (rt_state rt)" "rt_mutexes rt' = rt_mutexes rt"
      "\<And>n origin. lock_loop (Suc n) h origin t rt =
         (if states (rt_state rt) u = Some RUNNABLE then Some (Inr (True, u, rt')) else lock_loop n h origin u rt')"
      by auto
    show ?thesis
    proof (cases "states (rt_state rt) u = Some RUNNABLE")
      case True
      with u(6) show ?thesis by simp
    next
      case no: False
      have cp: "can_proceed rt' v = can_proceed rt v" for v by (rule can_proceed_cong [OF u(4,5)])
      have "u \<in> set (q @ [t])" using u(1) by simp
      with queue_schedulable [OF u(2,3)] u(4) no have blk: "states (rt_state rt') u = Some MUTEX_BLOCKED" by auto
      have ex: "\<exists>v\<in>set q. can_proceed rt v" using Suc.prems(4) False by auto
      then obtain v where v: "v \<in> set q" "can_proceed rt v" by blast
      then have "takeWhile (\<lambda>v. \<not> can_proceed rt v) (q @ [t]) = takeWhile (\<lambda>v. \<not> can_proceed rt v) q"
        using takeWhile_append1 [of v q "\<lambda>v. \<not> can_proceed rt v"] by simp
      with Suc.prems(5) False have "length (takeWhile (\<lambda>v. \<not> can_proceed rt' v) (u # q')) < n"
        by (simp add: u(1) [symmetric] cp)
      moreover have "\<exists>v\<in>set (u # q'). can_proceed rt' v" using ex by (auto simp: u(1) [symmetric] cp)
      ultimately show ?thesis using Suc.IH [of rt' u q'] u blk no by auto
    qed
  qed
qed



section \<open>Properties\<close>

text \<open>
  (C2) The runtime's tables agree in every reachable state, whatever program runs: the scheduler
  holds each runnable or mutex-blocked thread once and no other; the mutex manager's pool of blocked
  threads is the set of mutex-blocked threads; every thread blocked at a condition variable, at a
  barrier or in a join is in exactly one waiting list of that kind, once; and no other thread is.
\<close>

theorem runtime_tables_agree:
  assumes "\<And>q. p = Some q \<Longrightarrow> \<forall>v\<in>ran (threadIdMap q). valid_id (ucast v)"
    and "start_execution kf (fresh_runtime p st0) = Inr rt0" and "reachable h program rt0 rt"
  shows "tables_ok rt"
  using reachable_ok [OF assms(3) start_execution_ok [OF assms(2,1)]] by (simp add: runtime_ok_def)

definition main_function :: kfunction where
  "main_function = \<lparr>kf_instructions = 0, kf_numRegisters = 0\<rparr>"

definition no_state :: exec_state where
  "no_state = \<lparr>es_threadList = new_ThreadList, es_threadScheduler = FIFSThreadScheduler [], es_currentThread = None\<rparr>"

definition main_state :: exec_state where
  "main_state =
     \<lparr>es_threadList =
        \<lparr>tl_allThreads = (replicate 20 None)[1 := Some (new_Thread 1 None main_function)], tl_index = [1],
         tl_threadNum = 1\<rparr>,
      es_threadScheduler = FIFSThreadScheduler [1], es_currentThread = Some 1\<rparr>"

lemma start_main:
  "start_execution main_function (fresh_runtime None no_state) =
     Inr ((fresh_runtime None main_state)\<lparr>rt_nextThreadId := 2\<rparr>)"
proof -
  have "addThread new_ThreadList (new_Thread 1 None main_function) = Inr (es_threadList main_state)"
    by (simp add: addThread_def new_ThreadList_def new_Thread_def pushFrame_def at_index_def main_state_def)
  then show ?thesis
    by (simp add: start_execution_def fresh_runtime_def new_ExecutionState_def start_state_def main_state_def
        Thread_getNextThreadId_def Let_def FIFSThread_addItem_def)
qed

theorem runtime_tables_agree_witness:
  "tables_ok ((fresh_runtime None main_state)\<lparr>rt_nextThreadId := 2\<rparr>)"
  using runtime_tables_agree [OF _ start_main reachable.start] by simp

text \<open>
  (C19) The interpreter's search for a thread to run, in its default configuration: if some
  scheduled thread can go on, the search finds such a thread within one round over the queue.
\<close>

theorem select_thread_finds_thread:
  assumes "runtime_ok rt" and "serves_front rt q" and "\<exists>t\<in>set q. can_proceed rt t"
  shows "\<exists>t rt'. select_thread (length q) h rt = Some (Inr (True, t, rt')) \<and> runtime_ok rt' \<and>
    states (rt_state rt') t = Some RUNNABLE"
proof -
  obtain t q' where q: "q = t # q'" using assms(3) by (cases q) auto
  let ?rt = "rt\<lparr>rt_state := (rt_state rt)\<lparr>es_currentThread := Some t\<rparr>\<rparr>"
  have nx: "next_thread h rt = Inr (t, ?rt)" using next_thread_front assms(2) q by simp
  have ok: "runtime_ok ?rt" using next_thread_ok(1) [OF nx assms(1)] .
  have sf: "serves_front ?rt (t # q')" using assms(2) q by (simp add: serves_front_def replaying_def)
  have cp: "can_proceed ?rt u = can_proceed rt u" for u by (rule can_proceed_cong) (simp_all add: states_def)
  have "\<exists>u rt'. select_thread (length q) h rt = Some (Inr (True, u, rt'))"
  proof (cases "states (rt_state ?rt) t = Some RUNNABLE")
    case True
    then have "state_of ?rt t = Inr RUNNABLE" by (simp add: state_of_Inr)
    with nx show ?thesis by (simp add: select_thread_def)
  next
    case False
    with queue_schedulable [OF ok sf] have blk: "states (rt_state ?rt) t = Some MUTEX_BLOCKED" by auto
    have ex: "\<exists>u\<in>set (t # q'). can_proceed ?rt u" using assms(3) q cp by simp
    have "length (takeWhile (\<lambda>u. \<not> can_proceed ?rt u) q) < length q"
      using ex q by (intro takeWhile_shorter) auto
    then obtain u rt' where "lock_loop (length q) h t t ?rt = Some (Inr (True, u, rt'))"
      using lock_loop_ends [OF ok sf blk ex, of "length q" h t] q by auto
    moreover have "state_of ?rt t = Inr MUTEX_BLOCKED" using blk by (simp add: state_of_Inr)
    ultimately show ?thesis using nx by (simp add: select_thread_def)
  qed
  then show ?thesis using select_thread_ok [OF _ assms(1)] by (fastforce simp: chosen_ok_def)
qed

definition main_runtime :: runtime where
  "main_runtime = (fresh_runtime None main_state)\<lparr>rt_nextThreadId := 2\<rparr>"

lemma main_runtime_ok: "runtime_ok main_runtime"
  using start_execution_ok [OF start_main] by (simp add: main_runtime_def)

lemma main_runtime_states: "states (rt_state main_runtime) = [1 \<mapsto> RUNNABLE]"
proof -
  have "thread_at (es_threadList main_state) = [1 \<mapsto> new_Thread 1 None main_function]"
    by (auto simp: thread_at_def main_state_def fun_eq_iff nth_list_update word_unat_eq_iff)
  then show ?thesis
    by (simp add: states_def main_runtime_def fresh_runtime_def new_Thread_def pushFrame_def fun_eq_iff)
qed

theorem select_thread_finds_thread_witness:
  "\<exists>t rt'. select_thread (length [1]) two_events main_runtime = Some (Inr (True, t, rt')) \<and> runtime_ok rt' \<and>
     states (rt_state rt') t = Some RUNNABLE"
proof -
  have "serves_front main_runtime [1]"
    by (simp add: serves_front_def main_runtime_def fresh_runtime_def main_state_def replaying_def)
  moreover have "can_proceed main_runtime 1" by (simp add: can_proceed_def main_runtime_states)
  ultimately show ?thesis
    using select_thread_finds_thread [OF main_runtime_ok, of "[1]" two_events] by simp
qed


text \<open>A thread that locks a mutex it holds.\<close>

definition relock :: "runtime outcome" where
  "relock = fold_outcome (executeInstruction two_events)
     [Define_mutex ''7'', MutexLock (Some 7), MutexLock (Some 7)] main_runtime"

lemma relock_blocks:
  obtains rt where "relock = Inr rt" "runtime_ok rt" "serves_front rt [1]" "\<not> can_proceed rt 1"
proof -
  have name: "uint64toString 7 = ''7''" by code_simp
  let ?mx = "\<lambda>b t. \<lparr>mx_id = 1, mx_name = ''7'', mx_isLocked = b, mx_lockedThreadId = t\<rparr>"
  let ?mm = "\<lambda>b t bl. \<lparr>mm_store = [0 \<mapsto> ?mx b t], mm_fresh = 1, mm_mutexPool = [''7'' \<mapsto> 0],
    mm_blockedThreadPool = bl, mm_nextMutexId = 2\<rparr>"
  have cur: "es_currentThread (rt_state main_runtime) = Some 1"
    by (simp add: main_runtime_def fresh_runtime_def main_state_def)
  have "rt_mutexes main_runtime = new_MutexManager" by (simp add: main_runtime_def fresh_runtime_def)
  then have d: "executeInstruction two_events (Define_mutex ''7'') main_runtime =
      Inr (main_runtime\<lparr>rt_mutexes := ?mm False 0 Map.empty\<rparr>)"
    by (simp add: addMutex_def getMutex_def new_MutexManager_def map_insert_def Mutex_def)
  have l1: "executeInstruction two_events (MutexLock (Some 7)) (main_runtime\<lparr>rt_mutexes := ?mm False 0 Map.empty\<rparr>) =
      Inr (main_runtime\<lparr>rt_mutexes := ?mm True 1 Map.empty\<rparr>)"
    by (simp add: executePThreadMutexLock_def current_id_def cur manager_lock_def getMutex_def name mutex_lock_def
        deref_mutex_def Mutex_lock_def Let_def)
  obtain th where th: "thread_at (es_threadList (rt_state main_runtime)) 1 = Some th" "th_threadState th = RUNNABLE"
    using main_runtime_states by (metis fun_upd_same states_Some)
  then obtain st where st: "switchThreadToMutexBlocked (rt_state main_runtime) 1 = Inr st"
    by (auto simp: switchThreadToMutexBlocked_def outcome_simps update_thread_Inr isRunnable_def)
  let ?rt = "main_runtime\<lparr>rt_mutexes := ?mm True 1 [1 \<mapsto> 0], rt_state := st\<rparr>"
  have l2: "executeInstruction two_events (MutexLock (Some 7)) (main_runtime\<lparr>rt_mutexes := ?mm True 1 Map.empty\<rparr>) = Inr ?rt"
    using st by (simp add: executePThreadMutexLock_def current_id_def cur manager_lock_def getMutex_def name
        mutex_lock_def deref_mutex_def Let_def on_state_def map_insert_def)
  have run: "current_runs (main_runtime\<lparr>rt_mutexes := mm\<rparr>)" for mm
    using cur main_runtime_states by (simp add: current_runs_def)
  have "current_runs main_runtime" using cur main_runtime_states by (simp add: current_runs_def)
  then have ok: "runtime_ok ?rt"
    using executeInstruction_ok [OF l2 _ run] executeInstruction_ok [OF l1 _ run]
      executeInstruction_ok [OF d main_runtime_ok] by blast
  have "state_ok (rt_state main_runtime)" using main_runtime_ok by (simp add: runtime_ok_def)
  note eff = switchThreadToMutexBlocked_effect [OF st this]
  have "serves_front ?rt [1]"
    using eff by (simp add: serves_front_def main_runtime_def fresh_runtime_def main_state_def replaying_def)
  moreover have "\<not> can_proceed ?rt 1"
    using eff by (simp add: can_proceed_def manager_table_def holder_of_def)
  moreover have "relock = Inr ?rt" by (simp only: relock_def fold_outcome.simps d l1 l2 bind_Inr)
  ultimately show ?thesis using that ok by blast
qed


end
