(* ===== verification/Runtime_Clocks.thy ===== *)
theory Runtime_Clocks
  imports Runtime_Runs
begin

text \<open>
  Vector clocks and final states: what a thread learns when it is woken, where the clocks'
  five entries are not enough, and what the status of a finished run says.
\<close>

section \<open>Merging and copying clocks\<close>

lemma raise_entry_eq:
  assumes "i < length src" and "length dst = length src"
  shows "raise_entry src i dst = Inr (dst[i := max (dst ! i) (src ! i)])"
  using assms by (auto simp: raise_entry_def at_index_def set_index_def max_def list_update_id)

lemma merge_prefix:
  "n \<le> length src \<Longrightarrow> length dst = length src \<Longrightarrow>
     fold_outcome (raise_entry src) [0..<n] dst = Inr (map2 max (take n dst) (take n src) @ drop n dst)"
proof (induction n)
  case 0
  then show ?case by simp
next
  case (Suc n)
  let ?d = "map2 max (take n dst) (take n src) @ drop n dst"
  have n: "n < length dst" "n < length src" using Suc.prems by simp_all
  then have len: "length (map2 max (take n dst) (take n src)) = n" by simp
  have "fold_outcome (raise_entry src) [0..<Suc n] dst = raise_entry src n ?d"
    using Suc by (simp add: fold_outcome_append bind_outcome_def split: sum.splits)
  also have "\<dots> = Inr (?d[n := max (?d ! n) (src ! n)])"
    using n Suc.prems by (intro raise_entry_eq) simp_all
  also have "?d ! n = dst ! n" using len n by (simp add: nth_append)
  also have "?d[n := max (dst ! n) (src ! n)] =
      map2 max (take n dst) (take n src) @ max (dst ! n) (src ! n) # drop (Suc n) dst"
    using len n by (simp add: list_update_append Cons_nth_drop_Suc [symmetric])
  also have "\<dots> = map2 max (take (Suc n) dst) (take (Suc n) src) @ drop (Suc n) dst"
    using n by (simp add: take_Suc_conv_app_nth)
  finally show ?case .
qed

lemma merge_clock_max:
  "length dst = length src \<Longrightarrow> merge_clock (length src) src dst = Inr (map2 max dst src)"
  using merge_prefix [of "length src" src dst] by (simp add: merge_clock_def)

lemma copy_prefix:
  "n \<le> length src \<Longrightarrow> length dst = length src \<Longrightarrow>
     fold_outcome (\<lambda>i d. bind_outcome (at_index src i) (set_index d i)) [0..<n] dst = Inr (take n src @ drop n dst)"
proof (induction n)
  case 0
  then show ?case by simp
next
  case (Suc n)
  let ?f = "\<lambda>i d. bind_outcome (at_index src i) (set_index d i)"
  have n: "n < length dst" "n < length src" using Suc.prems by simp_all
  have "fold_outcome ?f [0..<Suc n] dst = ?f n (take n src @ drop n dst)"
    using Suc by (simp add: fold_outcome_append bind_outcome_def split: sum.splits)
  also have "\<dots> = Inr ((take n src @ drop n dst)[n := src ! n])"
    using n Suc.prems by (simp add: at_index_def set_index_def)
  also have "(take n src @ drop n dst)[n := src ! n] = take (Suc n) src @ drop (Suc n) dst"
    using n by (simp add: list_update_append Cons_nth_drop_Suc [symmetric] take_Suc_conv_app_nth)
  finally show ?case .
qed

lemma copy_clock_eq: "length dst = length src \<Longrightarrow> copy_clock src dst = Inr src"
  using copy_prefix [of "length src" src dst] by (simp add: copy_clock_def)

text \<open>A thread list accepts any small id that is not taken.\<close>

lemma addThread_defined:
  assumes "thread_at l (th_threadId th) = None" and "th_threadId th \<noteq> 0" and "unat (th_threadId th) < 2 ^ 31"
  shows "\<exists>l'. addThread l th = Inr l'"
proof -
  let ?i = "unat (th_threadId th)"
  have pos: "0 < ?i" using assms(2) by (simp add: unat_gt_0)
  have dbl: "unat (th_threadId th * 2) = 2 * ?i"
  proof -
    have "?i * 2 < 2 ^ 32" using assms(3) by simp
    then have "(?i * 2) mod 2 ^ 32 = ?i * 2" by (rule mod_less)
    then show ?thesis by (simp add: unat_word_ariths(2))
  qed
  show ?thesis
  proof (cases "length (tl_allThreads l) \<le> ?i")
    case True
    then have "at_index (resize_null (tl_allThreads l) (2 * ?i)) ?i = Inr None"
      using pos by (auto simp: at_index_def resize_null_def nth_append)
    with True dbl show ?thesis by (simp add: addThread_def Let_def)
  next
    case False
    then have "at_index (tl_allThreads l) ?i = Inr None"
      using assms(1) by (simp add: at_index_def thread_at_def)
    with False show ?thesis by (simp add: addThread_def Let_def)
  qed
qed

lemma ask_current_front:
  assumes "serves_front rt (t # q)"
  shows "ask_current h rt = Inr (t, rt\<lparr>rt_state := (rt_state rt)\<lparr>es_currentThread := Some t\<rparr>\<rparr>)"
proof -
  have "isFinished (the_prefix rt)" using assms not_replaying_finished by (simp add: serves_front_def)
  then have sel: "Thread_selectCurrentItem h (the_prefix rt) (find_in (rt_state rt)) (es_threadScheduler (rt_state rt)) =
      Inr (t, es_threadScheduler (rt_state rt))"
    and ne: "scheduled (es_threadScheduler (rt_state rt)) \<noteq> []"
    using assms by (auto simp: serves_front_def FIFSThread_selectNextItem_def)
  have "(rt_state rt)\<lparr>es_threadScheduler := es_threadScheduler (rt_state rt)\<rparr> = rt_state rt" by simp
  with sel ne show ?thesis by (simp add: ask_current_def getCurrentThread_def)
qed

lemma clock_of_defined:
  assumes "state_ok st" and "states st t = Some s"
  obtains vc where "clock_of st t = Inr vc" "length vc = 5"
  using assms by (auto simp: states_Some state_ok_def clock_of_def findThreadById_eq)


section \<open>Properties\<close>

text \<open>
  (C39) The counter of thread ids lets the id \<open>5\<close> through, but the clocks have entries for \<open>0\<close> to \<open>4\<close>
  only: creating the fifth thread accesses the new thread's clock out of bounds.
\<close>

theorem fifth_thread_overruns_clock:
  assumes "runtime_ok rt" and "serves_front rt q" and "q \<noteq> []" and "rt_nextThreadId rt = 5"
    and "states (rt_state rt) 5 = None"
  shows "executePThreadCreate h kf rt = Inl (Undefined ''operator[]'')"
proof -
  obtain t q' where q: "q = t # q'" using assms(3) by (cases q) auto
  let ?th = "new_Thread 5 (es_currentThread (rt_state rt)) kf"
  have th: "th_threadId ?th = 5" by (simp add: new_Thread_def pushFrame_def)
  have sok: "state_ok (rt_state rt)" using assms(1) by (simp add: runtime_ok_def)
  obtain l where l: "addThread (es_threadList (rt_state rt)) ?th = Inr l"
    using addThread_defined [of "es_threadList (rt_state rt)" ?th] assms(5) th by (auto simp: states_None)
  let ?st = "(rt_state rt)\<lparr>es_threadList := l,
    es_threadScheduler := Thread_addItem (es_threadScheduler (rt_state rt)) 5\<rparr>"
  have en: "enlist (rt_state rt) ?th = Inr ?st" using l th by (simp add: enlist_def)
  have cr: "createThread (rt_state rt) 5 kf = Inr (5, ?st, 6)"
    using en by (simp add: createThread_def Thread_getNextThreadId_def Let_def)
  note eff = enlist_effect [OF en sok]
  let ?rt = "rt\<lparr>rt_state := ?st, rt_nextThreadId := 6\<rparr>"
  have "serves_front ?rt (t # (q' @ [5]))"
    using assms(2) q by (auto simp: serves_front_def replaying_def FIFSThread_addItem_def)
  from ask_current_front [OF this] have ask: "ask_current h ?rt = Inr (t, ?rt\<lparr>rt_state := ?st\<lparr>es_currentThread := Some t\<rparr>\<rparr>)"
    by simp
  let ?st' = "?st\<lparr>es_currentThread := Some t\<rparr>"
  have st': "state_ok ?st'" "states ?st' = (states (rt_state rt))(5 \<mapsto> RUNNABLE)"
    using eff state_ok_cong [of ?st' ?st] states_cong [of ?st' ?st] by simp_all
  have "states (rt_state rt) t \<noteq> None" using queue_schedulable [OF assms(1,2), of t] q by auto
  then obtain s where "states ?st' t = Some s" using st'(2) by (cases "t = 5") auto
  then obtain src where src: "clock_of ?st' t = Inr src" "length src = 5" using clock_of_defined [OF st'(1)] by blast
  have "states ?st' 5 = Some RUNNABLE" using st'(2) by simp
  then obtain dst where dst: "clock_of ?st' 5 = Inr dst" "length dst = 5" using clock_of_defined [OF st'(1)] by blast
  have "copy_clock src dst = Inr src" using copy_clock_eq src dst by simp
  moreover have "bump_clock 5 src = Inl (Undefined ''operator[]'')" using src by (simp add: bump_clock_def at_index_def)
  moreover have "\<not> replaying rt" using assms(2) by (simp add: serves_front_def)
  ultimately show ?thesis
    using cr ask src(1) dst(1) assms(4) by (simp add: executePThreadCreate_def)
qed

theorem fifth_thread_overruns_clock_witness:
  "executePThreadCreate two_events main_function (main_runtime\<lparr>rt_nextThreadId := 5\<rparr>) =
     Inl (Undefined ''operator[]'')"
proof -
  let ?rt = "main_runtime\<lparr>rt_nextThreadId := 5\<rparr>"
  have "runtime_ok ?rt" using main_runtime_ok by (simp add: runtime_ok_def tables_ok_def ids_ok_def queue_def)
  moreover have "serves_front ?rt [1]"
    by (simp add: serves_front_def main_runtime_def fresh_runtime_def main_state_def replaying_def)
  moreover have "states (rt_state ?rt) 5 = None" by (simp add: main_runtime_states)
  ultimately show ?thesis using fifth_thread_overruns_clock [of ?rt "[1]" two_events main_function] by simp
qed

text \<open>
  A thread that is woken by a signal, a broadcast or the end of the thread it joined learns the
  waker's clock: its own becomes the pointwise maximum of the two.
\<close>

theorem woken_thread_learns_clock:
  assumes "clock_of st s = Inr src" and "clock_of st t = Inr dst" and "state_ok st"
  shows "\<exists>st'. learn_clock d s t st = Inr st' \<and> clock_of st' t = Inr (map2 max dst src)"
proof -
  have len: "length src = 5" "length dst = 5" using clock_of_length assms by blast+
  then have m: "merge_clock (if d then length src else length dst) src dst = Inr (map2 max dst src)"
    using merge_clock_max [of dst src] by simp
  from assms(2) obtain th where th: "thread_at (es_threadList st) t = Some th"
    by (auto simp: clock_of_def outcome_simps)
  let ?f = "\<lambda>th. th\<lparr>th_vectorClock := map2 max dst src\<rparr>"
  from th obtain l where l: "update_thread (es_threadList st) t ?f = Inr l"
    by (auto simp: update_thread_Inr)
  have "thread_at l t = Some (?f th)" using update_thread_at(1) [OF l] th by auto
  with m l assms(1,2) show ?thesis
    by (simp add: learn_clock_def put_clock_def set_thread_def clock_of_def findThreadById_eq)
qed

theorem woken_thread_learns_clock_witness:
  "\<exists>st'. learn_clock True 1 1 (rt_state main_runtime) = Inr st' \<and> clock_of st' 1 = Inr [0, 0, 0, 0, 0]"
proof -
  have "clock_of (rt_state main_runtime) 1 = Inr (replicate 5 0)"
    by (simp add: clock_of_def main_runtime_def fresh_runtime_def main_state_def findThreadById_def
        new_Thread_def pushFrame_def)
  moreover have "state_ok (rt_state main_runtime)" using main_runtime_ok by (simp add: runtime_ok_def)
  ultimately show ?thesis
    using woken_thread_learns_clock [of "rt_state main_runtime" 1 _ 1 _ True] by (simp add: numeral_eq_Suc)
qed


definition stopped_with :: "round outcome option \<Rightarrow> exec_status option" where
  "stopped_with r = (case r of Some (Inr (Stop rt)) \<Rightarrow> Some (rt_execStatus rt) | _ \<Rightarrow> None)"

lemma main_returns: "stopped_with (run_round 1 two_events (\<lambda>_ _. Return) main_runtime) = Some SUCCESS"
  by code_simp


end
