(* ===== verification/Special_Elements.thy ===== *)
theory Special_Elements
  imports Runtime_Runs
begin

text \<open>
  \<open>createSpecialElement\<close> and \<open>handleInitializers\<close> of \<^verbatim>\<open>src/lib/Core/Executor.cpp\<close>: the walk over the type of
  an allocation that defines a mutex, condition variable or barrier for each such object in it,
  named by its address. What LLVM's data layout answers for a type (its ABI alignment and its size
  in bits) is stored in the type; the pointer width is an argument.
\<close>

section \<open>Types\<close>

datatype llvm_type =
    ScalarTy uint u64
  | PointerTy uint
  | ArrayTy uint llvm_type
  | VectorTy uint llvm_type
  | StructTy string bool uint u64 "llvm_type list"
  | FunctionTy
  | UnsupportedTy

definition align_up :: "u64 \<Rightarrow> uint \<Rightarrow> u64 outcome" where
  "align_up addr alignment =
     (let a = ucast alignment :: u64
      in if a = 0 then Inl (Undefined ''% 0'')
         else if addr mod a \<noteq> 0 then Inr ((addr div a + 1) * a) else Inr addr)"

fun createSpecialElement :: "u64 \<Rightarrow> llvm_type \<Rightarrow> u64 \<times> runtime \<Rightarrow> (u64 \<times> runtime) outcome" where
  "createSpecialElement pw (ScalarTy al bits) s =
     bind_outcome (align_up (fst s) al) (\<lambda>a. Inr (a + bits div 8, snd s))"
| "createSpecialElement pw (PointerTy al) s =
     bind_outcome (align_up (fst s) al) (\<lambda>a. Inr (a + pw div 8, snd s))"
| "createSpecialElement pw (ArrayTy num t) s =
     fold_outcome (\<lambda>i s. createSpecialElement pw t s) [0..<unat num] s"
| "createSpecialElement pw (VectorTy num t) s =
     fold_outcome (\<lambda>i s. createSpecialElement pw t s) [0..<unat num] s"
| "createSpecialElement pw (StructTy nm isOpaque al bits ts) s =
     (if isOpaque then Inr s
      else bind_outcome (align_up (fst s) al)
        (\<lambda>a. if nm = ''union.pthread_mutex_t''
             then Inr (a + bits div 8,
                       (snd s)\<lparr>rt_mutexes := snd (addMutex (rt_mutexes (snd s)) (uint64toString a))\<rparr>)
             else if nm = ''union.pthread_cond_t''
             then bind_outcome (add_cond (snd s) (uint64toString a)) (\<lambda>rt. Inr (a + bits div 8, rt))
             else if nm = ''union.pthread_barrier_t''
             then Inr (a + bits div 8,
                       (snd s)\<lparr>rt_barriers := snd (addBarrier (rt_barriers (snd s)) (uint64toString a))\<rparr>)
             else fold_outcome (\<lambda>t s. createSpecialElement pw t s) ts (a, snd s)))"
| "createSpecialElement pw FunctionTy s = Inr s"
| "createSpecialElement pw UnsupportedTy s = Inl (Assertion ''unsupport initializer type'')"

text \<open>
  A global of the module: its name, whether it has an initialiser, and the type and address of
  the initialiser. \<open>at(0)\<close> throws on an empty name.
\<close>

record global =
  gl_name :: string
  gl_hasInitializer :: bool
  gl_type :: llvm_type
  gl_address :: u64

definition handleInitializers :: "u64 \<Rightarrow> global list \<Rightarrow> runtime \<Rightarrow> runtime outcome" where
  "handleInitializers pw =
     fold_outcome
       (\<lambda>g rt. if \<not> gl_hasInitializer g then Inr rt
               else if gl_name g = [] then Inl (Out_Of_Range ''at(0)'')
               else if hd (gl_name g) = CHR ''.'' then Inr rt
               else bind_outcome (createSpecialElement pw (gl_type g) (gl_address g, rt)) (\<lambda>(_, rt). Inr rt))"


section \<open>The invariant and existing objects\<close>

text \<open>What defining objects may not change: the holders of the mutexes and the waiters.\<close>

definition extends :: "runtime \<Rightarrow> runtime \<Rightarrow> bool" where
  "extends rt rt' \<longleftrightarrow>
     (\<forall>n h. lt_holder (manager_table (rt_mutexes rt)) n = Some h \<longrightarrow>
        lt_holder (manager_table (rt_mutexes rt')) n = Some h) \<and>
     waiters (rt_conds rt') = waiters (rt_conds rt) \<and>
     (\<forall>n b. rt_barriers rt n = Some b \<longrightarrow> rt_barriers rt' n = Some b) \<and>
     rt_state rt' = rt_state rt"

lemma extends_refl [simp]: "extends rt rt"
  by (simp add: extends_def)

lemma extends_trans: "extends a b \<Longrightarrow> extends b c \<Longrightarrow> extends a c"
  by (auto simp: extends_def)

lemma add_mutex_extends:
  assumes "runtime_ok rt"
  shows "extends rt (rt\<lparr>rt_mutexes := snd (addMutex (rt_mutexes rt) n)\<rparr>)"
proof -
  have "manager_ok (rt_mutexes rt)" using assms by (simp add: runtime_ok_def)
  from addMutex_refines [OF this, of n]
  have "manager_table (snd (addMutex (rt_mutexes rt) n)) = snd (spec_add (manager_table (rt_mutexes rt)) n)"
    by auto
  then show ?thesis by (auto simp: extends_def spec_add_def)
qed

lemma add_cond_extends: "add_cond rt n = Inr rt' \<Longrightarrow> extends rt rt'"
  by (auto simp: add_cond_def outcome_simps extends_def dest: insert_condition_waiters)

lemma add_barrier_extends: "extends rt (rt\<lparr>rt_barriers := snd (addBarrier (rt_barriers rt) n)\<rparr>)"
  by (auto simp: extends_def addBarrier_def map_insert_def split: option.splits)

text \<open>One walk keeps the invariant and what was there before.\<close>

definition walk_ok :: "runtime \<Rightarrow> u64 \<times> runtime \<Rightarrow> bool" where
  "walk_ok rt0 s \<longleftrightarrow> runtime_ok (snd s) \<and> extends rt0 (snd s)"

lemma createSpecialElement_walk:
  "createSpecialElement pw t s = Inr s' \<Longrightarrow> walk_ok rt0 s \<Longrightarrow> walk_ok rt0 s'"
proof (induction pw t s arbitrary: s' rule: createSpecialElement.induct)
  case (3 pw num t s)
  from "3.prems"(1) show ?case
    unfolding createSpecialElement.simps
    by (rule fold_outcome_invariant [where P = "walk_ok rt0"]) (use 3 in auto)
next
  case (4 pw num t s)
  from "4.prems"(1) show ?case
    unfolding createSpecialElement.simps
    by (rule fold_outcome_invariant [where P = "walk_ok rt0"]) (use 4 in auto)
next
  case (5 pw nm isOpaque al bits ts s)
  show ?case
  proof (cases "isOpaque")
    case True
    with 5 show ?thesis by simp
  next
    case False
    with "5.prems"(1) obtain a where a: "align_up (fst s) al = Inr a" by (auto simp: outcome_simps)
    have ok: "runtime_ok (snd s)" "extends rt0 (snd s)" using "5.prems"(2) by (simp_all add: walk_ok_def)
    consider (mutex) "nm = ''union.pthread_mutex_t''" | (cond) "nm = ''union.pthread_cond_t''"
      | (barrier) "nm = ''union.pthread_barrier_t''"
      | (other) "nm \<notin> {''union.pthread_mutex_t'', ''union.pthread_cond_t'', ''union.pthread_barrier_t''}" by auto
    then show ?thesis
    proof cases
      case mutex
      with "5.prems"(1) False a ok define_mutex_ok [OF ok(1)] add_mutex_extends [OF ok(1)] extends_trans show ?thesis
        by (auto simp: walk_ok_def)
    next
      case cond
      with "5.prems"(1) False a ok define_cond_ok add_cond_extends extends_trans show ?thesis
        by (fastforce simp: walk_ok_def outcome_simps)
    next
      case barrier
      with "5.prems"(1) False a ok define_barrier_ok [OF ok(1)] add_barrier_extends extends_trans show ?thesis
        by (auto simp: walk_ok_def)
    next
      case other
      with "5.prems"(1) False a have "fold_outcome (\<lambda>t s. createSpecialElement pw t s) ts (a, snd s) = Inr s'" by simp
      then show ?thesis
        by (rule fold_outcome_invariant [where P = "walk_ok rt0"]) (use 5 False other a in \<open>auto simp: walk_ok_def\<close>)
    qed
  qed
qed (auto simp: outcome_simps walk_ok_def)

lemma handleInitializers_walk:
  assumes "handleInitializers pw gs rt = Inr rt'" and "runtime_ok rt"
  shows "runtime_ok rt' \<and> extends rt rt'"
  using assms(1) unfolding handleInitializers_def
proof (rule fold_outcome_invariant [where P = "\<lambda>r. runtime_ok r \<and> extends rt r"])
  show "runtime_ok rt \<and> extends rt rt" using assms(2) by simp
next
  fix g r r'
  assume r: "runtime_ok r \<and> extends rt r"
    and step: "(if \<not> gl_hasInitializer g then Inr r
       else if gl_name g = [] then Inl (Out_Of_Range ''at(0)'')
       else if hd (gl_name g) = CHR ''.'' then Inr r
       else bind_outcome (createSpecialElement pw (gl_type g) (gl_address g, r)) (\<lambda>(_, rt). Inr rt)) = Inr r'"
  from r have "walk_ok rt (gl_address g, r)" by (simp add: walk_ok_def)
  with step r createSpecialElement_walk show "runtime_ok r' \<and> extends rt r'"
    by (fastforce simp: outcome_simps walk_ok_def split: if_splits)
qed

text \<open>Alignment.\<close>

lemma align_up_nat:
  assumes "align_up addr al = Inr a" and "unat addr + unat al < 2 ^ 64"
  shows "unat a = (unat addr + unat al - 1) div unat al * unat al"
proof -
  let ?a = "ucast al :: u64"
  have al_lt: "unat al < 2 ^ 32" using unsigned_less [of al] by simp
  also have "(2 :: nat) ^ 32 < 2 ^ 64" by simp
  finally have ua: "unat ?a = unat al" by (simp add: unsigned_ucast_eq take_bit_nat_eq_self_iff)
  from assms(1) have nz: "?a \<noteq> 0" by (auto simp: align_up_def Let_def split: if_splits)
  then have pos: "0 < unat al" using ua by (metis gr0I unat_0 word_unat_eq_iff)
  let ?q = "unat addr div unat al" and ?r = "unat addr mod unat al"
  have dm: "unat addr = ?q * unat al + ?r" by simp
  show ?thesis
  proof (cases "addr mod ?a = 0")
    case True
    then have r0: "?r = 0" using ua by (metis unat_0 unat_mod)
    from True assms(1) nz have "a = addr" by (simp add: align_up_def Let_def)
    moreover have "(unat addr + unat al - 1) div unat al = ?q"
    proof -
      have "unat addr + unat al - 1 = (unat al - 1) + ?q * unat al" using dm r0 pos by linarith
      moreover have "((unat al - 1) + ?q * unat al) div unat al = ?q + (unat al - 1) div unat al"
        by (rule div_mult_self1) (use pos in simp)
      ultimately show ?thesis using pos by simp
    qed
    ultimately show ?thesis using dm r0 by simp
  next
    case False
    then have rpos: "0 < ?r" using ua by (metis gr0I unat_0 unat_mod word_unat_eq_iff)
    from False assms(1) nz have a: "a = (addr div ?a + 1) * ?a" by (simp add: align_up_def Let_def)
    have rl: "?r < unat al" using pos by simp
    have less: "(?q + 1) * unat al < 2 ^ 64"
    proof -
      have "(?q + 1) * unat al = ?q * unat al + unat al" by simp
      also have "\<dots> \<le> unat addr + unat al" using dm by linarith
      finally show ?thesis using assms(2) by linarith
    qed
    have "1 \<le> unat al" using pos by simp
    from mult_le_mono2 [OF this, of "?q + 1"] have "?q + 1 \<le> (?q + 1) * unat al" by (simp only: mult_1_right)
    from le_less_trans [OF this less] have q64: "?q + 1 < 2 ^ 64" .
    have "unat (addr div ?a) = ?q" by (simp add: unat_div ua)
    then have "unat (addr div ?a + 1) = ?q + 1" using q64 by (simp add: unat_word_ariths(1))
    then have "unat a = (?q + 1) * unat al"
      using less by (simp add: a unat_word_ariths(2) ua)
    moreover have "(unat addr + unat al - 1) div unat al = ?q + 1"
    proof -
      have "unat addr + unat al - 1 = (?r - 1) + (?q + 1) * unat al" proof -
        have "(?q + 1) * unat al = ?q * unat al + unat al" by simp
        with dm rpos show ?thesis by linarith
      qed
      moreover have "((?r - 1) + (?q + 1) * unat al) div unat al = ?q + 1 + (?r - 1) div unat al"
        by (rule div_mult_self1) (use pos in simp)
      moreover have "(?r - 1) div unat al = 0" using rl rpos by simp
      ultimately show ?thesis by simp
    qed
    ultimately show ?thesis by simp
  qed
qed

lemma round_up_bounds:
  fixes x k :: nat
  assumes "0 < k"
  shows "x \<le> (x + k - 1) div k * k" and "(x + k - 1) div k * k < x + k"
proof -
  have eq: "(x + k - 1) div k * k + (x + k - 1) mod k = x + k - 1" by simp
  have "(x + k - 1) mod k < k" using assms by simp
  with eq assms show "x \<le> (x + k - 1) div k * k" "(x + k - 1) div k * k < x + k" by linarith+
qed


lemma spec_add_defines: "n \<in> dom (lt_holder (snd (spec_add t n)))"
  by (auto simp: spec_add_def)


section \<open>Properties\<close>


definition two_globals :: "global list" where
  "two_globals =
     [\<lparr>gl_name = ''m'', gl_hasInitializer = True,
       gl_type = StructTy ''pair'' False 8 384 [ScalarTy 4 32, StructTy ''union.pthread_mutex_t'' False 8 320 []],
       gl_address = 16\<rparr>,
      \<lparr>gl_name = ''.str'', gl_hasInitializer = True, gl_type = UnsupportedTy, gl_address = 64\<rparr>]"


text \<open>
  A mutex inside a structure is defined at the first address, from the current one on, that is a
  multiple of the type's alignment, and the walk goes on right behind the object.
\<close>

theorem special_mutex_aligned:
  assumes "al \<noteq> 0" and "unat addr + unat al < 2 ^ 64" and "runtime_ok rt"
  shows "\<exists>a rt'. createSpecialElement pw (StructTy ''union.pthread_mutex_t'' False al bits ts) (addr, rt) =
       Inr (a + bits div 8, rt') \<and>
     unat al dvd unat a \<and> unat addr \<le> unat a \<and> unat a < unat addr + unat al \<and>
     uint64toString a \<in> dom (lt_holder (manager_table (rt_mutexes rt')))"
proof -
  have pos: "0 < unat al" using assms(1) by (metis gr0I unat_0 word_unat_eq_iff)
  have "unat al < 2 ^ 32" using unsigned_less [of al] by simp
  also have "(2 :: nat) ^ 32 < 2 ^ 64" by simp
  finally have "unat (ucast al :: u64) = unat al" by (simp add: unsigned_ucast_eq take_bit_nat_eq_self_iff)
  with pos have "ucast al \<noteq> (0 :: u64)" by (metis less_numeral_extra(3) unat_0)
  then obtain a where a: "align_up addr al = Inr a"
    by (cases "addr mod ucast al = 0") (auto simp: align_up_def Let_def)
  note n = align_up_nat [OF a assms(2)]
  have "manager_ok (rt_mutexes rt)" using assms(3) by (simp add: runtime_ok_def)
  from addMutex_refines [OF this, of "uint64toString a"]
  have "uint64toString a \<in> dom (lt_holder (manager_table (snd (addMutex (rt_mutexes rt) (uint64toString a)))))"
    by (metis spec_add_defines snd_conv)
  moreover have "unat al dvd unat a" "unat addr \<le> unat a" "unat a < unat addr + unat al"
    using round_up_bounds [OF pos, of "unat addr"] by (simp_all add: n)
  ultimately show ?thesis using a by simp
qed

theorem special_mutex_aligned_witness:
  "\<exists>a rt'. createSpecialElement 64 (StructTy ''union.pthread_mutex_t'' False 8 320 [])
       (20, (fresh_runtime None main_state)\<lparr>rt_nextThreadId := 2\<rparr>) = Inr (a + 40, rt') \<and>
     8 dvd unat a \<and> 20 \<le> unat a \<and> unat a < 28 \<and>
     uint64toString a \<in> dom (lt_holder (manager_table (rt_mutexes rt')))"
proof -
  have ok: "runtime_ok ((fresh_runtime None main_state)\<lparr>rt_nextThreadId := 2\<rparr>)"
    by (rule start_execution_ok [OF start_main]) simp
  show ?thesis using special_mutex_aligned [OF _ _ ok, of 8 20 64 320 "[]"] by simp
qed

end
