(* ===== verification/Expr_Create.thy ===== *)
theory Expr_Create
  imports Klee_Expr
begin

text \<open>
  The simplifying constructors of \<^verbatim>\<open>src/lib/Expr/Expr.cpp\<close>: the \<open>create\<close> functions with their
  \<open>createPartial\<close> and \<open>createPartialR\<close> helpers for one constant operand. \<open>create_X\<close> stands for \<open>X::create\<close>;
  the helpers keep their names. Where a helper calls a \<open>create\<close> function with an operand it knows to be
  constant, the model calls \<open>create_X_const\<close>, the body of \<open>X::create\<close> for that operand. The option
  \<open>const-array-opt\<close> is the argument \<open>opt\<close>; it is off by default.
\<close>

section \<open>The macros\<close>

definition BCREATE_R ::
  "binary_kind \<Rightarrow> (expr \<Rightarrow> nat \<Rightarrow> int \<Rightarrow> expr outcome) \<Rightarrow> (nat \<Rightarrow> int \<Rightarrow> expr \<Rightarrow> expr outcome) \<Rightarrow>
   (expr \<Rightarrow> expr \<Rightarrow> expr outcome) \<Rightarrow> expr \<Rightarrow> expr \<Rightarrow> expr outcome" where
  "BCREATE_R k partialL partialR full l r =
     bind_outcome (assert_that (getWidth l = getWidth r) ''type mismatch'')
       (\<lambda>_. case l of
              ConstantExpr w cl \<Rightarrow>
                (case r of ConstantExpr _ cr \<Rightarrow> const_op k w cl cr | _ \<Rightarrow> partialR w cl r)
            | _ \<Rightarrow>
                (case r of ConstantExpr w cr \<Rightarrow> partialL l w cr | _ \<Rightarrow> full l r))"

definition BCREATE ::
  "binary_kind \<Rightarrow> (expr \<Rightarrow> expr \<Rightarrow> expr outcome) \<Rightarrow> expr \<Rightarrow> expr \<Rightarrow> expr outcome" where
  "BCREATE k full l r =
     bind_outcome (assert_that (getWidth l = getWidth r) ''type mismatch'')
       (\<lambda>_. case (l, r) of
              (ConstantExpr w cl, ConstantExpr _ cr) \<Rightarrow> const_op k w cl cr
            | _ \<Rightarrow> full l r)"


section \<open>Bitwise operations\<close>

definition isAllOnes :: "nat \<Rightarrow> int \<Rightarrow> bool" where
  "isAllOnes w c \<longleftrightarrow> c = mask w"

definition AndExpr_createPartial :: "expr \<Rightarrow> nat \<Rightarrow> int \<Rightarrow> expr outcome" where
  "AndExpr_createPartial l w cr =
     (if isAllOnes w cr then Inr l
      else if cr = 0 then Inr (ConstantExpr w cr)
      else Inr (BinaryExpr AndExpr l (ConstantExpr w cr)))"

definition AndExpr_createPartialR :: "nat \<Rightarrow> int \<Rightarrow> expr \<Rightarrow> expr outcome" where
  "AndExpr_createPartialR w cl r = AndExpr_createPartial r w cl"

definition AndExpr_create :: "expr \<Rightarrow> expr \<Rightarrow> expr outcome" where
  "AndExpr_create l r = Inr (BinaryExpr AndExpr l r)"

definition create_AndExpr :: "expr \<Rightarrow> expr \<Rightarrow> expr outcome" where
  "create_AndExpr = BCREATE_R AndExpr AndExpr_createPartial AndExpr_createPartialR AndExpr_create"

definition OrExpr_createPartial :: "expr \<Rightarrow> nat \<Rightarrow> int \<Rightarrow> expr outcome" where
  "OrExpr_createPartial l w cr =
     (if isAllOnes w cr then Inr (ConstantExpr w cr)
      else if cr = 0 then Inr l
      else Inr (BinaryExpr OrExpr l (ConstantExpr w cr)))"

definition OrExpr_createPartialR :: "nat \<Rightarrow> int \<Rightarrow> expr \<Rightarrow> expr outcome" where
  "OrExpr_createPartialR w cl r = OrExpr_createPartial r w cl"

definition OrExpr_create :: "expr \<Rightarrow> expr \<Rightarrow> expr outcome" where
  "OrExpr_create l r = Inr (BinaryExpr OrExpr l r)"

definition create_OrExpr :: "expr \<Rightarrow> expr \<Rightarrow> expr outcome" where
  "create_OrExpr = BCREATE_R OrExpr OrExpr_createPartial OrExpr_createPartialR OrExpr_create"


section \<open>Equality\<close>

definition EqExpr_create :: "expr \<Rightarrow> expr \<Rightarrow> expr outcome" where
  "EqExpr_create l r = (if l = r then Inr (ConstantExpr Bool 1) else Inr (BinaryExpr EqExpr l r))"

text \<open>
  \<open>TryConstArrayOpt\<close>: the state of the loop is the number of matches and the disjunction so far, or
  \<open>None\<close> after more than a hundred matches, when the function returns the plain equality. The \<open>i\<close>-th
  equality of the index is built by the argument \<open>eq\<close>.
\<close>

definition TryConstArrayOpt :: "(int \<Rightarrow> expr outcome) \<Rightarrow> nat \<Rightarrow> int \<Rightarrow> array \<Rightarrow> updates \<Rightarrow> expr \<Rightarrow> expr outcome" where
  "TryConstArrayOpt eq w cl a us i =
     (let rd = ReadExpr a us i
      in if isSymbolicArray a \<or> getSize us \<noteq> 0 then EqExpr_create (ConstantExpr w cl) rd
         else bind_outcome
           (fold_outcome
              (\<lambda>j s. case s of
                       None \<Rightarrow> Inr None
                     | Some (numMatches, res) \<Rightarrow>
                         bind_outcome (at_index (ar_constantValues a) j)
                           (\<lambda>v. if w = ar_range a \<and> cl = v
                                then if 100 < Suc numMatches then Inr None
                                     else bind_outcome (eq (take_bit (getWidth i) (int j)))
                                            (\<lambda>mayBe. bind_outcome (create_OrExpr res mayBe)
                                               (\<lambda>res. Inr (Some (Suc numMatches, res))))
                                else Inr s))
              [0..<ar_size a] (Some (0 :: nat, ConstantExpr Bool 0)))
           (\<lambda>s. case s of
                  None \<Rightarrow> EqExpr_create (ConstantExpr w cl) rd
                | Some (_, res) \<Rightarrow> Inr res))"

lemma TryConstArrayOpt_cong [fundef_cong]:
  assumes "w = w'" "cl = cl'" "a = a'" "us = us'" "i = i'"
    and "\<And>j. eq j = eq' j"
  shows "TryConstArrayOpt eq w cl a us i = TryConstArrayOpt eq' w' cl' a' us' i'"
proof -
  have "eq = eq'" using assms(6) by blast
  with assms(1-5) show ?thesis by simp
qed

text \<open>
  \<open>EqExpr_createPartialR\<close> compares an expression with a constant. \<open>create_EqExpr_const\<close> is
  \<open>EqExpr::create(x, c)\<close>, and \<open>Expr::createIsZero(x)\<close> its instance for \<open>0\<close>.
\<close>

function (sequential) EqExpr_createPartialR :: "bool \<Rightarrow> nat \<Rightarrow> int \<Rightarrow> expr \<Rightarrow> expr outcome"
  and create_EqExpr_const :: "bool \<Rightarrow> nat \<Rightarrow> int \<Rightarrow> expr \<Rightarrow> expr outcome" where
  "EqExpr_createPartialR opt w cl r =
     (if w = Bool
      then if cl = 1 then Inr r
           else (case r of
                   BinaryExpr EqExpr a b \<Rightarrow>
                     (if a = ConstantExpr Bool 0 then Inr b else EqExpr_create (ConstantExpr w cl) r)
                 | BinaryExpr OrExpr a b \<Rightarrow>
                     bind_outcome (create_EqExpr_const opt (getWidth a) 0 a)
                       (\<lambda>na. bind_outcome (create_EqExpr_const opt (getWidth b) 0 b)
                          (\<lambda>nb. create_AndExpr na nb))
                 | _ \<Rightarrow> EqExpr_create (ConstantExpr w cl) r)
      else (case r of
              SExtExpr src _ \<Rightarrow>
                (let fromBits = getWidth src; trunc = const_ZExt cl fromBits
                 in if cl = const_SExt fromBits trunc w
                    then create_EqExpr_const opt fromBits trunc src
                    else Inr (ConstantExpr Bool 0))
            | ZExtExpr src _ \<Rightarrow>
                (let fromBits = getWidth src; trunc = const_ZExt cl fromBits
                 in if cl = const_ZExt trunc w
                    then create_EqExpr_const opt fromBits trunc src
                    else Inr (ConstantExpr Bool 0))
            | BinaryExpr AddExpr (ConstantExpr w1 c1) b \<Rightarrow>
                bind_outcome (assert_that (w = w1) ''type mismatch'')
                  (\<lambda>_. EqExpr_createPartialR opt w (apint_op SubExpr w cl c1) b)
            | BinaryExpr SubExpr (ConstantExpr w1 c1) b \<Rightarrow>
                bind_outcome (assert_that (w1 = w) ''type mismatch'')
                  (\<lambda>_. EqExpr_createPartialR opt w1 (apint_op SubExpr w1 c1 cl) b)
            | ReadExpr a us i \<Rightarrow>
                (if opt then TryConstArrayOpt (\<lambda>j. create_EqExpr_const opt (getWidth i) j i) w cl a us i
                 else EqExpr_create (ConstantExpr w cl) r)
            | _ \<Rightarrow> EqExpr_create (ConstantExpr w cl) r))"
| "create_EqExpr_const opt w c x =
     bind_outcome (assert_that (getWidth x = w) ''type mismatch'')
       (\<lambda>_. case x of
              ConstantExpr _ v \<Rightarrow> const_op EqExpr w v c
            | _ \<Rightarrow> EqExpr_createPartialR opt w c x)"
  by pat_completeness auto
termination
  by (relation "measure (\<lambda>p. case p of Inl (_, _, _, r) \<Rightarrow> 2 * size r | Inr (_, _, _, x) \<Rightarrow> 2 * size x + 1)")
    auto

definition EqExpr_createPartial :: "bool \<Rightarrow> expr \<Rightarrow> nat \<Rightarrow> int \<Rightarrow> expr outcome" where
  "EqExpr_createPartial opt l w cr = EqExpr_createPartialR opt w cr l"

definition create_EqExpr :: "bool \<Rightarrow> expr \<Rightarrow> expr \<Rightarrow> expr outcome" where
  "create_EqExpr opt = BCREATE_R EqExpr (EqExpr_createPartial opt) (EqExpr_createPartialR opt) EqExpr_create"

definition createIsZero :: "bool \<Rightarrow> expr \<Rightarrow> expr outcome" where
  "createIsZero opt e = create_EqExpr opt e (ConstantExpr (getWidth e) 0)"

definition create_NeExpr :: "bool \<Rightarrow> expr \<Rightarrow> expr \<Rightarrow> expr outcome" where
  "create_NeExpr opt l r = bind_outcome (create_EqExpr opt l r) (create_EqExpr opt (ConstantExpr Bool 0))"

definition createImplies :: "bool \<Rightarrow> expr \<Rightarrow> expr \<Rightarrow> expr outcome" where
  "createImplies opt hyp conc = bind_outcome (createIsZero opt hyp) (\<lambda>n. create_OrExpr n conc)"


section \<open>Exclusive or, sums and differences\<close>

definition XorExpr_createPartialR :: "bool \<Rightarrow> nat \<Rightarrow> int \<Rightarrow> expr \<Rightarrow> expr outcome" where
  "XorExpr_createPartialR opt w cl r =
     (if cl = 0 then Inr r
      else if w = Bool then EqExpr_createPartial opt r Bool 0
      else Inr (BinaryExpr XorExpr (ConstantExpr w cl) r))"

definition XorExpr_createPartial :: "bool \<Rightarrow> expr \<Rightarrow> nat \<Rightarrow> int \<Rightarrow> expr outcome" where
  "XorExpr_createPartial opt l w cr = XorExpr_createPartialR opt w cr l"

definition XorExpr_create :: "expr \<Rightarrow> expr \<Rightarrow> expr outcome" where
  "XorExpr_create l r = Inr (BinaryExpr XorExpr l r)"

definition create_XorExpr :: "bool \<Rightarrow> expr \<Rightarrow> expr \<Rightarrow> expr outcome" where
  "create_XorExpr opt = BCREATE_R XorExpr (XorExpr_createPartial opt) (XorExpr_createPartialR opt) XorExpr_create"

text \<open>
  A constant plus or minus an expression. The inner \<open>create\<close> of two constants folds them; the outer
  one has a constant on its left.
\<close>

function (sequential) AddExpr_createPartialR :: "bool \<Rightarrow> nat \<Rightarrow> int \<Rightarrow> expr \<Rightarrow> expr outcome"
  and SubExpr_createPartialR :: "bool \<Rightarrow> nat \<Rightarrow> int \<Rightarrow> expr \<Rightarrow> expr outcome"
  and create_AddExpr_const :: "bool \<Rightarrow> nat \<Rightarrow> int \<Rightarrow> expr \<Rightarrow> expr outcome"
  and create_SubExpr_const :: "bool \<Rightarrow> nat \<Rightarrow> int \<Rightarrow> expr \<Rightarrow> expr outcome" where
  "AddExpr_createPartialR opt w cl r =
     (if w = Bool then XorExpr_createPartialR opt w cl r
      else if cl = 0 then Inr r
      else (case r of
              BinaryExpr AddExpr (ConstantExpr w1 c1) x \<Rightarrow>
                bind_outcome (assert_that (w = w1) ''type mismatch'')
                  (\<lambda>_. create_AddExpr_const opt w (apint_op AddExpr w cl c1) x)
            | BinaryExpr SubExpr (ConstantExpr w1 c1) x \<Rightarrow>
                bind_outcome (assert_that (w = w1) ''type mismatch'')
                  (\<lambda>_. create_SubExpr_const opt w (apint_op AddExpr w cl c1) x)
            | _ \<Rightarrow> Inr (BinaryExpr AddExpr (ConstantExpr w cl) r)))"
| "SubExpr_createPartialR opt w cl r =
     (if w = Bool then XorExpr_createPartialR opt w cl r
      else (case r of
              BinaryExpr AddExpr (ConstantExpr w1 c1) x \<Rightarrow>
                bind_outcome (assert_that (w = w1) ''type mismatch'')
                  (\<lambda>_. create_SubExpr_const opt w (apint_op SubExpr w cl c1) x)
            | BinaryExpr SubExpr (ConstantExpr w1 c1) x \<Rightarrow>
                bind_outcome (assert_that (w = w1) ''type mismatch'')
                  (\<lambda>_. create_AddExpr_const opt w (apint_op SubExpr w cl c1) x)
            | _ \<Rightarrow> Inr (BinaryExpr SubExpr (ConstantExpr w cl) r)))"
| "create_AddExpr_const opt w c x =
     bind_outcome (assert_that (w = getWidth x) ''type mismatch'')
       (\<lambda>_. case x of
              ConstantExpr _ v \<Rightarrow> const_op AddExpr w c v
            | _ \<Rightarrow> AddExpr_createPartialR opt w c x)"
| "create_SubExpr_const opt w c x =
     bind_outcome (assert_that (w = getWidth x) ''type mismatch'')
       (\<lambda>_. case x of
              ConstantExpr _ v \<Rightarrow> const_op SubExpr w c v
            | _ \<Rightarrow> SubExpr_createPartialR opt w c x)"
  by pat_completeness auto
termination
  by (relation "measure (\<lambda>p. case p of
        Inl (Inl (_, _, _, r)) \<Rightarrow> 2 * size r | Inl (Inr (_, _, _, r)) \<Rightarrow> 2 * size r
      | Inr (Inl (_, _, _, x)) \<Rightarrow> 2 * size x + 1 | Inr (Inr (_, _, _, x)) \<Rightarrow> 2 * size x + 1)")
    auto

definition AddExpr_createPartial :: "bool \<Rightarrow> expr \<Rightarrow> nat \<Rightarrow> int \<Rightarrow> expr outcome" where
  "AddExpr_createPartial opt l w cr = AddExpr_createPartialR opt w cr l"

definition SubExpr_createPartial :: "bool \<Rightarrow> expr \<Rightarrow> nat \<Rightarrow> int \<Rightarrow> expr outcome" where
  "SubExpr_createPartial opt l w cr = AddExpr_createPartial opt l w (apint_op SubExpr w 0 cr)"

text \<open>
  \<open>SubExpr::create(x, c)\<close>, and the general case, in which neither operand of the helpers is constant.
\<close>

definition create_SubExpr_constR :: "bool \<Rightarrow> expr \<Rightarrow> nat \<Rightarrow> int \<Rightarrow> expr outcome" where
  "create_SubExpr_constR opt x w c =
     bind_outcome (assert_that (getWidth x = w) ''type mismatch'')
       (\<lambda>_. case x of
              ConstantExpr _ v \<Rightarrow> const_op SubExpr w v c
            | _ \<Rightarrow> SubExpr_createPartial opt x w c)"

text \<open>An operand of the form \<open>k + a\<close> or \<open>k - a\<close> with a constant \<open>k\<close>.\<close>

fun offset_form :: "expr \<Rightarrow> (bool \<times> nat \<times> int \<times> expr) option" where
  "offset_form (BinaryExpr AddExpr (ConstantExpr w k) a) = Some (True, w, k, a)"
| "offset_form (BinaryExpr SubExpr (ConstantExpr w k) a) = Some (False, w, k, a)"
| "offset_form _ = None"

lemma offset_form_size: "offset_form e = Some (b, w, k, a) \<Longrightarrow> size a < size e"
  by (induction e rule: offset_form.induct) auto

function (sequential) AddExpr_create :: "bool \<Rightarrow> expr \<Rightarrow> expr \<Rightarrow> expr outcome"
  and SubExpr_create :: "bool \<Rightarrow> expr \<Rightarrow> expr \<Rightarrow> expr outcome"
  and create_AddExpr :: "bool \<Rightarrow> expr \<Rightarrow> expr \<Rightarrow> expr outcome"
  and create_SubExpr :: "bool \<Rightarrow> expr \<Rightarrow> expr \<Rightarrow> expr outcome" where
  "AddExpr_create opt l r =
     (if getWidth l = Bool then XorExpr_create l r
      else (case offset_form l of
              Some (True, w, k, a) \<Rightarrow> bind_outcome (create_AddExpr opt a r) (create_AddExpr_const opt w k)
            | Some (False, w, k, a) \<Rightarrow> bind_outcome (create_SubExpr opt r a) (create_AddExpr_const opt w k)
            | None \<Rightarrow>
                (case offset_form r of
                   Some (True, w, k, b) \<Rightarrow> bind_outcome (create_AddExpr opt l b) (create_AddExpr_const opt w k)
                 | Some (False, w, k, b) \<Rightarrow> bind_outcome (create_SubExpr opt l b) (create_AddExpr_const opt w k)
                 | None \<Rightarrow> Inr (BinaryExpr AddExpr l r))))"
| "SubExpr_create opt l r =
     (if getWidth l = Bool then XorExpr_create l r
      else if l = r then Inr (ConstantExpr (getWidth l) 0)
      else (case offset_form l of
              Some (True, w, k, a) \<Rightarrow> bind_outcome (create_SubExpr opt a r) (create_AddExpr_const opt w k)
            | Some (False, w, k, a) \<Rightarrow> bind_outcome (create_AddExpr opt a r) (create_SubExpr_const opt w k)
            | None \<Rightarrow>
                (case offset_form r of
                   Some (True, w, k, b) \<Rightarrow>
                     bind_outcome (create_SubExpr opt l b) (\<lambda>x. create_SubExpr_constR opt x w k)
                 | Some (False, w, k, b) \<Rightarrow>
                     bind_outcome (create_AddExpr opt l b) (\<lambda>x. create_SubExpr_constR opt x w k)
                 | None \<Rightarrow> Inr (BinaryExpr SubExpr l r))))"
| "create_AddExpr opt l r =
     bind_outcome (assert_that (getWidth l = getWidth r) ''type mismatch'')
       (\<lambda>_. case l of
              ConstantExpr w cl \<Rightarrow>
                (case r of ConstantExpr _ cr \<Rightarrow> const_op AddExpr w cl cr | _ \<Rightarrow> AddExpr_createPartialR opt w cl r)
            | _ \<Rightarrow>
                (case r of ConstantExpr w cr \<Rightarrow> AddExpr_createPartial opt l w cr | _ \<Rightarrow> AddExpr_create opt l r))"
| "create_SubExpr opt l r =
     bind_outcome (assert_that (getWidth l = getWidth r) ''type mismatch'')
       (\<lambda>_. case l of
              ConstantExpr w cl \<Rightarrow>
                (case r of ConstantExpr _ cr \<Rightarrow> const_op SubExpr w cl cr | _ \<Rightarrow> SubExpr_createPartialR opt w cl r)
            | _ \<Rightarrow>
                (case r of ConstantExpr w cr \<Rightarrow> SubExpr_createPartial opt l w cr | _ \<Rightarrow> SubExpr_create opt l r))"
  by pat_completeness auto
termination
  by (relation "measure (\<lambda>p. case p of
        Inl (Inl (_, l, r)) \<Rightarrow> 2 * (size l + size r) | Inl (Inr (_, l, r)) \<Rightarrow> 2 * (size l + size r)
      | Inr (Inl (_, l, r)) \<Rightarrow> 2 * (size l + size r) + 1 | Inr (Inr (_, l, r)) \<Rightarrow> 2 * (size l + size r) + 1)")
    (auto dest: offset_form_size)


section \<open>Products, quotients and shifts\<close>

definition MulExpr_createPartialR :: "nat \<Rightarrow> int \<Rightarrow> expr \<Rightarrow> expr outcome" where
  "MulExpr_createPartialR w cl r =
     (if w = Bool then AndExpr_createPartialR w cl r
      else if cl = 1 then Inr r
      else if cl = 0 then Inr (ConstantExpr w cl)
      else Inr (BinaryExpr MulExpr (ConstantExpr w cl) r))"

definition MulExpr_createPartial :: "expr \<Rightarrow> nat \<Rightarrow> int \<Rightarrow> expr outcome" where
  "MulExpr_createPartial l w cr = MulExpr_createPartialR w cr l"

definition MulExpr_create :: "expr \<Rightarrow> expr \<Rightarrow> expr outcome" where
  "MulExpr_create l r = (if getWidth l = Bool then Inr (BinaryExpr AndExpr l r) else Inr (BinaryExpr MulExpr l r))"

definition create_MulExpr :: "expr \<Rightarrow> expr \<Rightarrow> expr outcome" where
  "create_MulExpr = BCREATE_R MulExpr MulExpr_createPartial MulExpr_createPartialR MulExpr_create"

definition UDivExpr_create :: "expr \<Rightarrow> expr \<Rightarrow> expr outcome" where
  "UDivExpr_create l r = (if getWidth l = Bool then Inr l else Inr (BinaryExpr UDivExpr l r))"

definition SDivExpr_create :: "expr \<Rightarrow> expr \<Rightarrow> expr outcome" where
  "SDivExpr_create l r = (if getWidth l = Bool then Inr l else Inr (BinaryExpr SDivExpr l r))"

definition URemExpr_create :: "expr \<Rightarrow> expr \<Rightarrow> expr outcome" where
  "URemExpr_create l r = (if getWidth l = Bool then Inr (ConstantExpr Bool 0) else Inr (BinaryExpr URemExpr l r))"

definition SRemExpr_create :: "expr \<Rightarrow> expr \<Rightarrow> expr outcome" where
  "SRemExpr_create l r = (if getWidth l = Bool then Inr (ConstantExpr Bool 0) else Inr (BinaryExpr SRemExpr l r))"

definition create_UDivExpr :: "expr \<Rightarrow> expr \<Rightarrow> expr outcome" where
  "create_UDivExpr = BCREATE UDivExpr UDivExpr_create"

definition create_SDivExpr :: "expr \<Rightarrow> expr \<Rightarrow> expr outcome" where
  "create_SDivExpr = BCREATE SDivExpr SDivExpr_create"

definition create_URemExpr :: "expr \<Rightarrow> expr \<Rightarrow> expr outcome" where
  "create_URemExpr = BCREATE URemExpr URemExpr_create"

definition create_SRemExpr :: "expr \<Rightarrow> expr \<Rightarrow> expr outcome" where
  "create_SRemExpr = BCREATE SRemExpr SRemExpr_create"

definition ShlExpr_create :: "bool \<Rightarrow> expr \<Rightarrow> expr \<Rightarrow> expr outcome" where
  "ShlExpr_create opt l r =
     (if getWidth l = Bool then bind_outcome (createIsZero opt r) (create_AndExpr l)
      else Inr (BinaryExpr ShlExpr l r))"

definition LShrExpr_create :: "bool \<Rightarrow> expr \<Rightarrow> expr \<Rightarrow> expr outcome" where
  "LShrExpr_create opt l r =
     (if getWidth l = Bool then bind_outcome (createIsZero opt r) (create_AndExpr l)
      else Inr (BinaryExpr LShrExpr l r))"

definition AShrExpr_create :: "expr \<Rightarrow> expr \<Rightarrow> expr outcome" where
  "AShrExpr_create l r = (if getWidth l = Bool then Inr l else Inr (BinaryExpr AShrExpr l r))"

definition create_ShlExpr :: "bool \<Rightarrow> expr \<Rightarrow> expr \<Rightarrow> expr outcome" where
  "create_ShlExpr opt = BCREATE ShlExpr (ShlExpr_create opt)"

definition create_LShrExpr :: "bool \<Rightarrow> expr \<Rightarrow> expr \<Rightarrow> expr outcome" where
  "create_LShrExpr opt = BCREATE LShrExpr (LShrExpr_create opt)"

definition create_AShrExpr :: "expr \<Rightarrow> expr \<Rightarrow> expr outcome" where
  "create_AShrExpr = BCREATE AShrExpr AShrExpr_create"


section \<open>Orders\<close>

definition UltExpr_create :: "bool \<Rightarrow> expr \<Rightarrow> expr \<Rightarrow> expr outcome" where
  "UltExpr_create opt l r =
     (if getWidth l = Bool then bind_outcome (createIsZero opt l) (\<lambda>n. create_AndExpr n r)
      else Inr (BinaryExpr UltExpr l r))"

definition UleExpr_create :: "bool \<Rightarrow> expr \<Rightarrow> expr \<Rightarrow> expr outcome" where
  "UleExpr_create opt l r =
     (if getWidth l = Bool then bind_outcome (createIsZero opt l) (\<lambda>n. create_OrExpr n r)
      else Inr (BinaryExpr UleExpr l r))"

definition SltExpr_create :: "bool \<Rightarrow> expr \<Rightarrow> expr \<Rightarrow> expr outcome" where
  "SltExpr_create opt l r =
     (if getWidth l = Bool then bind_outcome (createIsZero opt r) (create_AndExpr l)
      else Inr (BinaryExpr SltExpr l r))"

definition SleExpr_create :: "bool \<Rightarrow> expr \<Rightarrow> expr \<Rightarrow> expr outcome" where
  "SleExpr_create opt l r =
     (if getWidth l = Bool then bind_outcome (createIsZero opt r) (create_OrExpr l)
      else Inr (BinaryExpr SleExpr l r))"

definition create_UltExpr :: "bool \<Rightarrow> expr \<Rightarrow> expr \<Rightarrow> expr outcome" where
  "create_UltExpr opt = BCREATE UltExpr (UltExpr_create opt)"

definition create_UleExpr :: "bool \<Rightarrow> expr \<Rightarrow> expr \<Rightarrow> expr outcome" where
  "create_UleExpr opt = BCREATE UleExpr (UleExpr_create opt)"

definition create_SltExpr :: "bool \<Rightarrow> expr \<Rightarrow> expr \<Rightarrow> expr outcome" where
  "create_SltExpr opt = BCREATE SltExpr (SltExpr_create opt)"

definition create_SleExpr :: "bool \<Rightarrow> expr \<Rightarrow> expr \<Rightarrow> expr outcome" where
  "create_SleExpr opt = BCREATE SleExpr (SleExpr_create opt)"

definition create_UgtExpr :: "bool \<Rightarrow> expr \<Rightarrow> expr \<Rightarrow> expr outcome" where
  "create_UgtExpr opt l r = create_UltExpr opt r l"

definition create_UgeExpr :: "bool \<Rightarrow> expr \<Rightarrow> expr \<Rightarrow> expr outcome" where
  "create_UgeExpr opt l r = create_UleExpr opt r l"

definition create_SgtExpr :: "bool \<Rightarrow> expr \<Rightarrow> expr \<Rightarrow> expr outcome" where
  "create_SgtExpr opt l r = create_SltExpr opt r l"

definition create_SgeExpr :: "bool \<Rightarrow> expr \<Rightarrow> expr \<Rightarrow> expr outcome" where
  "create_SgeExpr opt l r = create_SleExpr opt r l"

text \<open>\<open>createFromKind\<close> for the binary kinds.\<close>

fun createFromKind :: "bool \<Rightarrow> binary_kind \<Rightarrow> expr \<Rightarrow> expr \<Rightarrow> expr outcome" where
  "createFromKind opt AddExpr l r = create_AddExpr opt l r"
| "createFromKind opt SubExpr l r = create_SubExpr opt l r"
| "createFromKind opt MulExpr l r = create_MulExpr l r"
| "createFromKind opt UDivExpr l r = create_UDivExpr l r"
| "createFromKind opt SDivExpr l r = create_SDivExpr l r"
| "createFromKind opt URemExpr l r = create_URemExpr l r"
| "createFromKind opt SRemExpr l r = create_SRemExpr l r"
| "createFromKind opt AndExpr l r = create_AndExpr l r"
| "createFromKind opt OrExpr l r = create_OrExpr l r"
| "createFromKind opt XorExpr l r = create_XorExpr opt l r"
| "createFromKind opt ShlExpr l r = create_ShlExpr opt l r"
| "createFromKind opt LShrExpr l r = create_LShrExpr opt l r"
| "createFromKind opt AShrExpr l r = create_AShrExpr l r"
| "createFromKind opt EqExpr l r = create_EqExpr opt l r"
| "createFromKind opt NeExpr l r = create_NeExpr opt l r"
| "createFromKind opt UltExpr l r = create_UltExpr opt l r"
| "createFromKind opt UleExpr l r = create_UleExpr opt l r"
| "createFromKind opt UgtExpr l r = create_UgtExpr opt l r"
| "createFromKind opt UgeExpr l r = create_UgeExpr opt l r"
| "createFromKind opt SltExpr l r = create_SltExpr opt l r"
| "createFromKind opt SleExpr l r = create_SleExpr opt l r"
| "createFromKind opt SgtExpr l r = create_SgtExpr opt l r"
| "createFromKind opt SgeExpr l r = create_SgeExpr opt l r"

definition create_NotOptimizedExpr :: "expr \<Rightarrow> expr" where
  "create_NotOptimizedExpr src = NotOptimizedExpr src"

definition create_NotExpr :: "expr \<Rightarrow> expr" where
  "create_NotExpr e =
     (case e of ConstantExpr w c \<Rightarrow> ConstantExpr w (const_Not w c) | _ \<Rightarrow> NotExpr e)"

definition create_SelectExpr :: "bool \<Rightarrow> expr \<Rightarrow> expr \<Rightarrow> expr \<Rightarrow> expr outcome" where
  "create_SelectExpr opt c t f =
     bind_outcome (assert_that (getWidth c = Bool) ''type mismatch'')
       (\<lambda>_. bind_outcome (assert_that (getWidth t = getWidth f) ''type mismatch'')
          (\<lambda>_. case c of
                 ConstantExpr w cc \<Rightarrow> if w = Bool \<and> cc \<noteq> 0 then Inr t else Inr f
               | _ \<Rightarrow>
                   if t = f then Inr t
                   else if getWidth t = Bool
                   then (case t of
                           ConstantExpr w1 ct \<Rightarrow>
                             if w1 = Bool \<and> ct \<noteq> 0 then create_OrExpr c f
                             else bind_outcome (createIsZero opt c) (\<lambda>n. create_AndExpr n f)
                         | _ \<Rightarrow>
                             (case f of
                                ConstantExpr w2 cf \<Rightarrow>
                                  if w2 = Bool \<and> cf \<noteq> 0
                                  then bind_outcome (createIsZero opt c) (\<lambda>n. create_OrExpr n t)
                                  else create_AndExpr c t
                              | _ \<Rightarrow> Inr (SelectExpr c t f)))
                   else Inr (SelectExpr c t f)))"


section \<open>Concatenation and extraction\<close>

text \<open>
  Extracting from a concatenation concatenates the extracts of its parts, and concatenating
  contiguous extracts of one expression extracts from it. The width of the left part is computed
  as \<open>w - width(right) + off\<close> on unsigned integers, which is \<open>w + off - width(right)\<close>.
\<close>

function (sequential) create_ExtractExpr :: "expr \<Rightarrow> nat \<Rightarrow> nat \<Rightarrow> expr outcome"
  and create_ConcatExpr :: "expr \<Rightarrow> expr \<Rightarrow> expr outcome" where
  "create_ExtractExpr e off w =
     bind_outcome (assert_that (0 < w \<and> off + w \<le> getWidth e) ''invalid extract'')
       (\<lambda>_. if w = getWidth e then Inr e
            else (case e of
                    ConstantExpr kw c \<Rightarrow> Inr (const_Extract kw c off w)
                  | ConcatExpr l r \<Rightarrow>
                      (if getWidth r \<le> off then create_ExtractExpr l (off - getWidth r) w
                       else if off + w \<le> getWidth r then create_ExtractExpr r off w
                       else bind_outcome (create_ExtractExpr l 0 (w + off - getWidth r))
                              (\<lambda>x. bind_outcome (create_ExtractExpr r off (getWidth r - off))
                                 (\<lambda>y. create_ConcatExpr x y)))
                  | _ \<Rightarrow> Inr (ExtractExpr e off w)))"
| "create_ConcatExpr l r =
     (case (l, r) of
        (ConstantExpr wl a, ConstantExpr wr b) \<Rightarrow> Inr (const_Concat wl a wr b)
      | (ExtractExpr e1 o1 w1, ExtractExpr e2 o2 w2) \<Rightarrow>
          (if e1 = e2 \<and> o2 + w2 = o1 then create_ExtractExpr e1 o2 (getWidth l + getWidth r)
           else Inr (ConcatExpr l r))
      | _ \<Rightarrow> Inr (ConcatExpr l r))"
  by pat_completeness auto

lemma create_ExtractExpr_smaller:
  "create_ExtractExpr_create_ConcatExpr_dom (Inl (e, off, w)) \<Longrightarrow>
     create_ExtractExpr e off w = Inr (ExtractExpr e' o' w') \<Longrightarrow> size e' \<le> size e"
  and create_ConcatExpr_smaller:
  "create_ExtractExpr_create_ConcatExpr_dom (Inr (l, r)) \<Longrightarrow>
     create_ConcatExpr l r = Inr (ExtractExpr e' o' w') \<Longrightarrow> \<exists>e1 o1 w1. l = ExtractExpr e1 o1 w1 \<and> size e' \<le> size e1"
proof (induction e off w and l r arbitrary: e' o' w' and e' o' w'
    rule: create_ExtractExpr_create_ConcatExpr.pinduct)
  case (1 e off w)
  note eq = "1.prems" [unfolded create_ExtractExpr.psimps [OF "1.hyps"] bind_eq_Inr_iff assert_that_Inr_iff]
  show ?case
  proof (cases "w = getWidth e")
    case True
    with eq have "e = ExtractExpr e' o' w'" by simp
    then show ?thesis by simp
  next
    case False
    from eq have a: "assert_that (0 < w \<and> off + w \<le> getWidth e) ''invalid extract'' = Inr ()"
      by (simp add: outcome_simps)
    show ?thesis
    proof (cases e)
      case e: (ConcatExpr l r)
      consider "getWidth r \<le> off" | "\<not> getWidth r \<le> off" "off + w \<le> getWidth r"
        | "\<not> getWidth r \<le> off" "\<not> off + w \<le> getWidth r" by blast
      then show ?thesis
      proof cases
        case 1
        with eq False e "1.IH"(1) [OF a False e 1] show ?thesis by force
      next
        case 2
        with eq False e "1.IH"(2) [OF a False e 2] show ?thesis by force
      next
        case 3
        with eq False e obtain x y where x: "create_ExtractExpr l 0 (w + off - getWidth r) = Inr x"
          and y: "create_ExtractExpr r off (getWidth r - off) = Inr y"
          and xy: "create_ConcatExpr x y = Inr (ExtractExpr e' o' w')"
          by (auto simp: outcome_simps)
        from "1.IH"(5) [OF a False e 3 x y xy] obtain e1 o1 w1 where x1: "x = ExtractExpr e1 o1 w1"
          and le: "size e' \<le> size e1" by blast
        from "1.IH"(3) [OF a False e 3 x [unfolded x1]] le e show ?thesis by simp
      qed
    qed (use eq False in \<open>auto simp: const_Extract_def\<close>)
  qed
next
  case (2 l r)
  note eq = "2.prems" [unfolded create_ConcatExpr.psimps [OF "2.hyps"]]
  from eq obtain e1 o1 w1 o2 w2 where "l = ExtractExpr e1 o1 w1" "r = ExtractExpr e1 o2 w2" "o2 + w2 = o1"
    "create_ExtractExpr e1 o2 (getWidth l + getWidth r) = Inr (ExtractExpr e' o' w')"
    by (auto simp: const_Concat_def split: expr.splits if_splits)
  with "2.IH" [of l r e1 o1 w1 e1 o2 w2] show ?case by simp
qed

termination create_ExtractExpr
  by (relation "measure (\<lambda>p. case p of Inl (e, _, _) \<Rightarrow> 2 * size e
      | Inr (l, _) \<Rightarrow> (case l of ExtractExpr e _ _ \<Rightarrow> 2 * size e + 1 | _ \<Rightarrow> 0))")
    (auto split: expr.splits dest!: create_ExtractExpr_smaller)

definition create_ZExtExpr :: "expr \<Rightarrow> nat \<Rightarrow> expr outcome" where
  "create_ZExtExpr e w =
     (if w = getWidth e then Inr e
      else if w < getWidth e then create_ExtractExpr e 0 w
      else (case e of
              ConstantExpr _ c \<Rightarrow> Inr (ConstantExpr w (const_ZExt c w))
            | _ \<Rightarrow> Inr (ZExtExpr e w)))"

definition create_SExtExpr :: "expr \<Rightarrow> nat \<Rightarrow> expr outcome" where
  "create_SExtExpr e w =
     (if w = getWidth e then Inr e
      else if w < getWidth e then create_ExtractExpr e 0 w
      else (case e of
              ConstantExpr kw c \<Rightarrow> Inr (ConstantExpr w (const_SExt kw c w))
            | _ \<Rightarrow> Inr (SExtExpr e w)))"

text \<open>\<open>createN\<close> asserts that there is a kid and builds a chain to the right.\<close>

definition createN :: "expr list \<Rightarrow> expr outcome" where
  "createN kids =
     (if kids = [] then Inl (Assertion ''n_kids > 0'')
      else fold_outcome (\<lambda>k r. create_ConcatExpr k r) (rev (butlast kids)) (last kids))"

definition create4 :: "expr \<Rightarrow> expr \<Rightarrow> expr \<Rightarrow> expr \<Rightarrow> expr outcome" where
  "create4 k1 k2 k3 k4 =
     bind_outcome (create_ConcatExpr k3 k4)
       (\<lambda>r. bind_outcome (create_ConcatExpr k2 r) (create_ConcatExpr k1))"

definition create8 :: "expr \<Rightarrow> expr \<Rightarrow> expr \<Rightarrow> expr \<Rightarrow> expr \<Rightarrow> expr \<Rightarrow> expr \<Rightarrow> expr \<Rightarrow> expr outcome" where
  "create8 k1 k2 k3 k4 k5 k6 k7 k8 =
     bind_outcome (create4 k5 k6 k7 k8)
       (\<lambda>r. bind_outcome (create_ConcatExpr k4 r)
          (\<lambda>r. bind_outcome (create_ConcatExpr k3 r)
             (\<lambda>r. bind_outcome (create_ConcatExpr k2 r) (create_ConcatExpr k1))))"


section \<open>Reads\<close>

text \<open>The updates that are certainly elsewhere are skipped.\<close>

fun read_updates :: "bool \<Rightarrow> expr \<Rightarrow> updates \<Rightarrow> expr option outcome" where
  "read_updates opt index No_Update = Inr None"
| "read_updates opt index (UpdateNode i v next) =
     bind_outcome (create_EqExpr opt index i)
       (\<lambda>cond. case cond of
                 ConstantExpr w c \<Rightarrow> if w = Bool \<and> c \<noteq> 0 then Inr (Some v) else read_updates opt index next
               | _ \<Rightarrow> Inr None)"

definition create_ReadExpr :: "bool \<Rightarrow> array \<Rightarrow> updates \<Rightarrow> expr \<Rightarrow> expr outcome" where
  "create_ReadExpr opt a us index =
     bind_outcome (read_updates opt index us)
       (\<lambda>r. case r of Some v \<Rightarrow> Inr v | None \<Rightarrow> Inr (ReadExpr a us index))"

text \<open>
  \<open>createTempRead\<close>: a little-endian read at offset \<open>0\<close>. The default case asserts and, without assertions,
  would fall into the one-bit case.
\<close>

definition temp_byte :: "bool \<Rightarrow> array \<Rightarrow> nat \<Rightarrow> expr outcome" where
  "temp_byte opt a n = create_ReadExpr opt a No_Update (ConstantExpr 32 (int n))"

definition createTempRead :: "bool \<Rightarrow> array \<Rightarrow> nat \<Rightarrow> expr outcome" where
  "createTempRead opt a w =
     (let b = temp_byte opt a
      in if w = 1 then bind_outcome (b 0) (\<lambda>e. create_ZExtExpr e Bool)
         else if w = 8 then b 0
         else if w = 16 then bind_outcome (b 1) (\<lambda>b1. bind_outcome (b 0) (create_ConcatExpr b1))
         else if w = 32
         then bind_outcome (b 3) (\<lambda>b3. bind_outcome (b 2) (\<lambda>b2. bind_outcome (b 1)
                (\<lambda>b1. bind_outcome (b 0) (\<lambda>b0. create4 b3 b2 b1 b0))))
         else if w = 64
         then bind_outcome (b 7) (\<lambda>b7. bind_outcome (b 6) (\<lambda>b6. bind_outcome (b 5) (\<lambda>b5. bind_outcome (b 4)
                (\<lambda>b4. bind_outcome (b 3) (\<lambda>b3. bind_outcome (b 2) (\<lambda>b2. bind_outcome (b 1)
                   (\<lambda>b1. bind_outcome (b 0) (\<lambda>b0. create8 b7 b6 b5 b4 b3 b2 b1 b0))))))))
         else Inl (Assertion ''invalid width''))"

text \<open>The equations of the recursive constructors apply to every call, so they are only used by name.\<close>

declare EqExpr_createPartialR.simps [simp del] create_EqExpr_const.simps [simp del]
declare AddExpr_createPartialR.simps [simp del] SubExpr_createPartialR.simps [simp del]
declare create_AddExpr_const.simps [simp del] create_SubExpr_const.simps [simp del]
declare AddExpr_create.simps [simp del] SubExpr_create.simps [simp del]
declare create_AddExpr.simps [simp del] create_SubExpr.simps [simp del]
declare create_ExtractExpr.simps [simp del] create_ConcatExpr.simps [simp del]

end
