(* ===== verification/Expr_Correct.thy ===== *)
theory Expr_Correct
  imports Expr_Create
begin

text \<open>
  Correctness of the simplifying constructors of \<^verbatim>\<open>Expr_Create\<close>: on well-typed operands they run into no
  assertion and return a well-typed expression of the right width with the value of the
  unsimplified expression, whatever the arrays contain.
\<close>

section \<open>What a constructor returns\<close>

definition computes :: "expr outcome \<Rightarrow> nat \<Rightarrow> (env \<Rightarrow> int) \<Rightarrow> bool" where
  "computes r w v \<longleftrightarrow> (\<exists>e. r = Inr e \<and> welltyped e \<and> getWidth e = w \<and> (\<forall>env. eval env e = v env))"

lemma computes_Inr [simp]:
  "computes (Inr e) w v \<longleftrightarrow> welltyped e \<and> getWidth e = w \<and> (\<forall>env. eval env e = v env)"
  by (simp add: computes_def)

lemma computes_bind:
  assumes "computes r w v"
    and "\<And>e. welltyped e \<Longrightarrow> getWidth e = w \<Longrightarrow> (\<And>env. eval env e = v env) \<Longrightarrow> computes (f e) w' v'"
  shows "computes (bind_outcome r f) w' v'"
  using assms by (auto simp: computes_def)

lemma computes_cong: "computes r w v \<Longrightarrow> (\<And>env. v env = v' env) \<Longrightarrow> computes r w v'"
  by (simp add: computes_def)

definition result_width :: "binary_kind \<Rightarrow> nat \<Rightarrow> nat" where
  "result_width k w = (if isCmp k then Bool else w)"

lemma const_op_computes:
  assumes "in_width w a" and "in_width w b" and "0 < w" and "isDivision k \<Longrightarrow> b \<noteq> 0"
  shows "computes (const_op k w a b) (result_width k w) (\<lambda>_. apint_op k w a b)"
  using assms in_width_apint_op [OF assms(1-3), of k] by (auto simp: const_op_def result_width_def)

lemma BCREATE_R_computes:
  assumes l: "welltyped l" and r: "welltyped r" and w: "getWidth l = getWidth r" and nd: "\<not> isDivision k"
    and R: "\<And>w c. in_width w c \<Longrightarrow> getWidth r = w \<Longrightarrow> \<not> isConstant r \<Longrightarrow>
      computes (partialR w c r) (result_width k w) (\<lambda>env. apint_op k w c (eval env r))"
    and L: "\<And>w c. in_width w c \<Longrightarrow> getWidth l = w \<Longrightarrow> \<not> isConstant l \<Longrightarrow>
      computes (partialL l w c) (result_width k w) (\<lambda>env. apint_op k w (eval env l) c)"
    and F: "\<not> isConstant l \<Longrightarrow> \<not> isConstant r \<Longrightarrow>
      computes (full l r) (result_width k (getWidth l)) (\<lambda>env. apint_op k (getWidth l) (eval env l) (eval env r))"
  shows "computes (BCREATE_R k partialL partialR full l r) (result_width k (getWidth l))
    (\<lambda>env. apint_op k (getWidth l) (eval env l) (eval env r))"
proof (cases "isConstant l")
  case True
  then obtain wl cl where cl: "l = ConstantExpr wl cl" by (cases l) auto
  with l have rng: "0 < wl" "in_width wl cl" by simp_all
  show ?thesis
  proof (cases "isConstant r")
    case True
    with w cl obtain cr where "r = ConstantExpr wl cr" by (cases r) auto
    with rng cl r nd show ?thesis using const_op_computes [of wl cl cr k] by (simp add: BCREATE_R_def)
  next
    case False
    with w cl have "BCREATE_R k partialL partialR full l r = partialR wl cl r"
      by (cases r) (auto simp: BCREATE_R_def)
    with R [OF rng(2) _ False] w cl show ?thesis by simp
  qed
next
  case nl: False
  show ?thesis
  proof (cases "isConstant r")
    case True
    then obtain cr where cr: "r = ConstantExpr (getWidth l) cr" using w by (cases r) auto
    with nl have "BCREATE_R k partialL partialR full l r = partialL l (getWidth l) cr"
      by (cases l) (auto simp: BCREATE_R_def)
    with L [OF _ _ nl] cr r show ?thesis by simp
  next
    case False
    with w nl have "BCREATE_R k partialL partialR full l r = full l r"
      by (cases l; cases r) (auto simp: BCREATE_R_def)
    with F [OF nl False] show ?thesis by simp
  qed
qed

lemma BCREATE_computes:
  assumes l: "welltyped l" and r: "welltyped r" and w: "getWidth l = getWidth r"
    and nz: "isDivision k \<Longrightarrow> \<not> isConstant l \<or> r \<noteq> ConstantExpr (getWidth r) 0"
    and F: "computes (full l r) (result_width k (getWidth l)) v"
    and v: "\<And>env. isConstant l \<Longrightarrow> isConstant r \<Longrightarrow> v env = apint_op k (getWidth l) (eval env l) (eval env r)"
  shows "computes (BCREATE k full l r) (result_width k (getWidth l)) v"
proof (cases "isConstant l \<and> isConstant r")
  case True
  with w obtain wl cl cr where c: "l = ConstantExpr wl cl" "r = ConstantExpr wl cr" by (cases l; cases r) auto
  with l r have rng: "0 < wl" "in_width wl cl" "in_width wl cr" by simp_all
  have "v = (\<lambda>_. apint_op k wl cl cr)" using v c by auto
  with rng c nz const_op_computes [of wl cl cr k] show ?thesis by (simp add: BCREATE_def)
next
  case False
  then have "BCREATE k full l r = full l r" using w by (cases l; cases r) (auto simp: BCREATE_def)
  with F show ?thesis by simp
qed


section \<open>Bitwise operations\<close>

lemma and_mask_in_width: "in_width w a \<Longrightarrow> a AND mask w = a"
  by (simp add: in_width_iff flip: take_bit_eq_mask)

lemma or_mask_in_width: "in_width w a \<Longrightarrow> a OR mask w = mask w"
  unfolding in_width_iff by (rule bit_eqI) (auto simp: bit_or_iff bit_mask_iff, metis bit_take_bit_iff)

lemma AndExpr_createPartial_computes:
  assumes "welltyped l" and "in_width w c" and "getWidth l = w"
  shows "computes (AndExpr_createPartial l w c) w (\<lambda>env. eval env l AND c)"
  using assms eval_in_width [OF assms(1)] getWidth_pos [OF assms(1)]
  by (auto simp: AndExpr_createPartial_def isAllOnes_def and_mask_in_width isCmp_def)

lemma OrExpr_createPartial_computes:
  assumes "welltyped l" and "in_width w c" and "getWidth l = w"
  shows "computes (OrExpr_createPartial l w c) w (\<lambda>env. eval env l OR c)"
  using assms eval_in_width [OF assms(1)] getWidth_pos [OF assms(1)]
  by (auto simp: OrExpr_createPartial_def isAllOnes_def or_mask_in_width isCmp_def)

lemma create_AndExpr_computes:
  assumes "welltyped l" and "welltyped r" and "getWidth l = getWidth r"
  shows "computes (create_AndExpr l r) (getWidth l) (\<lambda>env. eval env l AND eval env r)"
proof -
  have "computes (create_AndExpr l r) (result_width AndExpr (getWidth l))
      (\<lambda>env. apint_op AndExpr (getWidth l) (eval env l) (eval env r))"
    unfolding create_AndExpr_def
    by (rule BCREATE_R_computes)
      (use assms AndExpr_createPartial_computes in
        \<open>auto simp: AndExpr_createPartialR_def AndExpr_create_def isDivision_def isCmp_def result_width_def and.commute\<close>)
  then show ?thesis by (simp add: isCmp_def result_width_def)
qed

lemma create_OrExpr_computes:
  assumes "welltyped l" and "welltyped r" and "getWidth l = getWidth r"
  shows "computes (create_OrExpr l r) (getWidth l) (\<lambda>env. eval env l OR eval env r)"
proof -
  have "computes (create_OrExpr l r) (result_width OrExpr (getWidth l))
      (\<lambda>env. apint_op OrExpr (getWidth l) (eval env l) (eval env r))"
    unfolding create_OrExpr_def
    by (rule BCREATE_R_computes)
      (use assms OrExpr_createPartial_computes in
        \<open>auto simp: OrExpr_createPartialR_def OrExpr_create_def isDivision_def isCmp_def result_width_def or.commute\<close>)
  then show ?thesis by (simp add: isCmp_def result_width_def)
qed


section \<open>Equality\<close>

lemma EqExpr_create_computes:
  assumes "welltyped l" and "welltyped r" and "getWidth l = getWidth r"
  shows "computes (EqExpr_create l r) (Suc 0) (\<lambda>env. truth (eval env l = eval env r))"
  using assms by (auto simp: EqExpr_create_def isCmp_def truth_def in_width_Bool)

lemma eq_add_iff:
  assumes "in_width w c" and "in_width w b"
  shows "c = take_bit w (k + b) \<longleftrightarrow> take_bit w (c - k) = b"
proof -
  have "c mod 2 ^ w = c" "b mod 2 ^ w = b" using assms by (simp_all add: in_width_iff take_bit_eq_mod)
  moreover have "c mod 2 ^ w = (k + b) mod 2 ^ w \<longleftrightarrow> (c - k) mod 2 ^ w = b mod 2 ^ w"
    by (simp add: mod_eq_dvd_iff algebra_simps)
  ultimately show ?thesis by (simp add: take_bit_eq_mod)
qed

lemma eq_sub_iff:
  assumes "in_width w c" and "in_width w b"
  shows "c = take_bit w (k - b) \<longleftrightarrow> take_bit w (k - c) = b"
proof -
  have "c mod 2 ^ w = c" "b mod 2 ^ w = b" using assms by (simp_all add: in_width_iff take_bit_eq_mod)
  moreover have "c mod 2 ^ w = (k - b) mod 2 ^ w \<longleftrightarrow> (k - c) mod 2 ^ w = b mod 2 ^ w"
    using dvd_minus_iff [of "2 ^ w" "c - (k - b)"] by (simp add: mod_eq_dvd_iff algebra_simps)
  ultimately show ?thesis by (simp add: take_bit_eq_mod)
qed

lemma take_bit_sext:
  assumes "n \<le> w" and "0 < n" and "in_width n a"
  shows "take_bit n (const_SExt n a w) = a"
proof -
  obtain m where m: "n = Suc m" using assms(2) gr0_implies_Suc by blast
  have "take_bit n (signed_take_bit m a) = take_bit n a" by (rule take_bit_signed_take_bit) (simp add: m)
  with assms(1,3) m show ?thesis by (simp add: const_SExt_def signed_value_def min_def take_bit_in_width)
qed

text \<open>
  A constant that is the extension of some value is the extension of its own truncation.
\<close>

lemma eq_sext_iff:
  assumes "n \<le> w" and "0 < n" and "in_width n a"
  shows "c = const_SExt n a w \<longleftrightarrow> c = const_SExt n (const_ZExt c n) w \<and> a = const_ZExt c n"
  using take_bit_sext [OF assms] by (auto simp: const_ZExt_def)

lemma eq_zext_iff:
  assumes "n \<le> w" and "in_width n a" and "in_width w c"
  shows "c = a \<longleftrightarrow> c = const_ZExt (const_ZExt c n) w \<and> a = const_ZExt c n"
  using assms by (auto simp: const_ZExt_def take_bit_in_width min_def in_width_mono)

lemma truth_and: "truth a AND truth b = truth (a \<and> b)"
  by (simp add: truth_def)

lemma or_Bool_zero:
  assumes "in_width (Suc 0) a" and "in_width (Suc 0) b"
  shows "0 = a OR b \<longleftrightarrow> a = 0 \<and> b = 0"
  using assms by (auto simp: in_width_Bool)

text \<open>The cases of \<open>EqExpr_createPartialR\<close>.\<close>

lemma EqExpr_Bool_computes:
  assumes r: "welltyped r" "getWidth r = Suc 0" and c: "in_width (Suc 0) cl"
    and kid: "\<And>a b x. r = BinaryExpr OrExpr a b \<Longrightarrow> x = a \<or> x = b \<Longrightarrow>
      computes (create_EqExpr_const False (getWidth x) 0 x) (Suc 0) (\<lambda>env. truth (eval env x = 0))"
    and plain: "computes (EqExpr_create (ConstantExpr (Suc 0) cl) r) (Suc 0) (\<lambda>env. truth (cl = eval env r))"
  shows "computes (EqExpr_createPartialR False (Suc 0) cl r) (Suc 0) (\<lambda>env. truth (cl = eval env r))"
proof -
  consider (one) "cl = 1" | (neg) b where "cl = 0" "r = BinaryExpr EqExpr (ConstantExpr Bool 0) b"
    | (disj) a b where "cl = 0" "r = BinaryExpr OrExpr a b"
    | (other) "cl \<noteq> 1" "\<nexists>b. r = BinaryExpr EqExpr (ConstantExpr Bool 0) b" "\<nexists>a b. r = BinaryExpr OrExpr a b"
    using c by (auto simp: in_width_Bool)
  then show ?thesis
  proof cases
    case one
    have "truth (cl = eval env r) = eval env r" for env
      using eval_Bool [OF r, of env] one by (auto simp: truth_def)
    with one r show ?thesis by (simp add: EqExpr_createPartialR.simps)
  next
    case neg
    with r(1) have "eval env b = 0 \<or> eval env b = 1" for env using eval_Bool [of b env] by simp
    then have "truth (cl = eval env r) = eval env b" for env using neg by (auto simp: truth_def)
    with neg r show ?thesis by (simp add: EqExpr_createPartialR.simps)
  next
    case disj
    with r have ab: "welltyped a" "welltyped b" "getWidth a = Suc 0" "getWidth b = Suc 0" by (auto simp: isCmp_def)
    have "computes (EqExpr_createPartialR False (Suc 0) cl r) (Suc 0)
        (\<lambda>env. truth (eval env a = 0) AND truth (eval env b = 0))"
    proof -
      have "computes (bind_outcome (create_EqExpr_const False (getWidth a) 0 a)
          (\<lambda>na. bind_outcome (create_EqExpr_const False (getWidth b) 0 b) (create_AndExpr na)))
          (Suc 0) (\<lambda>env. truth (eval env a = 0) AND truth (eval env b = 0))"
      proof (rule computes_bind [OF kid [OF disj(2)]])
        fix na
        assume na: "welltyped na" "getWidth na = Suc 0" "\<And>env. eval env na = truth (eval env a = 0)"
        show "computes (bind_outcome (create_EqExpr_const False (getWidth b) 0 b) (create_AndExpr na))
          (Suc 0) (\<lambda>env. truth (eval env a = 0) AND truth (eval env b = 0))"
        proof (rule computes_bind [OF kid [OF disj(2)]])
          fix nb
          assume "welltyped nb" "getWidth nb = Suc 0" "\<And>env. eval env nb = truth (eval env b = 0)"
          with na create_AndExpr_computes [of na nb]
          show "computes (create_AndExpr na nb) (Suc 0) (\<lambda>env. truth (eval env a = 0) AND truth (eval env b = 0))"
            by simp
        qed simp
      qed simp
      with disj show ?thesis by (simp add: EqExpr_createPartialR.simps)
    qed
    moreover have "truth (eval env a = 0) AND truth (eval env b = 0) = truth (cl = eval env r)" for env
      using or_Bool_zero [of "eval env a" "eval env b"] eval_in_width [of a env] eval_in_width [of b env] ab disj
      by (simp add: truth_and)
    ultimately show ?thesis by (rule computes_cong)
  next
    case other
    then have "EqExpr_createPartialR False (Suc 0) cl r = EqExpr_create (ConstantExpr (Suc 0) cl) r"
      by (subst EqExpr_createPartialR.simps) (auto split: expr.split binary_kind.split)
    with plain show ?thesis by simp
  qed
qed

lemma EqExpr_wide_computes:
  assumes r: "welltyped r" "getWidth r = w" and w: "w \<noteq> Suc 0" and c: "in_width w cl"
    and ext: "\<And>src n trunc. (r = SExtExpr src n \<or> r = ZExtExpr src n) \<Longrightarrow> trunc = const_ZExt cl (getWidth src) \<Longrightarrow>
      computes (create_EqExpr_const False (getWidth src) trunc src) (Suc 0) (\<lambda>env. truth (eval env src = trunc))"
    and add: "\<And>c1 b. r = BinaryExpr AddExpr (ConstantExpr w c1) b \<Longrightarrow>
      computes (EqExpr_createPartialR False w (take_bit w (cl - c1)) b) (Suc 0)
        (\<lambda>env. truth (take_bit w (cl - c1) = eval env b))"
    and sub: "\<And>c1 b. r = BinaryExpr SubExpr (ConstantExpr w c1) b \<Longrightarrow>
      computes (EqExpr_createPartialR False w (take_bit w (c1 - cl)) b) (Suc 0)
        (\<lambda>env. truth (take_bit w (c1 - cl) = eval env b))"
    and plain: "computes (EqExpr_create (ConstantExpr w cl) r) (Suc 0) (\<lambda>env. truth (cl = eval env r))"
  shows "computes (EqExpr_createPartialR False w cl r) (Suc 0) (\<lambda>env. truth (cl = eval env r))"
proof -
  consider (sext) src n where "r = SExtExpr src n" | (zext) src n where "r = ZExtExpr src n"
    | (add) w1 c1 b where "r = BinaryExpr AddExpr (ConstantExpr w1 c1) b"
    | (sub) w1 c1 b where "r = BinaryExpr SubExpr (ConstantExpr w1 c1) b"
    | (other) "\<nexists>src n. r = SExtExpr src n" "\<nexists>src n. r = ZExtExpr src n"
        "\<nexists>w1 c1 b. r = BinaryExpr AddExpr (ConstantExpr w1 c1) b"
        "\<nexists>w1 c1 b. r = BinaryExpr SubExpr (ConstantExpr w1 c1) b" by blast
  then show ?thesis
  proof cases
    case sext
    let ?n = "getWidth src" and ?t = "const_ZExt cl (getWidth src)"
    from sext r have s: "welltyped src" "?n \<le> w" "n = w" by auto
    have iff: "cl = eval env r \<longleftrightarrow> cl = const_SExt ?n ?t w \<and> eval env src = ?t" for env
      using eq_sext_iff [OF s(2) getWidth_pos [OF s(1)] eval_in_width [OF s(1)], of cl env] sext s(3) by simp
    have "EqExpr_createPartialR False w cl r =
        (if cl = const_SExt ?n ?t w then create_EqExpr_const False ?n ?t src else Inr (ConstantExpr Bool 0))"
      by (subst EqExpr_createPartialR.simps) (use w sext in \<open>simp add: Let_def\<close>)
    with ext [OF disjI1 [OF sext] refl] show ?thesis by (auto simp: iff truth_def)
  next
    case zext
    let ?n = "getWidth src" and ?t = "const_ZExt cl (getWidth src)"
    from zext r have s: "welltyped src" "?n \<le> w" by auto
    have iff: "cl = eval env r \<longleftrightarrow> cl = const_ZExt ?t w \<and> eval env src = ?t" for env
      using eq_zext_iff [OF s(2) eval_in_width [OF s(1)] c, of env] zext by simp
    have "EqExpr_createPartialR False w cl r =
        (if cl = const_ZExt ?t w then create_EqExpr_const False ?n ?t src else Inr (ConstantExpr Bool 0))"
      by (subst EqExpr_createPartialR.simps) (use w zext in \<open>simp add: Let_def\<close>)
    with ext [OF disjI2 [OF zext] refl] show ?thesis by (auto simp: iff truth_def)
  next
    case add
    with r have s: "welltyped b" "getWidth b = w" "w1 = w" by (auto simp: isCmp_def)
    have "cl = eval env r \<longleftrightarrow> take_bit w (cl - c1) = eval env b" for env
      using eq_add_iff [OF c, of "eval env b" c1] eval_in_width [OF s(1), of env] add s by simp
    moreover have "EqExpr_createPartialR False w cl r = EqExpr_createPartialR False w (take_bit w (cl - c1)) b"
      by (subst EqExpr_createPartialR.simps) (use w add s in simp)
    ultimately show ?thesis using assms(6) [of c1 b] add s by simp
  next
    case sub
    with r have s: "welltyped b" "getWidth b = w" "w1 = w" by (auto simp: isCmp_def)
    have "cl = eval env r \<longleftrightarrow> take_bit w (c1 - cl) = eval env b" for env
      using eq_sub_iff [OF c, of "eval env b" c1] eval_in_width [OF s(1), of env] sub s by simp
    moreover have "EqExpr_createPartialR False w cl r = EqExpr_createPartialR False w (take_bit w (c1 - cl)) b"
      by (subst EqExpr_createPartialR.simps) (use w sub s in simp)
    ultimately show ?thesis using assms(7) [of c1 b] sub s by simp
  next
    case other
    then have "EqExpr_createPartialR False w cl r = EqExpr_create (ConstantExpr w cl) r"
      by (subst EqExpr_createPartialR.simps) (use w in \<open>auto split: expr.split binary_kind.split\<close>)
    with plain show ?thesis by simp
  qed
qed

lemma create_EqExpr_const_from:
  assumes "welltyped x" and "getWidth x = w" and "in_width w c"
    and "computes (EqExpr_createPartialR False w c x) (Suc 0) (\<lambda>env. truth (c = eval env x))"
  shows "computes (create_EqExpr_const False w c x) (Suc 0) (\<lambda>env. truth (eval env x = c))"
proof (cases "isConstant x")
  case True
  with assms obtain v where "x = ConstantExpr w v" by (cases x) auto
  with assms show ?thesis
    using const_op_computes [of w v c EqExpr]
    by (simp add: create_EqExpr_const.simps isDivision_def isCmp_def result_width_def)
next
  case False
  then have "create_EqExpr_const False w c x = EqExpr_createPartialR False w c x"
    using assms(2) by (subst create_EqExpr_const.simps) (cases x; simp)
  with computes_cong [OF assms(4)] show ?thesis by (simp add: eq_commute)
qed

lemma EqExpr_createPartialR_computes:
  assumes "welltyped r" and "getWidth r = w" and "in_width w c"
  shows "computes (EqExpr_createPartialR False w c r) (Suc 0) (\<lambda>env. truth (c = eval env r))"
  using assms
proof (induction r arbitrary: w c rule: measure_induct_rule [of size])
  case (less r)
  have const: "computes (create_EqExpr_const False (getWidth x) c x) (Suc 0) (\<lambda>env. truth (eval env x = c))"
    if "size x < size r" "welltyped x" "in_width (getWidth x) c" for x c
    using create_EqExpr_const_from [OF that(2) refl that(3) less.IH [OF that(1,2) refl that(3)]] .
  have plain: "computes (EqExpr_create (ConstantExpr w c) r) (Suc 0) (\<lambda>env. truth (c = eval env r))"
    using EqExpr_create_computes [of "ConstantExpr w c" r] less.prems getWidth_pos by auto
  show ?case
  proof (cases "w = Suc 0")
    case True
    have kid: "computes (create_EqExpr_const False (getWidth x) 0 x) (Suc 0) (\<lambda>env. truth (eval env x = 0))"
      if "r = BinaryExpr OrExpr a b" "x = a \<or> x = b" for a b x
      using const [of x 0] that less.prems by auto
    show ?thesis unfolding True
    proof (rule EqExpr_Bool_computes [OF less.prems(1)])
      show "getWidth r = Suc 0" "in_width (Suc 0) c"
        "computes (EqExpr_create (ConstantExpr (Suc 0) c) r) (Suc 0) (\<lambda>env. truth (c = eval env r))"
        using less.prems plain True by simp_all
    qed (rule kid)
  next
    case False
    show ?thesis
    proof (rule EqExpr_wide_computes [OF less.prems(1,2) False less.prems(3) _ _ _ plain])
      fix src n trunc
      assume "r = SExtExpr src n \<or> r = ZExtExpr src n" "trunc = const_ZExt c (getWidth src)"
      then show "computes (create_EqExpr_const False (getWidth src) trunc src) (Suc 0) (\<lambda>env. truth (eval env src = trunc))"
        using const [of src trunc] less.prems by (auto simp: const_ZExt_def)
    next
      fix c1 b
      assume "r = BinaryExpr AddExpr (ConstantExpr w c1) b"
      then show "computes (EqExpr_createPartialR False w (take_bit w (c - c1)) b) (Suc 0)
          (\<lambda>env. truth (take_bit w (c - c1) = eval env b))"
        using less.IH [of b w "take_bit w (c - c1)"] less.prems by simp
    next
      fix c1 b
      assume "r = BinaryExpr SubExpr (ConstantExpr w c1) b"
      then show "computes (EqExpr_createPartialR False w (take_bit w (c1 - c)) b) (Suc 0)
          (\<lambda>env. truth (take_bit w (c1 - c) = eval env b))"
        using less.IH [of b w "take_bit w (c1 - c)"] less.prems by simp
    qed
  qed
qed

lemma create_EqExpr_computes:
  assumes "welltyped l" and "welltyped r" and "getWidth l = getWidth r"
  shows "computes (create_EqExpr False l r) (Suc 0) (\<lambda>env. truth (eval env l = eval env r))"
proof -
  have "computes (create_EqExpr False l r) (result_width EqExpr (getWidth l))
      (\<lambda>env. apint_op EqExpr (getWidth l) (eval env l) (eval env r))"
    unfolding create_EqExpr_def
  proof (rule BCREATE_R_computes [OF assms])
    show "\<not> isDivision EqExpr" by (simp add: isDivision_def)
  next
    fix w c assume "in_width w c" "getWidth r = w"
    with assms(2) EqExpr_createPartialR_computes [of r w c]
    show "computes (EqExpr_createPartialR False w c r) (result_width EqExpr w) (\<lambda>env. apint_op EqExpr w c (eval env r))"
      by (simp add: result_width_def isCmp_def)
  next
    fix w c assume "in_width w c" "getWidth l = w"
    with assms(1) EqExpr_createPartialR_computes [of l w c]
    show "computes (EqExpr_createPartial False l w c) (result_width EqExpr w) (\<lambda>env. apint_op EqExpr w (eval env l) c)"
      by (simp add: EqExpr_createPartial_def result_width_def isCmp_def eq_commute [of _ c])
  next
    show "computes (EqExpr_create l r) (result_width EqExpr (getWidth l))
      (\<lambda>env. apint_op EqExpr (getWidth l) (eval env l) (eval env r))"
      using EqExpr_create_computes [OF assms] by (simp add: result_width_def isCmp_def)
  qed
  then show ?thesis by (simp add: result_width_def isCmp_def)
qed

lemma createIsZero_computes:
  "welltyped e \<Longrightarrow> computes (createIsZero False e) (Suc 0) (\<lambda>env. truth (eval env e = 0))"
  using create_EqExpr_computes [of e "ConstantExpr (getWidth e) 0"] getWidth_pos by (simp add: createIsZero_def)


section \<open>Exclusive or, sums and differences\<close>

lemma Bool_xor:
  assumes "in_width (Suc 0) a" and "in_width (Suc 0) b"
  shows "a XOR b = take_bit (Suc 0) (a + b)" and "a XOR b = take_bit (Suc 0) (a - b)"
    and "a = 1 \<Longrightarrow> a XOR b = truth (0 = b)"
proof -
  have "a = 0 \<or> a = 1" "b = 0 \<or> b = 1" using assms by (simp_all add: in_width_Bool)
  then show "a XOR b = take_bit (Suc 0) (a + b)" "a XOR b = take_bit (Suc 0) (a - b)"
    "a = 1 \<Longrightarrow> a XOR b = truth (0 = b)"
    by (auto simp: truth_def take_bit_eq_mod)
qed

lemma XorExpr_createPartialR_computes:
  assumes "welltyped r" and "getWidth r = w" and "in_width w c"
  shows "computes (XorExpr_createPartialR False w c r) w (\<lambda>env. c XOR eval env r)"
proof -
  consider "c = 0" | "c \<noteq> 0" "w = Suc 0" | "c \<noteq> 0" "w \<noteq> Suc 0" by blast
  then show ?thesis
  proof cases
    case 2
    with assms have c1: "c = 1" by (simp add: in_width_Bool)
    have "computes (EqExpr_createPartialR False (Suc 0) 0 r) (Suc 0) (\<lambda>env. truth (0 = eval env r))"
      using EqExpr_createPartialR_computes [of r "Suc 0" 0] assms 2 by simp
    moreover have "truth (0 = eval env r) = c XOR eval env r" for env
      using Bool_xor(3) [of c "eval env r"] eval_in_width [OF assms(1), of env] assms 2 c1 by simp
    ultimately have "computes (EqExpr_createPartialR False (Suc 0) 0 r) (Suc 0) (\<lambda>env. c XOR eval env r)"
      by (rule computes_cong)
    with 2 show ?thesis by (simp add: XorExpr_createPartialR_def EqExpr_createPartial_def)
  qed (use assms getWidth_pos in \<open>auto simp: XorExpr_createPartialR_def isCmp_def\<close>)
qed

lemma create_XorExpr_computes:
  assumes "welltyped l" and "welltyped r" and "getWidth l = getWidth r"
  shows "computes (create_XorExpr False l r) (getWidth l) (\<lambda>env. eval env l XOR eval env r)"
proof -
  have "computes (create_XorExpr False l r) (result_width XorExpr (getWidth l))
      (\<lambda>env. apint_op XorExpr (getWidth l) (eval env l) (eval env r))"
    unfolding create_XorExpr_def
    by (rule BCREATE_R_computes)
      (use assms XorExpr_createPartialR_computes in
        \<open>auto simp: XorExpr_createPartial_def XorExpr_create_def isDivision_def isCmp_def result_width_def xor.commute\<close>)
  then show ?thesis by (simp add: isCmp_def result_width_def)
qed

text \<open>The four constructors with a constant on the left.\<close>

definition adds :: "(bool \<Rightarrow> nat \<Rightarrow> int \<Rightarrow> expr \<Rightarrow> expr outcome) \<Rightarrow> nat \<Rightarrow> expr \<Rightarrow> bool" where
  "adds f w r \<longleftrightarrow> (\<forall>c. in_width w c \<longrightarrow> computes (f False w c r) w (\<lambda>env. take_bit w (c + eval env r)))"

definition subtracts :: "(bool \<Rightarrow> nat \<Rightarrow> int \<Rightarrow> expr \<Rightarrow> expr outcome) \<Rightarrow> nat \<Rightarrow> expr \<Rightarrow> bool" where
  "subtracts f w r \<longleftrightarrow> (\<forall>c. in_width w c \<longrightarrow> computes (f False w c r) w (\<lambda>env. take_bit w (c - eval env r)))"

lemma create_const_from:
  assumes "welltyped x" and "getWidth x = w"
  shows "adds AddExpr_createPartialR w x \<Longrightarrow> adds create_AddExpr_const w x"
    and "subtracts SubExpr_createPartialR w x \<Longrightarrow> subtracts create_SubExpr_const w x"
proof -
  have "create_AddExpr_const False w c x = AddExpr_createPartialR False w c x"
    "create_SubExpr_const False w c x = SubExpr_createPartialR False w c x" if "\<not> isConstant x" for c
    using that assms by (subst create_AddExpr_const.simps create_SubExpr_const.simps, cases x, simp_all)+
  moreover have "computes (create_AddExpr_const False w c x) w (\<lambda>env. take_bit w (c + eval env x))"
    "computes (create_SubExpr_const False w c x) w (\<lambda>env. take_bit w (c - eval env x))"
    if "isConstant x" "in_width w c" for c
  proof -
    from that assms obtain v where v: "x = ConstantExpr w v" by (cases x) auto
    with assms that const_op_computes [of w c v AddExpr] const_op_computes [of w c v SubExpr]
    show "computes (create_AddExpr_const False w c x) w (\<lambda>env. take_bit w (c + eval env x))"
      "computes (create_SubExpr_const False w c x) w (\<lambda>env. take_bit w (c - eval env x))"
      by (simp_all add: create_AddExpr_const.simps create_SubExpr_const.simps isDivision_def isCmp_def result_width_def)
  qed
  ultimately show "adds AddExpr_createPartialR w x \<Longrightarrow> adds create_AddExpr_const w x"
    "subtracts SubExpr_createPartialR w x \<Longrightarrow> subtracts create_SubExpr_const w x"
    by (cases "isConstant x"; simp add: adds_def subtracts_def)+
qed

lemma AddExpr_createPartialR_cases:
  assumes r: "welltyped r" "getWidth r = w"
    and kid: "\<And>k c1 x. r = BinaryExpr k (ConstantExpr w c1) x \<Longrightarrow> adds create_AddExpr_const w x \<and> subtracts create_SubExpr_const w x"
  shows "adds AddExpr_createPartialR w r" and "subtracts SubExpr_createPartialR w r"
proof -
  have wp: "0 < w" using getWidth_pos r by blast
  have modw: "take_bit w (take_bit w (c + c1) + v) = take_bit w (c + take_bit w (c1 + v))"
    "take_bit w (take_bit w (c + c1) - v) = take_bit w (c + take_bit w (c1 - v))"
    "take_bit w (take_bit w (c - c1) - v) = take_bit w (c - take_bit w (c1 + v))"
    "take_bit w (take_bit w (c - c1) + v) = take_bit w (c - take_bit w (c1 - v))" for c c1 v :: int
    by (simp_all add: take_bit_eq_mod mod_simps algebra_simps)
  have "computes (AddExpr_createPartialR False w c r) w (\<lambda>env. take_bit w (c + eval env r)) \<and>
      computes (SubExpr_createPartialR False w c r) w (\<lambda>env. take_bit w (c - eval env r))"
    if c: "in_width w c" for c
  proof (cases "w = Suc 0")
    case True
    then have e: "c XOR eval env r = take_bit w (c + eval env r)" "c XOR eval env r = take_bit w (c - eval env r)" for env
      using Bool_xor(1,2) [of c "eval env r"] c eval_in_width [OF r(1), of env] r(2) by simp_all
    note x = XorExpr_createPartialR_computes [OF r c]
    have "AddExpr_createPartialR False w c r = XorExpr_createPartialR False w c r"
      "SubExpr_createPartialR False w c r = XorExpr_createPartialR False w c r"
      using True by (simp_all add: AddExpr_createPartialR.simps SubExpr_createPartialR.simps)
    with computes_cong [OF x e(1)] computes_cong [OF x e(2)] show ?thesis by simp
  next
    case False
    have add0: "computes (AddExpr_createPartialR False w c r) w (\<lambda>env. take_bit w (c + eval env r))" if "c = 0"
      using that False r eval_in_width [OF r(1)] by (simp add: AddExpr_createPartialR.simps take_bit_in_width)
    consider (add) w1 c1 x where "r = BinaryExpr AddExpr (ConstantExpr w1 c1) x"
      | (sub) w1 c1 x where "r = BinaryExpr SubExpr (ConstantExpr w1 c1) x"
      | (other) "\<nexists>w1 c1 x. r = BinaryExpr AddExpr (ConstantExpr w1 c1) x"
          "\<nexists>w1 c1 x. r = BinaryExpr SubExpr (ConstantExpr w1 c1) x" by blast
    then show ?thesis
    proof cases
      case add
      with r have w1: "w1 = w" by (simp add: isCmp_def)
      from kid [of AddExpr c1 x] add w1 have k: "adds create_AddExpr_const w x" "subtracts create_SubExpr_const w x" by simp_all
      have er: "eval env r = take_bit w (c1 + eval env x)" for env using add w1 by simp
      have "SubExpr_createPartialR False w c r = create_SubExpr_const False w (take_bit w (c - c1)) x"
        using False add w1 by (simp add: SubExpr_createPartialR.simps)
      moreover have "computes (create_SubExpr_const False w (take_bit w (c - c1)) x) w
          (\<lambda>env. take_bit w (take_bit w (c - c1) - eval env x))" using k by (simp add: adds_def subtracts_def)
      ultimately have "computes (SubExpr_createPartialR False w c r) w (\<lambda>env. take_bit w (c - eval env r))"
        unfolding er modw by simp
      moreover have "computes (AddExpr_createPartialR False w c r) w (\<lambda>env. take_bit w (c + eval env r))"
      proof (cases "c = 0")
        case False
        then have "AddExpr_createPartialR False w c r = create_AddExpr_const False w (take_bit w (c + c1)) x"
          using \<open>w \<noteq> Suc 0\<close> add w1 by (simp add: AddExpr_createPartialR.simps)
        moreover have "computes (create_AddExpr_const False w (take_bit w (c + c1)) x) w
            (\<lambda>env. take_bit w (take_bit w (c + c1) + eval env x))" using k by (simp add: adds_def subtracts_def)
        ultimately show ?thesis unfolding er modw by simp
      qed (rule add0)
      ultimately show ?thesis by simp
    next
      case sub
      with r have w1: "w1 = w" by (simp add: isCmp_def)
      from kid [of SubExpr c1 x] sub w1 have k: "adds create_AddExpr_const w x" "subtracts create_SubExpr_const w x" by simp_all
      have er: "eval env r = take_bit w (c1 - eval env x)" for env using sub w1 by simp
      have "SubExpr_createPartialR False w c r = create_AddExpr_const False w (take_bit w (c - c1)) x"
        using False sub w1 by (simp add: SubExpr_createPartialR.simps)
      moreover have "computes (create_AddExpr_const False w (take_bit w (c - c1)) x) w
          (\<lambda>env. take_bit w (take_bit w (c - c1) + eval env x))" using k by (simp add: adds_def subtracts_def)
      ultimately have "computes (SubExpr_createPartialR False w c r) w (\<lambda>env. take_bit w (c - eval env r))"
        unfolding er modw by simp
      moreover have "computes (AddExpr_createPartialR False w c r) w (\<lambda>env. take_bit w (c + eval env r))"
      proof (cases "c = 0")
        case False
        then have "AddExpr_createPartialR False w c r = create_SubExpr_const False w (take_bit w (c + c1)) x"
          using \<open>w \<noteq> Suc 0\<close> sub w1 by (simp add: AddExpr_createPartialR.simps)
        moreover have "computes (create_SubExpr_const False w (take_bit w (c + c1)) x) w
            (\<lambda>env. take_bit w (take_bit w (c + c1) - eval env x))" using k by (simp add: adds_def subtracts_def)
        ultimately show ?thesis unfolding er modw by simp
      qed (rule add0)
      ultimately show ?thesis by simp
    next
      case other
      then have "AddExpr_createPartialR False w c r = (if c = 0 then Inr r else Inr (BinaryExpr AddExpr (ConstantExpr w c) r))"
        "SubExpr_createPartialR False w c r = Inr (BinaryExpr SubExpr (ConstantExpr w c) r)"
        using False
        by (subst AddExpr_createPartialR.simps SubExpr_createPartialR.simps, auto split: expr.split binary_kind.split)+
      with r c wp eval_in_width [OF r(1)] show ?thesis by (auto simp: isCmp_def take_bit_in_width)
    qed
  qed
  then show "adds AddExpr_createPartialR w r" "subtracts SubExpr_createPartialR w r"
    by (simp_all add: adds_def subtracts_def)
qed

lemma createPartialR_computes:
  assumes "welltyped r" and "getWidth r = w"
  shows "adds AddExpr_createPartialR w r \<and> subtracts SubExpr_createPartialR w r"
  using assms
proof (induction r rule: measure_induct_rule [of size])
  case (less r)
  have "adds create_AddExpr_const w x \<and> subtracts create_SubExpr_const w x"
    if r: "r = BinaryExpr k (ConstantExpr w c1) x" for k c1 x
  proof -
    from r less.prems have "welltyped x" "getWidth x = w" "size x < size r" by auto
    with less.IH [of x] create_const_from [of x w] show ?thesis by blast
  qed
  with AddExpr_createPartialR_cases [OF less.prems] show ?case by blast
qed

lemma create_const_computes:
  assumes "welltyped x" and "getWidth x = w" and "in_width w c"
  shows "computes (create_AddExpr_const False w c x) w (\<lambda>env. take_bit w (c + eval env x))"
    and "computes (create_SubExpr_const False w c x) w (\<lambda>env. take_bit w (c - eval env x))"
  using create_const_from [OF assms(1,2)] createPartialR_computes [OF assms(1,2)] assms(3)
  by (simp_all add: adds_def subtracts_def)

lemma SubExpr_createPartial_computes:
  assumes "welltyped l" and "getWidth l = w" and "in_width w c"
  shows "computes (SubExpr_createPartial False l w c) w (\<lambda>env. take_bit w (eval env l - c))"
proof -
  have "computes (SubExpr_createPartial False l w c) w (\<lambda>env. take_bit w (take_bit w (0 - c) + eval env l))"
    using createPartialR_computes [OF assms(1,2)]
    by (simp add: SubExpr_createPartial_def AddExpr_createPartial_def adds_def)
  then show ?thesis by (rule computes_cong) (simp add: take_bit_eq_mod mod_simps)
qed

lemma create_SubExpr_constR_computes:
  assumes "welltyped x" and "getWidth x = w" and "in_width w c"
  shows "computes (create_SubExpr_constR False x w c) w (\<lambda>env. take_bit w (eval env x - c))"
proof (cases "isConstant x")
  case True
  with assms obtain v where "x = ConstantExpr w v" by (cases x) auto
  with assms const_op_computes [of w v c SubExpr] show ?thesis
    by (simp add: create_SubExpr_constR_def isDivision_def isCmp_def result_width_def)
next
  case False
  then have "create_SubExpr_constR False x w c = SubExpr_createPartial False x w c"
    using assms(2) by (cases x) (simp_all add: create_SubExpr_constR_def)
  with SubExpr_createPartial_computes [OF assms] show ?thesis by simp
qed

text \<open>The general case: what the recursive calls compute is combined with the constant.\<close>

lemma offset_form_Some:
  "offset_form e = Some (p, w, k, a) \<longleftrightarrow>
     (if p then e = BinaryExpr AddExpr (ConstantExpr w k) a else e = BinaryExpr SubExpr (ConstantExpr w k) a)"
  by (induction e rule: offset_form.induct) auto

lemma create_from:
  assumes "welltyped l" and "welltyped r" and "getWidth l = w" and "getWidth r = w"
  shows "computes (AddExpr_create False l r) w (\<lambda>env. take_bit w (eval env l + eval env r)) \<Longrightarrow>
      computes (create_AddExpr False l r) w (\<lambda>env. take_bit w (eval env l + eval env r))"
    and "computes (SubExpr_create False l r) w (\<lambda>env. take_bit w (eval env l - eval env r)) \<Longrightarrow>
      computes (create_SubExpr False l r) w (\<lambda>env. take_bit w (eval env l - eval env r))"
proof -
  have add: "create_AddExpr False l r =
      BCREATE_R AddExpr (AddExpr_createPartial False) (AddExpr_createPartialR False) (AddExpr_create False) l r"
    and sub: "create_SubExpr False l r =
      BCREATE_R SubExpr (SubExpr_createPartial False) (SubExpr_createPartialR False) (SubExpr_create False) l r"
    by (simp_all add: create_AddExpr.simps create_SubExpr.simps BCREATE_R_def)
  note R = createPartialR_computes [OF assms(2,4)] and L = createPartialR_computes [OF assms(1,3)]
  show "computes (AddExpr_create False l r) w (\<lambda>env. take_bit w (eval env l + eval env r)) \<Longrightarrow>
      computes (create_AddExpr False l r) w (\<lambda>env. take_bit w (eval env l + eval env r))"
    using BCREATE_R_computes [OF assms(1,2), of AddExpr "AddExpr_createPartialR False"
        "AddExpr_createPartial False" "AddExpr_create False"] R L assms(3,4)
    by (auto simp: add adds_def AddExpr_createPartial_def isDivision_def isCmp_def result_width_def add.commute)
  show "computes (SubExpr_create False l r) w (\<lambda>env. take_bit w (eval env l - eval env r)) \<Longrightarrow>
      computes (create_SubExpr False l r) w (\<lambda>env. take_bit w (eval env l - eval env r))"
    using BCREATE_R_computes [OF assms(1,2), of SubExpr "SubExpr_createPartialR False"
        "SubExpr_createPartial False" "SubExpr_create False"] R SubExpr_createPartial_computes [OF assms(1,3)] assms(3,4)
    by (auto simp: sub subtracts_def isDivision_def isCmp_def result_width_def)
qed

lemma add_offset: "take_bit w (k + take_bit w (a + b)) = take_bit w (take_bit w (k + a) + b)"
  "take_bit w (k + take_bit w (b - a)) = take_bit w (take_bit w (k - a) + b)"
  "take_bit w (k + take_bit w (a - b)) = take_bit w (take_bit w (k + a) - b)"
  "take_bit w (k - take_bit w (a + b)) = take_bit w (take_bit w (k - a) - b)"
  "take_bit w (take_bit w (a - b) - k) = take_bit w (a - take_bit w (k + b))"
  "take_bit w (take_bit w (a + b) - k) = take_bit w (a - take_bit w (k - b))"
  for a b k :: int
  by (simp_all add: take_bit_eq_mod mod_simps algebra_simps)

lemma add_offset_right: "take_bit w (k + take_bit w (a + b)) = take_bit w (a + take_bit w (k + b))"
  "take_bit w (k + take_bit w (a - b)) = take_bit w (a + take_bit w (k - b))" for a b k :: int
  by (simp_all add: take_bit_eq_mod mod_simps algebra_simps)

text \<open>A recursive call followed by the constructor with the constant.\<close>

lemma then_add_const:
  assumes "computes f w v" and "in_width w k" and "\<And>env. take_bit w (k + v env) = u env"
  shows "computes (bind_outcome f (create_AddExpr_const False w k)) w u"
  using assms(1)
proof (rule computes_bind)
  fix e assume "welltyped e" "getWidth e = w" "\<And>env. eval env e = v env"
  with create_const_computes(1) [OF this(1,2) assms(2)] assms(3)
  show "computes (create_AddExpr_const False w k e) w u" by simp
qed

lemma then_sub_const:
  assumes "computes f w v" and "in_width w k" and "\<And>env. take_bit w (k - v env) = u env"
  shows "computes (bind_outcome f (create_SubExpr_const False w k)) w u"
  using assms(1)
proof (rule computes_bind)
  fix e assume "welltyped e" "getWidth e = w" "\<And>env. eval env e = v env"
  with create_const_computes(2) [OF this(1,2) assms(2)] assms(3)
  show "computes (create_SubExpr_const False w k e) w u" by simp
qed

lemma then_sub_constR:
  assumes "computes f w v" and "in_width w k" and "\<And>env. take_bit w (v env - k) = u env"
  shows "computes (bind_outcome f (\<lambda>x. create_SubExpr_constR False x w k)) w u"
  using assms(1)
proof (rule computes_bind)
  fix e assume "welltyped e" "getWidth e = w" "\<And>env. eval env e = v env"
  with create_SubExpr_constR_computes [OF this(1,2) assms(2)] assms(3)
  show "computes (create_SubExpr_constR False e w k) w u" by simp
qed

definition sums :: "expr \<Rightarrow> expr \<Rightarrow> nat \<Rightarrow> bool" where
  "sums l r w \<longleftrightarrow>
     computes (create_AddExpr False l r) w (\<lambda>env. take_bit w (eval env l + eval env r)) \<and>
     computes (create_SubExpr False l r) w (\<lambda>env. take_bit w (eval env l - eval env r))"

text \<open>An operand is a constant offset of a smaller expression or has no such form.\<close>

lemma offset_cases:
  assumes "welltyped e" and "getWidth e = w"
  obtains "offset_form e = None"
  | k a where "offset_form e = Some (True, w, k, a)" "welltyped a" "getWidth a = w" "in_width w k" "size a < size e"
      "\<And>env. eval env e = take_bit w (k + eval env a)"
  | k a where "offset_form e = Some (False, w, k, a)" "welltyped a" "getWidth a = w" "in_width w k" "size a < size e"
      "\<And>env. eval env e = take_bit w (k - eval env a)"
proof (cases "offset_form e")
  case (Some t)
  obtain p w1 k a where t: "t = (p, w1, k, a)" by (cases t) auto
  show ?thesis
  proof (cases p)
    case True
    with Some t have e: "e = BinaryExpr AddExpr (ConstantExpr w1 k) a" by (simp add: offset_form_Some)
    with assms have w: "w1 = w" by (simp add: isCmp_def)
    show ?thesis by (rule that(2) [of k a]) (use e w assms in auto)
  next
    case False
    with Some t have e: "e = BinaryExpr SubExpr (ConstantExpr w1 k) a" by (simp add: offset_form_Some)
    with assms have w: "w1 = w" by (simp add: isCmp_def)
    show ?thesis by (rule that(3) [of k a]) (use e w assms in auto)
  qed
qed (rule that)

lemma AddExpr_create_computes:
  assumes "welltyped l" and "welltyped r" and "getWidth l = w" and "getWidth r = w"
    and kid: "\<And>x y. size x + size y < size l + size r \<Longrightarrow> welltyped x \<Longrightarrow> welltyped y \<Longrightarrow>
      getWidth x = w \<Longrightarrow> getWidth y = w \<Longrightarrow> sums x y w"
  shows "computes (AddExpr_create False l r) w (\<lambda>env. take_bit w (eval env l + eval env r))"
proof (cases "w = Suc 0")
  case True
  with assms(1-4) Bool_xor(1) eval_in_width [of l] eval_in_width [of r] show ?thesis
    by (simp add: AddExpr_create.simps XorExpr_create_def isCmp_def)
next
  case False
  then have nb: "getWidth l \<noteq> Bool" using assms(3) by simp
  show ?thesis
  proof (cases rule: offset_cases [OF assms(1,3)])
    case (2 k a)
    have "sums a r w" using kid [of a r] 2 assms(2,4) by simp
    then show ?thesis unfolding 2(6) AddExpr_create.simps [of False l r]
      using 2(1) nb add_offset(1) by (simp add: sums_def) (rule then_add_const [OF _ 2(4)], auto)
  next
    case (3 k a)
    have "sums r a w" using kid [of r a] 3 assms(2,4) by simp
    then show ?thesis unfolding 3(6) AddExpr_create.simps [of False l r]
      using 3(1) nb add_offset(2) by (simp add: sums_def) (rule then_add_const [OF _ 3(4)], auto)
  next
    case l: 1
    show ?thesis
    proof (cases rule: offset_cases [OF assms(2,4)])
      case 1
      with l nb assms(1-4) show ?thesis by (simp add: AddExpr_create.simps isCmp_def)
    next
      case (2 k b)
      have "sums l b w" using kid [of l b] 2 assms(1,3) by simp
      then show ?thesis unfolding 2(6) AddExpr_create.simps [of False l r]
        using l 2(1) nb add_offset_right(1) by (simp add: sums_def) (rule then_add_const [OF _ 2(4)], auto)
    next
      case (3 k b)
      have "sums l b w" using kid [of l b] 3 assms(1,3) by simp
      then show ?thesis unfolding 3(6) AddExpr_create.simps [of False l r]
        using l 3(1) nb add_offset_right(2) by (simp add: sums_def) (rule then_add_const [OF _ 3(4)], auto)
    qed
  qed
qed

lemma SubExpr_create_computes:
  assumes "welltyped l" and "welltyped r" and "getWidth l = w" and "getWidth r = w"
    and kid: "\<And>x y. size x + size y < size l + size r \<Longrightarrow> welltyped x \<Longrightarrow> welltyped y \<Longrightarrow>
      getWidth x = w \<Longrightarrow> getWidth y = w \<Longrightarrow> sums x y w"
  shows "computes (SubExpr_create False l r) w (\<lambda>env. take_bit w (eval env l - eval env r))"
proof -
  consider "w = Suc 0" | "l = r" "w \<noteq> Suc 0" | (neq) "w \<noteq> Suc 0" "l \<noteq> r" by blast
  then show ?thesis
  proof cases
    case 1
    with assms(1-4) Bool_xor(2) eval_in_width [of l] eval_in_width [of r] show ?thesis
      by (simp add: SubExpr_create.simps XorExpr_create_def isCmp_def)
  next
    case 2
    with assms getWidth_pos [of r] show ?thesis by (simp add: SubExpr_create.simps)
  next
    case neq
    then have nb: "getWidth l \<noteq> Bool" "l \<noteq> r" using assms(3) by simp_all
    show ?thesis
    proof (cases rule: offset_cases [OF assms(1,3)])
      case (2 k a)
      have "sums a r w" using kid [of a r] 2 assms(2,4) by simp
      then show ?thesis unfolding 2(6) SubExpr_create.simps [of False l r]
        using 2(1) nb add_offset(3) by (simp add: sums_def) (rule then_add_const [OF _ 2(4)], auto)
    next
      case (3 k a)
      have "sums a r w" using kid [of a r] 3 assms(2,4) by simp
      then show ?thesis unfolding 3(6) SubExpr_create.simps [of False l r]
        using 3(1) nb add_offset(4) by (simp add: sums_def) (rule then_sub_const [OF _ 3(4)], auto)
    next
      case l: 1
      show ?thesis
      proof (cases rule: offset_cases [OF assms(2,4)])
        case 1
        with l nb assms(1-4) show ?thesis by (simp add: SubExpr_create.simps isCmp_def)
      next
        case (2 k b)
        have "sums l b w" using kid [of l b] 2 assms(1,3) by simp
        then show ?thesis unfolding 2(6) SubExpr_create.simps [of False l r]
          using l 2(1) nb add_offset(5) by (simp add: sums_def) (rule then_sub_constR [OF _ 2(4)], auto)
      next
        case (3 k b)
        have "sums l b w" using kid [of l b] 3 assms(1,3) by simp
        then show ?thesis unfolding 3(6) SubExpr_create.simps [of False l r]
          using l 3(1) nb add_offset(6) by (simp add: sums_def) (rule then_sub_constR [OF _ 3(4)], auto)
      qed
    qed
  qed
qed

lemma create_AddExpr_SubExpr_computes:
  assumes "welltyped l" and "welltyped r" and "getWidth l = w" and "getWidth r = w"
  shows "sums l r w"
  using assms
proof (induction "size l + size r" arbitrary: l r rule: less_induct)
  case less
  note kid = less.hyps
  show ?case
    unfolding sums_def
    using create_from [OF less.prems] AddExpr_create_computes [OF less.prems] SubExpr_create_computes [OF less.prems] kid
    by blast
qed


section \<open>The other binary constructors\<close>

lemma MulExpr_createPartialR_computes:
  assumes "welltyped r" and "getWidth r = w" and "in_width w c"
  shows "computes (MulExpr_createPartialR w c r) w (\<lambda>env. take_bit w (c * eval env r))"
proof (cases "w = Suc 0")
  case True
  have "c AND eval env r = take_bit w (c * eval env r)" for env
    using eval_Bool [of r env] assms True by (auto simp: in_width_Bool)
  then have "(\<lambda>env. eval env r AND c) = (\<lambda>env. take_bit w (c * eval env r))" by (simp add: and.commute fun_eq_iff)
  with AndExpr_createPartial_computes [OF assms(1,3,2)] True show ?thesis
    by (simp add: MulExpr_createPartialR_def AndExpr_createPartialR_def)
next
  case False
  with assms getWidth_pos [of r] eval_in_width [of r] show ?thesis
    by (auto simp: MulExpr_createPartialR_def isCmp_def take_bit_in_width)
qed

lemma create_MulExpr_computes:
  assumes "welltyped l" and "welltyped r" and "getWidth l = getWidth r"
  shows "computes (create_MulExpr l r) (getWidth l) (\<lambda>env. take_bit (getWidth l) (eval env l * eval env r))"
proof -
  have and_mult: "eval env l AND eval env r = take_bit (Suc 0) (eval env l * eval env r)" if "getWidth l = Suc 0" for env
    using eval_Bool [of l env] eval_Bool [of r env] assms that by auto
  have "computes (create_MulExpr l r) (result_width MulExpr (getWidth l))
      (\<lambda>env. apint_op MulExpr (getWidth l) (eval env l) (eval env r))"
    unfolding create_MulExpr_def
    by (rule BCREATE_R_computes)
      (use assms MulExpr_createPartialR_computes and_mult in
        \<open>auto simp: MulExpr_createPartial_def MulExpr_create_def isDivision_def isCmp_def result_width_def mult.commute\<close>)
  then show ?thesis by (simp add: isCmp_def result_width_def)
qed

lemma createIsZero_then:
  assumes "welltyped e"
    and "\<And>n. welltyped n \<Longrightarrow> getWidth n = Suc 0 \<Longrightarrow> (\<And>env. eval env n = truth (eval env e = 0)) \<Longrightarrow> computes (f n) w v"
  shows "computes (bind_outcome (createIsZero False e) f) w v"
  by (rule computes_bind [OF createIsZero_computes [OF assms(1)]]) (rule assms(2))

text \<open>
  The orders and shifts of one-bit operands are rewritten with conjunctions, disjunctions and
  negations; \<open>Bool_table\<close> checks the four combinations of values.
\<close>

lemma Bool_table:
  assumes "in_width (Suc 0) a" and "in_width (Suc 0) b"
  shows "truth (a = 0) AND b = truth (a < b)" and "truth (a = 0) OR b = truth (a \<le> b)"
    and "a AND truth (b = 0) = truth (signed_value (Suc 0) a < signed_value (Suc 0) b)"
    and "a OR truth (b = 0) = truth (signed_value (Suc 0) a \<le> signed_value (Suc 0) b)"
    and "a AND truth (b = 0) = apint_op ShlExpr (Suc 0) a b" and "a AND truth (b = 0) = apint_op LShrExpr (Suc 0) a b"
    and "a = apint_op AShrExpr (Suc 0) a b"
    and "b \<noteq> 0 \<Longrightarrow> a = a div b" and "b \<noteq> 0 \<Longrightarrow> 0 = a mod b"
    and "b \<noteq> 0 \<Longrightarrow> a = apint_op SDivExpr (Suc 0) a b" and "b \<noteq> 0 \<Longrightarrow> 0 = apint_op SRemExpr (Suc 0) a b"
proof -
  have "a = 0 \<or> a = 1" "b = 0 \<or> b = 1" using assms by (simp_all add: in_width_Bool)
  moreover have "signed_value (Suc 0) 0 = 0" "signed_value (Suc 0) 1 = - 1" by (simp_all add: signed_value_def)
  ultimately show "truth (a = 0) AND b = truth (a < b)" "truth (a = 0) OR b = truth (a \<le> b)"
    "a AND truth (b = 0) = truth (signed_value (Suc 0) a < signed_value (Suc 0) b)"
    "a OR truth (b = 0) = truth (signed_value (Suc 0) a \<le> signed_value (Suc 0) b)"
    "a AND truth (b = 0) = apint_op ShlExpr (Suc 0) a b" "a AND truth (b = 0) = apint_op LShrExpr (Suc 0) a b"
    "a = apint_op AShrExpr (Suc 0) a b"
    "b \<noteq> 0 \<Longrightarrow> a = a div b" "b \<noteq> 0 \<Longrightarrow> 0 = a mod b"
    "b \<noteq> 0 \<Longrightarrow> a = apint_op SDivExpr (Suc 0) a b" "b \<noteq> 0 \<Longrightarrow> 0 = apint_op SRemExpr (Suc 0) a b"
    by (auto simp: truth_def signed_modulo_int_def signed_divide_int_def)
qed

lemma wide_computes:
  assumes "welltyped l" and "welltyped r" and "getWidth l = getWidth r"
  shows "computes (Inr (BinaryExpr k l r)) (result_width k (getWidth l))
    (\<lambda>env. apint_op k (getWidth l) (eval env l) (eval env r))"
  using assms by (simp add: result_width_def)

lemma negated_left:
  assumes "welltyped l" and "welltyped r" and "getWidth l = Suc 0" and "getWidth r = Suc 0"
  shows "computes (bind_outcome (createIsZero False l) (\<lambda>n. create_AndExpr n r)) (Suc 0)
      (\<lambda>env. truth (eval env l = 0) AND eval env r)"
    and "computes (bind_outcome (createIsZero False l) (\<lambda>n. create_OrExpr n r)) (Suc 0)
      (\<lambda>env. truth (eval env l = 0) OR eval env r)"
proof -
  show "computes (bind_outcome (createIsZero False l) (\<lambda>n. create_AndExpr n r)) (Suc 0)
      (\<lambda>env. truth (eval env l = 0) AND eval env r)"
  proof (rule createIsZero_then [OF assms(1)])
    fix n assume "welltyped n" "getWidth n = Suc 0" "\<And>env. eval env n = truth (eval env l = 0)"
    with create_AndExpr_computes [of n r] assms
    show "computes (create_AndExpr n r) (Suc 0) (\<lambda>env. truth (eval env l = 0) AND eval env r)" by simp
  qed
  show "computes (bind_outcome (createIsZero False l) (\<lambda>n. create_OrExpr n r)) (Suc 0)
      (\<lambda>env. truth (eval env l = 0) OR eval env r)"
  proof (rule createIsZero_then [OF assms(1)])
    fix n assume "welltyped n" "getWidth n = Suc 0" "\<And>env. eval env n = truth (eval env l = 0)"
    with create_OrExpr_computes [of n r] assms
    show "computes (create_OrExpr n r) (Suc 0) (\<lambda>env. truth (eval env l = 0) OR eval env r)" by simp
  qed
qed

lemma negated_right:
  assumes "welltyped l" and "welltyped r" and "getWidth l = Suc 0" and "getWidth r = Suc 0"
  shows "computes (bind_outcome (createIsZero False r) (create_AndExpr l)) (Suc 0)
      (\<lambda>env. eval env l AND truth (eval env r = 0))"
    and "computes (bind_outcome (createIsZero False r) (create_OrExpr l)) (Suc 0)
      (\<lambda>env. eval env l OR truth (eval env r = 0))"
proof -
  show "computes (bind_outcome (createIsZero False r) (create_AndExpr l)) (Suc 0)
      (\<lambda>env. eval env l AND truth (eval env r = 0))"
  proof (rule createIsZero_then [OF assms(2)])
    fix n assume "welltyped n" "getWidth n = Suc 0" "\<And>env. eval env n = truth (eval env r = 0)"
    with create_AndExpr_computes [of l n] assms
    show "computes (create_AndExpr l n) (Suc 0) (\<lambda>env. eval env l AND truth (eval env r = 0))" by simp
  qed
  show "computes (bind_outcome (createIsZero False r) (create_OrExpr l)) (Suc 0)
      (\<lambda>env. eval env l OR truth (eval env r = 0))"
  proof (rule createIsZero_then [OF assms(2)])
    fix n assume "welltyped n" "getWidth n = Suc 0" "\<And>env. eval env n = truth (eval env r = 0)"
    with create_OrExpr_computes [of l n] assms
    show "computes (create_OrExpr l n) (Suc 0) (\<lambda>env. eval env l OR truth (eval env r = 0))" by simp
  qed
qed

text \<open>What \<open>create_X\<close> should compute, for a kind without division.\<close>

definition constructs :: "binary_kind \<Rightarrow> (expr \<Rightarrow> expr \<Rightarrow> expr outcome) \<Rightarrow> expr \<Rightarrow> expr \<Rightarrow> bool" where
  "constructs k f l r \<longleftrightarrow>
     computes (f l r) (result_width k (getWidth l)) (\<lambda>env. apint_op k (getWidth l) (eval env l) (eval env r))"

lemma BCREATE_constructs:
  assumes "welltyped l" and "welltyped r" and "getWidth l = getWidth r" and "\<not> isDivision k"
    and "getWidth l = Suc 0 \<Longrightarrow>
      computes (full l r) (Suc 0) (\<lambda>env. apint_op k (Suc 0) (eval env l) (eval env r))"
    and "getWidth l \<noteq> Suc 0 \<Longrightarrow> full l r = Inr (BinaryExpr k l r)"
  shows "constructs k (BCREATE k full) l r"
  unfolding constructs_def
proof (rule BCREATE_computes [OF assms(1-3)])
  show "computes (full l r) (result_width k (getWidth l)) (\<lambda>env. apint_op k (getWidth l) (eval env l) (eval env r))"
    using assms(5,6) wide_computes [OF assms(1-3), of k] by (cases "getWidth l = Suc 0") (auto simp: result_width_def)
qed (use assms(4) in auto)

lemma order_constructs:
  assumes "welltyped l" and "welltyped r" and "getWidth l = getWidth r"
  shows "constructs UltExpr (create_UltExpr False) l r" and "constructs UleExpr (create_UleExpr False) l r"
    and "constructs SltExpr (create_SltExpr False) l r" and "constructs SleExpr (create_SleExpr False) l r"
    and "constructs ShlExpr (create_ShlExpr False) l r" and "constructs LShrExpr (create_LShrExpr False) l r"
    and "constructs AShrExpr create_AShrExpr l r"
proof -
  have rng: "in_width (Suc 0) (eval env l)" "in_width (Suc 0) (eval env r)" if "getWidth l = Suc 0" for env
    using eval_in_width [OF assms(1), of env] eval_in_width [OF assms(2), of env] that assms(3) by simp_all
  note table = Bool_table [OF rng]
  note L = negated_left [OF assms(1,2)] and R = negated_right [OF assms(1,2)]
  show "constructs UltExpr (create_UltExpr False) l r" unfolding create_UltExpr_def
    by (rule BCREATE_constructs [OF assms])
      (use assms(3) computes_cong [OF L(1)] table(1) in \<open>simp_all add: isDivision_def UltExpr_create_def\<close>)
  show "constructs UleExpr (create_UleExpr False) l r" unfolding create_UleExpr_def
    by (rule BCREATE_constructs [OF assms])
      (use assms(3) computes_cong [OF L(2)] table(2) in \<open>simp_all add: isDivision_def UleExpr_create_def\<close>)
  show "constructs SltExpr (create_SltExpr False) l r" unfolding create_SltExpr_def
    by (rule BCREATE_constructs [OF assms])
      (use assms(3) computes_cong [OF R(1)] table(3) in \<open>simp_all add: isDivision_def SltExpr_create_def\<close>)
  show "constructs SleExpr (create_SleExpr False) l r" unfolding create_SleExpr_def
    by (rule BCREATE_constructs [OF assms])
      (use assms(3) computes_cong [OF R(2)] table(4) in \<open>simp_all add: isDivision_def SleExpr_create_def\<close>)
  show "constructs ShlExpr (create_ShlExpr False) l r" unfolding create_ShlExpr_def
    by (rule BCREATE_constructs [OF assms])
      (use assms(3) computes_cong [OF R(1)] table(5) in \<open>simp_all add: isDivision_def ShlExpr_create_def del: apint_op.simps\<close>)
  show "constructs LShrExpr (create_LShrExpr False) l r" unfolding create_LShrExpr_def
    by (rule BCREATE_constructs [OF assms])
      (use assms(3) computes_cong [OF R(1)] table(6) in \<open>simp_all add: isDivision_def LShrExpr_create_def del: apint_op.simps\<close>)
  show "constructs AShrExpr create_AShrExpr l r" unfolding create_AShrExpr_def
    by (rule BCREATE_constructs [OF assms])
      (use assms table(7) in \<open>simp_all add: isDivision_def AShrExpr_create_def del: apint_op.simps\<close>)
qed

text \<open>Divisions are only defined for a divisor other than \<open>0\<close>.\<close>

definition divides :: "binary_kind \<Rightarrow> expr outcome \<Rightarrow> expr \<Rightarrow> expr \<Rightarrow> bool" where
  "divides k res l r \<longleftrightarrow>
     (\<exists>e. res = Inr e \<and> welltyped e \<and> getWidth e = getWidth l \<and>
       (\<forall>env. eval env r \<noteq> 0 \<longrightarrow> eval env e = apint_op k (getWidth l) (eval env l) (eval env r)))"

lemma BCREATE_divides:
  assumes "welltyped l" and "welltyped r" and "getWidth l = getWidth r" and k: "isDivision k"
    and nz: "r \<noteq> ConstantExpr (getWidth r) 0" and full: "divides k (full l r) l r"
  shows "divides k (BCREATE k full l r) l r"
proof (cases "isConstant l \<and> isConstant r")
  case True
  with assms(3) obtain w a b where c: "l = ConstantExpr w a" "r = ConstantExpr w b" by (cases l; cases r) auto
  have "\<not> isCmp k" using k by (auto simp: isDivision_def isCmp_def)
  with c assms nz const_op_computes [of w a b k] show ?thesis
    by (auto simp: BCREATE_def divides_def computes_def result_width_def)
next
  case False
  then have "BCREATE k full l r = full l r" using assms(3) by (cases l; cases r) (auto simp: BCREATE_def)
  with full show ?thesis by simp
qed

lemma division_constructs:
  assumes "welltyped l" and "welltyped r" and "getWidth l = getWidth r" and "r \<noteq> ConstantExpr (getWidth r) 0"
  shows "divides UDivExpr (create_UDivExpr l r) l r" and "divides SDivExpr (create_SDivExpr l r) l r"
    and "divides URemExpr (create_URemExpr l r) l r" and "divides SRemExpr (create_SRemExpr l r) l r"
proof -
  have rng: "in_width (Suc 0) (eval env l)" "in_width (Suc 0) (eval env r)" if "getWidth l = Suc 0" for env
    using eval_in_width [OF assms(1), of env] eval_in_width [OF assms(2), of env] that assms(3) by simp_all
  note table = Bool_table [OF rng]
  show "divides UDivExpr (create_UDivExpr l r) l r" unfolding create_UDivExpr_def
    by (rule BCREATE_divides [OF assms(1-3) _ assms(4)])
      (use assms table(8) in \<open>auto simp: isDivision_def isCmp_def divides_def UDivExpr_create_def\<close>)
  show "divides SDivExpr (create_SDivExpr l r) l r" unfolding create_SDivExpr_def
    by (rule BCREATE_divides [OF assms(1-3) _ assms(4)])
      (use assms table(10) in \<open>auto simp: isDivision_def isCmp_def divides_def SDivExpr_create_def simp del: apint_op.simps\<close>)
  show "divides URemExpr (create_URemExpr l r) l r" unfolding create_URemExpr_def
    by (rule BCREATE_divides [OF assms(1-3) _ assms(4)])
      (use assms table(9) in \<open>auto simp: isDivision_def isCmp_def divides_def URemExpr_create_def\<close>)
  show "divides SRemExpr (create_SRemExpr l r) l r" unfolding create_SRemExpr_def
    by (rule BCREATE_divides [OF assms(1-3) _ assms(4)])
      (use assms table(11) in \<open>auto simp: isDivision_def isCmp_def divides_def SRemExpr_create_def simp del: apint_op.simps\<close>)
qed

lemma create_NeExpr_computes:
  assumes "welltyped l" and "welltyped r" and "getWidth l = getWidth r"
  shows "computes (create_NeExpr False l r) (Suc 0) (\<lambda>env. truth (eval env l \<noteq> eval env r))"
  unfolding create_NeExpr_def
proof (rule computes_bind [OF create_EqExpr_computes [OF assms]])
  fix e assume "welltyped e" "getWidth e = Suc 0" "\<And>env. eval env e = truth (eval env l = eval env r)"
  with create_EqExpr_computes [of "ConstantExpr Bool 0" e]
  have "computes (create_EqExpr False (ConstantExpr Bool 0) e) (Suc 0) (\<lambda>env. truth (0 = truth (eval env l = eval env r)))"
    by simp
  then show "computes (create_EqExpr False (ConstantExpr Bool 0) e) (Suc 0) (\<lambda>env. truth (eval env l \<noteq> eval env r))"
    by (rule computes_cong) (simp add: truth_def)
qed

lemma createFromKind_constructs:
  assumes "welltyped l" and "welltyped r" and "getWidth l = getWidth r"
  shows "\<not> isDivision k \<Longrightarrow> constructs k (createFromKind False k) l r"
    and "isDivision k \<Longrightarrow> r \<noteq> ConstantExpr (getWidth r) 0 \<Longrightarrow> divides k (createFromKind False k l r) l r"
proof -
  note rev = order_constructs [OF assms(2,1) assms(3) [symmetric]]
  have sums: "sums l r (getWidth l)" using create_AddExpr_SubExpr_computes [OF assms(1,2) refl] assms(3) by simp
  show "constructs k (createFromKind False k) l r" if "\<not> isDivision k"
    using that sums create_MulExpr_computes [OF assms] create_AndExpr_computes [OF assms] create_OrExpr_computes [OF assms]
      create_XorExpr_computes [OF assms] create_EqExpr_computes [OF assms] create_NeExpr_computes [OF assms]
      order_constructs [OF assms] rev assms(3)
    by (cases k) (simp_all add: constructs_def result_width_def isCmp_def isDivision_def sums_def
        create_UgtExpr_def create_UgeExpr_def create_SgtExpr_def create_SgeExpr_def)
  show "divides k (createFromKind False k l r) l r" if "isDivision k" "r \<noteq> ConstantExpr (getWidth r) 0"
    using that division_constructs [OF assms] by (cases k) (simp_all add: isDivision_def)
qed

end
