(* ===== verification/Expr_Structure.thy ===== *)
theory Expr_Structure
  imports Expr_Correct
begin

text \<open>
  Correctness of the constructors that select, concatenate, extract, extend and read, and the
  properties of the whole group of constructors.
\<close>

section \<open>Bits\<close>

lemma in_width_bit: "in_width w a \<Longrightarrow> bit a i \<Longrightarrow> i < w"
  by (metis in_width_iff bit_take_bit_iff)

lemma take_drop_signed:
  assumes "off + w \<le> kw"
  shows "take_bit w (drop_bit off (signed_value kw c)) = take_bit w (drop_bit off c)"
proof (rule bit_eqI)
  fix n
  have "n < w \<Longrightarrow> min (off + n) (kw - 1) = off + n" using assms by auto
  then show "bit (take_bit w (drop_bit off (signed_value kw c))) n \<longleftrightarrow> bit (take_bit w (drop_bit off c)) n"
    by (auto simp: signed_value_def bit_take_bit_iff bit_drop_bit_eq bit_signed_take_bit_iff)
qed

lemma drop_concat_high:
  "n \<le> off \<Longrightarrow> take_bit w (drop_bit off (concat_bit n b a)) = take_bit w (drop_bit (off - n) a)"
  by (rule bit_eqI) (auto simp: bit_take_bit_iff bit_drop_bit_eq bit_concat_bit_iff)

lemma drop_concat_low:
  "off + w \<le> n \<Longrightarrow> take_bit w (drop_bit off (concat_bit n b a)) = take_bit w (drop_bit off b)"
  by (rule bit_eqI) (auto simp: bit_take_bit_iff bit_drop_bit_eq bit_concat_bit_iff)

lemma drop_concat_both:
  assumes "off < n" and "n < off + w"
  shows "concat_bit (n - off) (take_bit (n - off) (drop_bit off b)) (take_bit (w + off - n) (drop_bit 0 a)) =
    take_bit w (drop_bit off (concat_bit n b a))"
  using assms by (intro bit_eqI) (auto simp: bit_take_bit_iff bit_drop_bit_eq bit_concat_bit_iff add.commute)

lemma concat_contiguous:
  "concat_bit w2 (take_bit w2 (drop_bit o2 e)) (take_bit w1 (drop_bit (o2 + w2) e)) = take_bit (w1 + w2) (drop_bit o2 e)"
  by (rule bit_eqI) (auto simp: bit_take_bit_iff bit_drop_bit_eq bit_concat_bit_iff add.commute add.left_commute)

lemma const_Concat_value:
  assumes "in_width wl a" and "in_width wr b"
  shows "take_bit (wl + wr) (push_bit wr a) OR b = concat_bit wr b a"
  using in_width_bit [OF assms(1)] in_width_bit [OF assms(2)]
  by (intro bit_eqI) (force simp: bit_or_iff bit_take_bit_iff bit_push_bit_iff bit_concat_bit_iff)


section \<open>Concatenation and extraction\<close>

abbreviation extracts :: "expr \<Rightarrow> nat \<Rightarrow> nat \<Rightarrow> bool" where
  "extracts e off w \<equiv> computes (create_ExtractExpr e off w) w (\<lambda>env. take_bit w (drop_bit off (eval env e)))"

abbreviation concatenates :: "expr \<Rightarrow> expr \<Rightarrow> bool" where
  "concatenates l r \<equiv> computes (create_ConcatExpr l r) (getWidth l + getWidth r)
     (\<lambda>env. concat_bit (getWidth r) (eval env r) (eval env l))"

lemma create_ExtractExpr_computes:
  "welltyped e \<Longrightarrow> 0 < w \<Longrightarrow> off + w \<le> getWidth e \<Longrightarrow> extracts e off w"
  and create_ConcatExpr_computes: "welltyped l \<Longrightarrow> welltyped r \<Longrightarrow> concatenates l r"
proof (induction e off w and l r rule: create_ExtractExpr_create_ConcatExpr.induct)
  case (1 e off w)
  show ?case
  proof (cases "w = getWidth e")
    case True
    with "1.prems" show ?thesis
      using eval_in_width [OF "1.prems"(1)] by (simp add: create_ExtractExpr.simps take_bit_in_width)
  next
    case False
    have a: "assert_that (0 < w \<and> off + w \<le> getWidth e) ''invalid extract'' = Inr ()" using "1.prems" by simp
    show ?thesis
    proof (cases e)
      case (ConstantExpr kw c)
      with "1.prems" False show ?thesis
        by (simp add: create_ExtractExpr.simps const_Extract_def take_drop_signed min_absorb1)
    next
      case e: (ConcatExpr l r)
      with "1.prems" have lr: "welltyped l" "welltyped r" "off + w \<le> getWidth l + getWidth r" by auto
      consider (high) "getWidth r \<le> off" | (low) "\<not> getWidth r \<le> off" "off + w \<le> getWidth r"
        | (both) "\<not> getWidth r \<le> off" "\<not> off + w \<le> getWidth r" by blast
      then show ?thesis
      proof cases
        case high
        have "extracts l (off - getWidth r) w"
          by (rule "1.IH"(1) [OF a False e high lr(1) "1.prems"(2)]) (use high lr(3) in simp)
        with e False high "1.prems" show ?thesis by (simp add: create_ExtractExpr.simps [of "ConcatExpr l r"] drop_concat_high)
      next
        case low
        have "extracts r off w" by (rule "1.IH"(2) [OF a False e low lr(2) "1.prems"(2) low(2)])
        with e False low "1.prems" show ?thesis by (simp add: create_ExtractExpr.simps [of "ConcatExpr l r"] drop_concat_low)
      next
        case both
        let ?wl = "w + off - getWidth r" and ?wr = "getWidth r - off"
        have l: "extracts l 0 ?wl" by (rule "1.IH"(3) [OF a False e both lr(1)]) (use both lr(3) in auto)
        then obtain x where x: "create_ExtractExpr l 0 ?wl = Inr x" "welltyped x" "getWidth x = ?wl"
          "\<And>env. eval env x = take_bit ?wl (drop_bit 0 (eval env l))" by (auto simp: computes_def)
        have "extracts r off ?wr" by (rule "1.IH"(4) [OF a False e both x(1) lr(2)]) (use both in auto)
        then obtain y where y: "create_ExtractExpr r off ?wr = Inr y" "welltyped y" "getWidth y = ?wr"
          "\<And>env. eval env y = take_bit ?wr (drop_bit off (eval env r))" by (auto simp: computes_def)
        have "concatenates x y" by (rule "1.IH"(5) [OF a False e both x(1) y(1) x(2) y(2)])
        moreover have "concat_bit (getWidth y) (eval env y) (eval env x) = take_bit w (drop_bit off (eval env e))" for env
          using drop_concat_both [of off "getWidth r" w "eval env r" "eval env l"] both e by (simp add: x y)
        moreover have "create_ExtractExpr e off w = create_ConcatExpr x y"
          using e False both "1.prems" x(1) y(1) by (simp add: create_ExtractExpr.simps [of "ConcatExpr l r"])
        moreover have "getWidth x + getWidth y = w" using x(3) y(3) both by simp
        ultimately show ?thesis by simp
      qed
    qed (use "1.prems" False in \<open>auto simp: create_ExtractExpr.simps\<close>)
  qed
next
  case (2 l r)
  consider (const) wl a wr b where "l = ConstantExpr wl a" "r = ConstantExpr wr b"
    | (merge) e o1 w1 o2 w2 where "l = ExtractExpr e o1 w1" "r = ExtractExpr e o2 w2" "o2 + w2 = o1"
    | (plain) "create_ConcatExpr l r = Inr (ConcatExpr l r)"
    by (cases l; cases r) (force simp: create_ConcatExpr.simps)+
  then show ?case
  proof cases
    case const
    with "2.prems" const_Concat_value [of wl a wr b] in_width_concat_bit [of wl a wr b]
    show ?thesis by (simp add: create_ConcatExpr.simps const_Concat_def)
  next
    case merge
    with "2.prems" have e: "welltyped e" "0 < w1 + w2" "o2 + (w1 + w2) \<le> getWidth e" by auto
    have "extracts e o2 (w1 + w2)"
      using "2.IH" [OF refl merge(1,2), of] merge e by simp
    with merge concat_contiguous [of w2 o2 _ w1] show ?thesis by (simp add: create_ConcatExpr.simps)
  next
    case plain
    with "2.prems" show ?thesis by simp
  qed
qed


section \<open>Casts, selections and reads\<close>

lemma create_ZExtExpr_computes:
  assumes "welltyped e" and "0 < w"
  shows "computes (create_ZExtExpr e w) w (\<lambda>env. take_bit w (eval env e))"
proof -
  consider "w = getWidth e" | "w < getWidth e" | "getWidth e < w" by linarith
  then show ?thesis
  proof cases
    case 2
    with create_ExtractExpr_computes [OF assms(1,2), of 0] show ?thesis by (simp add: create_ZExtExpr_def)
  next
    case 3
    then have "take_bit w (eval env e) = eval env e" for env
      using eval_in_width [OF assms(1), of env] by (simp add: take_bit_in_width in_width_mono)
    moreover from 3 have "create_ZExtExpr e w = Inr (ZExtExpr e w) \<or>
        (\<exists>k c. e = ConstantExpr k c \<and> create_ZExtExpr e w = Inr (ConstantExpr w (take_bit w c)))"
      by (cases e) (auto simp: create_ZExtExpr_def const_ZExt_def)
    ultimately show ?thesis using assms 3 by (auto simp: in_width_iff)
  qed (use assms eval_in_width in \<open>auto simp: create_ZExtExpr_def take_bit_in_width\<close>)
qed

lemma create_SExtExpr_computes:
  assumes "welltyped e" and "0 < w"
  shows "computes (create_SExtExpr e w) w
    (\<lambda>env. if w < getWidth e then take_bit w (eval env e) else const_SExt (getWidth e) (eval env e) w)"
proof -
  consider "w = getWidth e" | "w < getWidth e" | "getWidth e < w" by linarith
  then show ?thesis
  proof cases
    case 1
    then have "const_SExt w (eval env e) w = eval env e" for env
      using take_bit_sext [of w w "eval env e"] assms eval_in_width [OF assms(1), of env]
      by (simp add: const_SExt_def)
    with assms 1 show ?thesis by (simp add: create_SExtExpr_def)
  next
    case 2
    with create_ExtractExpr_computes [OF assms(1,2), of 0] show ?thesis by (simp add: create_SExtExpr_def)
  next
    case 3
    with assms show ?thesis by (cases e) (auto simp: create_SExtExpr_def const_SExt_def)
  qed
qed

lemma create_NotExpr_computes:
  "welltyped e \<Longrightarrow> computes (Inr (create_NotExpr e)) (getWidth e) (\<lambda>env. const_Not (getWidth e) (eval env e))"
  by (cases e) (simp_all add: create_NotExpr_def const_Not_def)

lemma select_Bool:
  assumes "in_width (Suc 0) c" and "in_width (Suc 0) v"
  shows "c OR v = (if c = 1 then 1 else v)" and "truth (c = 0) AND v = (if c = 1 then 0 else v)"
    and "truth (c = 0) OR v = (if c = 1 then v else 1)" and "c AND v = (if c = 1 then v else 0)"
proof -
  have "c = 0 \<or> c = 1" "v = 0 \<or> v = 1" using assms by (simp_all add: in_width_Bool)
  then show "c OR v = (if c = 1 then 1 else v)" "truth (c = 0) AND v = (if c = 1 then 0 else v)"
    "truth (c = 0) OR v = (if c = 1 then v else 1)" "c AND v = (if c = 1 then v else 0)"
    by (auto simp: truth_def)
qed

lemma create_SelectExpr_computes:
  assumes "welltyped c" and "welltyped t" and "welltyped f" and "getWidth c = Suc 0" and "getWidth t = getWidth f"
  shows "computes (create_SelectExpr False c t f) (getWidth t) (\<lambda>env. if eval env c = 1 then eval env t else eval env f)"
proof -
  have rng: "in_width (Suc 0) (eval env c)" for env using eval_in_width [OF assms(1), of env] assms(4) by simp
  have rt: "in_width (Suc 0) (eval env t)" "in_width (Suc 0) (eval env f)" if "getWidth t = Suc 0" for env
    using eval_in_width [OF assms(2), of env] eval_in_width [OF assms(3), of env] that assms(5) by simp_all
  consider (const) v where "c = ConstantExpr (Suc 0) v"
    | (same) "\<not> isConstant c" "t = f"
    | (t) v where "\<not> isConstant c" "t \<noteq> f" "t = ConstantExpr (Suc 0) v"
    | (f) v where "\<not> isConstant c" "t \<noteq> f" "\<not> isConstant t" "f = ConstantExpr (Suc 0) v"
    | (plain) "\<not> isConstant c" "t \<noteq> f" "getWidth t = Suc 0 \<Longrightarrow> \<not> isConstant t \<and> \<not> isConstant f"
    using assms(4,5) by (cases c; cases t; cases f) auto
  then show ?thesis
  proof cases
    case const
    with assms show ?thesis by (auto simp: create_SelectExpr_def in_width_Bool)
  next
    case same
    with assms show ?thesis by (cases c) (simp_all add: create_SelectExpr_def)
  next
    case t
    with assms have v: "v = 0 \<or> v = 1" by (simp add: in_width_Bool)
    have "create_SelectExpr False c t f =
        (if v = 1 then create_OrExpr c f else bind_outcome (createIsZero False c) (\<lambda>n. create_AndExpr n f))"
      using t v assms by (cases c) (auto simp: create_SelectExpr_def)
    moreover have "computes (create_OrExpr c f) (getWidth t) (\<lambda>env. eval env c OR eval env f)"
      "computes (bind_outcome (createIsZero False c) (\<lambda>n. create_AndExpr n f)) (getWidth t)
         (\<lambda>env. truth (eval env c = 0) AND eval env f)"
      using create_OrExpr_computes [of c f] negated_left(1) [of c f] t assms by simp_all
    ultimately show ?thesis using v t select_Bool(1,2) [OF rng rt(2)] assms by (auto cong: if_cong)
  next
    case f
    with assms have v: "v = 0 \<or> v = 1" by (simp add: in_width_Bool)
    have "create_SelectExpr False c t f =
        (if v = 1 then bind_outcome (createIsZero False c) (\<lambda>n. create_OrExpr n t) else create_AndExpr c t)"
      using f v assms by (cases c; cases t) (auto simp: create_SelectExpr_def)
    moreover have "computes (create_AndExpr c t) (getWidth t) (\<lambda>env. eval env c AND eval env t)"
      "computes (bind_outcome (createIsZero False c) (\<lambda>n. create_OrExpr n t)) (getWidth t)
         (\<lambda>env. truth (eval env c = 0) OR eval env t)"
      using create_AndExpr_computes [of c t] negated_left(2) [of c t] f assms by simp_all
    ultimately show ?thesis using v f select_Bool(3,4) [OF rng rt(1)] assms by (auto cong: if_cong)
  next
    case plain
    then have "create_SelectExpr False c t f = Inr (SelectExpr c t f)"
      using assms(4,5) by (cases c; cases t; cases f) (auto simp: create_SelectExpr_def)
    with assms show ?thesis by simp
  qed
qed

text \<open>A read skips exactly updates whose index differs, and stops at one it cannot decide.\<close>

lemma read_updates_value:
  assumes "updates_ok a us" and "welltyped index" and "getWidth index = ar_domain a"
  shows "\<exists>res. read_updates False index us = Inr res \<and>
    (\<forall>v. res = Some v \<longrightarrow> welltyped v \<and> getWidth v = ar_range a \<and>
       (\<forall>env. eval env v = evalRead env a (eval env index) us))"
  using assms(1)
proof (induction us rule: getSize.induct)
  case (2 i v us')
  then have i: "welltyped i" "getWidth index = getWidth i" using assms(3) by simp_all
  obtain cnd where cnd: "create_EqExpr False index i = Inr cnd" "welltyped cnd" "getWidth cnd = Suc 0"
    "\<And>env. eval env cnd = truth (eval env index = eval env i)"
    using create_EqExpr_computes [OF assms(2) i] by (auto simp: computes_def)
  show ?case
  proof (cases "isConstant cnd")
    case True
    with cnd(3) obtain c where c: "cnd = ConstantExpr (Suc 0) c" by (cases cnd) auto
    with cnd have "c = 0 \<or> c = 1" by (simp add: in_width_Bool)
    moreover have "c = truth (eval env index = eval env i)" for env using c cnd(4) [of env] by simp
    then have "c = 1 \<longleftrightarrow> eval env i = eval env index" "c = 0 \<longleftrightarrow> eval env i \<noteq> eval env index" for env
      by (metis truth_def zero_neq_one)+
    ultimately have "c = 1 \<and> (\<forall>env. eval env i = eval env index) \<or> c = 0 \<and> (\<forall>env. eval env i \<noteq> eval env index)"
      by blast
    with c cnd(1) 2 show ?thesis by auto
  next
    case False
    with cnd(1) show ?thesis by (cases cnd) simp_all
  qed
qed simp

lemma create_ReadExpr_computes:
  assumes "array_ok a" and "updates_ok a us" and "welltyped index" and "getWidth index = ar_domain a"
  shows "computes (create_ReadExpr False a us index) (ar_range a) (\<lambda>env. evalRead env a (eval env index) us)"
proof -
  obtain res where "read_updates False index us = Inr res"
    and "\<forall>v. res = Some v \<longrightarrow> welltyped v \<and> getWidth v = ar_range a \<and>
       (\<forall>env. eval env v = evalRead env a (eval env index) us)"
    using read_updates_value [OF assms(2-4)] by blast
  with assms show ?thesis by (cases res) (auto simp: create_ReadExpr_def)
qed

text \<open>The value of a sequence of bytes, least significant first.\<close>

fun little_endian :: "int list \<Rightarrow> int" where
  "little_endian [] = 0"
| "little_endian (b # bs) = concat_bit 8 b (little_endian bs)"

lemma temp_byte_computes:
  assumes "array_ok a" and "ar_domain a = 32" and "ar_range a = 8" and "n < 8"
  shows "computes (temp_byte False a n) 8 (\<lambda>env. initial_value env a (int n))"
  using create_ReadExpr_computes [of a No_Update "ConstantExpr 32 (int n)"] assms
  by (simp add: temp_byte_def in_width_def)

lemma little_endian_append:
  assumes "in_width 8 b"
  shows "little_endian (bs @ [b]) = concat_bit (8 * length bs) (little_endian bs) b"
proof (induction bs)
  case Nil
  have "concat_bit 8 b 0 = b" using assms by (simp add: concat_bit_eq take_bit_in_width)
  then show ?case by simp
next
  case (Cons x bs)
  then have "little_endian ((x # bs) @ [b]) = concat_bit 8 x (concat_bit (8 * length bs) (little_endian bs) b)" by simp
  also have "\<dots> = concat_bit (8 * length bs + 8) (concat_bit 8 x (little_endian bs)) b" by (rule concat_bit_assoc)
  finally show ?case by (simp add: add.commute)
qed

lemma bind_assoc: "bind_outcome (bind_outcome r f) g = bind_outcome r (\<lambda>x. bind_outcome (f x) g)"
  by (cases r) simp_all

text \<open>Putting one more byte in front of a concatenation of bytes.\<close>

definition byte :: "expr \<Rightarrow> bool" where
  "byte e \<longleftrightarrow> welltyped e \<and> getWidth e = 8"

abbreviation bytes :: "expr outcome \<Rightarrow> expr list \<Rightarrow> bool" where
  "bytes r ks \<equiv> computes r (8 * length ks) (\<lambda>env. little_endian (map (eval env) ks))"

lemma bytes_one: "byte k \<Longrightarrow> bytes (Inr k) [k]"
  using eval_in_width [of k] by (auto simp: byte_def concat_bit_eq take_bit_in_width)

lemma bytes_more:
  assumes "bytes r ks" and "byte k"
  shows "bytes (bind_outcome r (create_ConcatExpr k)) (ks @ [k])"
proof (rule computes_bind [OF assms(1)])
  fix e assume e: "welltyped e" "getWidth e = 8 * length ks" "\<And>env. eval env e = little_endian (map (eval env) ks)"
  have k: "welltyped k" "getWidth k = 8" using assms(2) by (simp_all add: byte_def)
  have "in_width 8 (eval env k)" for env using eval_in_width [OF k(1), of env] k(2) by simp
  with create_ConcatExpr_computes [OF k(1) e(1)] e k(2)
  show "bytes (create_ConcatExpr k e) (ks @ [k])" by (simp add: little_endian_append add.commute)
qed

lemma createN_bytes:
  assumes "\<forall>k\<in>set ks. byte k" and "ks \<noteq> []"
  shows "bytes (createN ks) (rev ks)"
proof -
  have fold: "bytes (fold_outcome create_ConcatExpr xs e) (zs @ xs)" if "bytes (Inr e) zs" "\<forall>k\<in>set xs. byte k" for xs e zs
    using that
  proof (induction xs arbitrary: e zs)
    case (Cons x xs)
    from bytes_more [OF Cons.prems(1), of x] Cons.prems(2) obtain e' where "create_ConcatExpr x e = Inr e'"
      "bytes (Inr e') (zs @ [x])" by (auto simp: computes_def)
    with Cons.IH [of e' "zs @ [x]"] Cons.prems(2) show ?case by simp
  qed simp
  obtain ys y where ks: "ks = ys @ [y]" using assms(2) by (cases ks rule: rev_cases) auto
  then have "createN ks = fold_outcome create_ConcatExpr (rev ys) y" by (simp add: createN_def)
  with fold [OF bytes_one [of y], of "rev ys"] assms(1) ks show ?thesis by simp
qed

lemma create4_createN: "create4 k1 k2 k3 k4 = createN [k1, k2, k3, k4]"
  by (simp add: create4_def createN_def bind_assoc bind_outcome_def split: sum.splits)

lemma create8_createN: "create8 k1 k2 k3 k4 k5 k6 k7 k8 = createN [k1, k2, k3, k4, k5, k6, k7, k8]"
  by (simp add: create8_def create4_def createN_def bind_assoc bind_outcome_def split: sum.splits)

lemma createTempRead_computes:
  assumes "array_ok a" and "ar_domain a = 32" and "ar_range a = 8" and "w \<in> {8, 16, 32, 64}"
  shows "computes (createTempRead False a w) w (\<lambda>env. little_endian (map (\<lambda>i. initial_value env a (int i)) [0..<w div 8]))"
proof -
  define b where "b n = (case temp_byte False a n of Inr e \<Rightarrow> e)" for n
  have b: "temp_byte False a n = Inr (b n)" "byte (b n)" "\<And>env. eval env (b n) = initial_value env a (int n)" if "n < 8" for n
    using temp_byte_computes [OF assms(1-3) that] by (auto simp: computes_def b_def byte_def)
  have up: "[0..<1::nat] = [0]" "[0..<2::nat] = [0, 1]" "[0..<4::nat] = [0, 1, 2, 3]"
    "[0..<8::nat] = [0, 1, 2, 3, 4, 5, 6, 7]" by (simp_all add: upt_rec)
  have eq: "createTempRead False a w = createN (map b (rev [0..<w div 8]))"
    using assms(4)
  proof (elim insertE emptyE)
    assume "w = 16"
    then show ?thesis using b(1) [of 0] b(1) [of 1] up(2)
      by (simp add: createTempRead_def createN_def bind_outcome_def split: sum.split)
  next
    assume "w = 8"
    then show ?thesis using b(1) [of 0] up(1) by (simp add: createTempRead_def createN_def)
  next
    assume "w = 32"
    then show ?thesis using b(1) [of 0] b(1) [of 1] b(1) [of 2] b(1) [of 3] up(3)
      by (simp add: createTempRead_def create4_createN)
  next
    assume "w = 64"
    then show ?thesis using b(1) [of 0] b(1) [of 1] b(1) [of 2] b(1) [of 3] b(1) [of 4] b(1) [of 5] b(1) [of 6] b(1) [of 7] up(4)
      by (simp add: createTempRead_def create8_createN)
  qed
  have n: "0 < w div 8" "w div 8 \<le> 8" "8 * (w div 8) = w" using assms(4) by auto
  have "bytes (createN (map b (rev [0..<w div 8]))) (map b [0..<w div 8])"
    using createN_bytes [of "map b (rev [0..<w div 8])"] b(2) n by (simp add: rev_map)
  moreover have "map (eval env) (map b [0..<w div 8]) = map (\<lambda>i. initial_value env a (int i)) [0..<w div 8]" for env
    using b(3) n by simp
  ultimately show ?thesis using n eq by (simp del: map_map)
qed


section \<open>Properties\<close>

definition buffer :: array where
  "buffer = Array 1 ''buf'' 4 [] 32 8"

definition first_byte :: expr where
  "first_byte = ReadExpr buffer No_Update (ConstantExpr 32 0)"

lemma buffer_ok [simp]: "array_ok buffer" "ar_domain buffer = 32" "ar_range buffer = 8"
  by (simp_all add: buffer_def array_ok_def isSymbolicArray_def)

lemma first_byte_ok [simp]: "welltyped first_byte" "getWidth first_byte = 8"
  by (simp_all add: first_byte_def)

text \<open>
  (C5) The simplifying constructors of all binary operations are correct: on well-typed operands of
  the same width they run into no assertion, and the expression they return is well typed, has the
  width of the operation and has, for all contents of the arrays, the value of the operation on
  the values of the operands. For the divisions this holds where the divisor is not \<open>0\<close>.
\<close>

theorem binary_constructors_sound:
  assumes "welltyped l" and "welltyped r" and "getWidth l = getWidth r"
    and "isDivision k \<Longrightarrow> r \<noteq> ConstantExpr (getWidth r) 0"
  shows "\<exists>e. createFromKind False k l r = Inr e \<and> welltyped e \<and> getWidth e = (if isCmp k then Bool else getWidth l) \<and>
    (\<forall>env. isDivision k \<and> eval env r = 0 \<or> eval env e = apint_op k (getWidth l) (eval env l) (eval env r))"
proof (cases "isDivision k")
  case True
  then have "\<not> isCmp k" by (auto simp: isDivision_def isCmp_def)
  with createFromKind_constructs(2) [OF assms(1-3) True] True assms(4) show ?thesis by (auto simp: divides_def)
next
  case False
  with createFromKind_constructs(1) [OF assms(1-3) False] show ?thesis
    by (auto simp: constructs_def computes_def result_width_def)
qed

theorem binary_constructors_sound_witness:
  "\<exists>e. createFromKind False SubExpr (BinaryExpr AddExpr (ConstantExpr 8 200) first_byte) (ConstantExpr 8 200) = Inr e \<and>
     (\<forall>env. eval env e = eval env first_byte)"
proof -
  let ?l = "BinaryExpr AddExpr (ConstantExpr 8 200) first_byte" and ?r = "ConstantExpr 8 200"
  obtain e where e: "createFromKind False SubExpr ?l ?r = Inr e"
    "\<forall>env. eval env e = take_bit 8 (take_bit 8 (200 + eval env first_byte) - 200)"
    using binary_constructors_sound [of ?l ?r SubExpr] by (auto simp: isCmp_def isDivision_def in_width_def)
  have "take_bit 8 (take_bit 8 (200 + v) - 200) = take_bit 8 v" for v :: int
    by (simp add: take_bit_eq_mod mod_simps)
  moreover have "take_bit 8 (eval env first_byte) = eval env first_byte" for env
    using eval_in_width [of first_byte env] by (simp add: take_bit_in_width)
  ultimately show ?thesis using e by auto
qed

text \<open>
  (C9) Extraction and concatenation: splitting an extract over the parts of a concatenation and
  merging contiguous extracts both terminate and keep the bits. \<open>ExtractExpr::create\<close> returns the bits
  from \<open>off\<close> to \<open>off + w - 1\<close>, \<open>ConcatExpr::create\<close> puts the bits of the left operand above those of the right.
\<close>

theorem extract_and_concat_sound:
  assumes "welltyped e" and "0 < w" and "off + w \<le> getWidth e" and "welltyped l" and "welltyped r"
  shows "(\<exists>x. create_ExtractExpr e off w = Inr x \<and> welltyped x \<and> getWidth x = w \<and>
      (\<forall>env i. bit (eval env x) i \<longleftrightarrow> i < w \<and> bit (eval env e) (off + i))) \<and>
    (\<exists>y. create_ConcatExpr l r = Inr y \<and> welltyped y \<and> getWidth y = getWidth l + getWidth r \<and>
      (\<forall>env. eval env y = eval env l * 2 ^ getWidth r + eval env r))"
proof -
  have "concat_bit (getWidth r) (eval env r) (eval env l) = eval env l * 2 ^ getWidth r + eval env r" for env
    using eval_in_width [OF assms(5), of env] by (simp add: concat_bit_eq take_bit_in_width push_bit_eq_mult)
  with create_ExtractExpr_computes [OF assms(1-3)] create_ConcatExpr_computes [OF assms(4,5)] show ?thesis
    by (auto simp: computes_def bit_take_bit_iff bit_drop_bit_eq)
qed

theorem extract_and_concat_sound_witness:
  "\<exists>x. create_ExtractExpr (ConcatExpr first_byte (NotExpr first_byte)) 4 8 = Inr x \<and> getWidth x = 8 \<and>
     (\<forall>env i. bit (eval env x) i \<longleftrightarrow> i < 8 \<and> bit (eval env (ConcatExpr first_byte (NotExpr first_byte))) (4 + i))"
  using extract_and_concat_sound [of "ConcatExpr first_byte (NotExpr first_byte)" 8 4 first_byte first_byte] by auto

text \<open>
  (C22) A read of an updated array returns the value of the most recent update at the index, or the
  initial content if there is none, also where the constructor decides some of the comparisons
  of indices on the spot.
\<close>

theorem create_ReadExpr_sound:
  assumes "array_ok a" and "updates_ok a us" and "welltyped index" and "getWidth index = ar_domain a"
  shows "\<exists>e. create_ReadExpr False a us index = Inr e \<and> welltyped e \<and> getWidth e = ar_range a \<and>
    (\<forall>env. eval env e = evalRead env a (eval env index) us)"
  using create_ReadExpr_computes [OF assms] by (simp add: computes_def)

theorem create_ReadExpr_sound_witness:
  "\<exists>e. create_ReadExpr False buffer
       (UpdateNode (ConstantExpr 32 1) (ConstantExpr 8 7) (UpdateNode (ConstantExpr 32 2) first_byte No_Update))
       (ConstantExpr 32 2) = Inr e \<and> (\<forall>env. eval env e = eval env first_byte)"
  using create_ReadExpr_sound [of buffer
      "UpdateNode (ConstantExpr 32 1) (ConstantExpr 8 7) (UpdateNode (ConstantExpr 32 2) first_byte No_Update)"
      "ConstantExpr 32 2"] by (auto simp: in_width_def)

text \<open>
  \<open>createTempRead\<close> reads the array in little-endian order: the value is that of the first bytes, with
  the byte at offset \<open>0\<close> least significant.
\<close>

theorem createTempRead_little_endian:
  assumes "array_ok a" and "ar_domain a = 32" and "ar_range a = 8" and "w \<in> {8, 16, 32, 64}"
  shows "\<exists>e. createTempRead False a w = Inr e \<and> welltyped e \<and> getWidth e = w \<and>
    (\<forall>env. eval env e = little_endian (map (\<lambda>i. initial_value env a (int i)) [0..<w div 8]))"
  using createTempRead_computes [OF assms] by (simp add: computes_def)

theorem createTempRead_little_endian_witness:
  "\<exists>e. createTempRead False buffer 16 = Inr e \<and> getWidth e = 16 \<and>
     (\<forall>env. eval env e = little_endian [initial_value env buffer 0, initial_value env buffer 1])"
  using createTempRead_little_endian [of buffer 16] by (auto simp: upt_rec)

text \<open>
  (C30) The value of a well-typed expression fits its width, and so do the values of the selecting,
  negating and extending constructors, which are well typed again.
\<close>

theorem constructors_welltyped:
  assumes "welltyped c" and "getWidth c = Bool" and "welltyped t" and "welltyped f" and "getWidth t = getWidth f" and "0 < w"
  shows "in_width (getWidth t) (eval env t) \<and>
    (\<exists>e. create_SelectExpr False c t f = Inr e \<and> welltyped e \<and> getWidth e = getWidth t \<and>
       eval env e = (if eval env c = 1 then eval env t else eval env f)) \<and>
    (\<exists>e. create_ZExtExpr t w = Inr e \<and> welltyped e \<and> getWidth e = w \<and> eval env e = take_bit w (eval env t)) \<and>
    (\<exists>e. create_SExtExpr t w = Inr e \<and> welltyped e \<and> getWidth e = w \<and>
       (w < getWidth t \<or> eval env e = take_bit w (signed_value (getWidth t) (eval env t)))) \<and>
    welltyped (create_NotExpr t) \<and> getWidth (create_NotExpr t) = getWidth t"
proof (intro conjI)
  show "\<exists>e. create_SelectExpr False c t f = Inr e \<and> welltyped e \<and> getWidth e = getWidth t \<and>
       eval env e = (if eval env c = 1 then eval env t else eval env f)"
    using create_SelectExpr_computes [OF assms(1,3,4) _ assms(5)] assms(2) by (auto simp: computes_def)
  show "\<exists>e. create_ZExtExpr t w = Inr e \<and> welltyped e \<and> getWidth e = w \<and> eval env e = take_bit w (eval env t)"
    using create_ZExtExpr_computes [OF assms(3,6)] by (auto simp: computes_def)
  show "\<exists>e. create_SExtExpr t w = Inr e \<and> welltyped e \<and> getWidth e = w \<and>
       (w < getWidth t \<or> eval env e = take_bit w (signed_value (getWidth t) (eval env t)))"
    using create_SExtExpr_computes [OF assms(3,6)] by (auto simp: computes_def const_SExt_def)
qed (use assms(3) eval_in_width create_NotExpr_computes [OF assms(3)] in auto)

theorem constructors_welltyped_witness:
  "\<exists>e. create_SelectExpr False (BinaryExpr EqExpr first_byte (ConstantExpr 8 3)) (ConstantExpr 8 1) first_byte = Inr e \<and>
     welltyped e \<and> getWidth e = 8"
  using constructors_welltyped [of "BinaryExpr EqExpr first_byte (ConstantExpr 8 3)" "ConstantExpr 8 1" first_byte 16]
  by (auto simp: isCmp_def in_width_def)

end
