(* ===== verification/Ordered_Maps.thy ===== *)
theory Ordered_Maps
  imports Prelude "HOL-Library.List_Lexorder" "HOL-Library.Char_ord"
begin

text \<open>
  \<open>std::set\<close> and \<open>std::map\<close> with their order of iteration: a set is a sorted list without duplicates, a map a
  list of entries sorted by key. Strings are ordered as \<open>std::string\<close> orders them, by the unsigned
  values of their characters.
\<close>

section \<open>Sets\<close>

type_synonym 'a ordered_set = "'a list"

definition set_ok :: "('a :: linorder) ordered_set \<Rightarrow> bool" where
  "set_ok s \<longleftrightarrow> sorted_wrt (<) s"

definition set_insert :: "'a :: linorder \<Rightarrow> 'a ordered_set \<Rightarrow> 'a ordered_set" where
  "set_insert x s = insort_insert x s"

lemma set_set_insert [simp]: "set (set_insert x s) = insert x (set s)"
  by (simp add: set_insert_def set_insort_insert)

lemma set_ok_Nil [simp]: "set_ok []"
  by (simp add: set_ok_def)

lemma set_ok_iff: "set_ok s \<longleftrightarrow> sorted s \<and> distinct s"
  by (auto simp: set_ok_def strict_sorted_iff)

lemma set_ok_insert [simp]: "set_ok s \<Longrightarrow> set_ok (set_insert x s)"
  by (simp add: set_ok_iff set_insert_def sorted_insort_insert distinct_insort_insert)

text \<open>The step of an iterator: the least element above the current one, in the set as it is now.\<close>

definition set_next :: "'a :: linorder \<Rightarrow> 'a ordered_set \<Rightarrow> 'a option" where
  "set_next x s = List.find (\<lambda>y. x < y) s"


section \<open>Maps\<close>

type_synonym ('k, 'v) ordered_map = "('k \<times> 'v) list"

abbreviation om_find :: "('k, 'v) ordered_map \<Rightarrow> 'k \<rightharpoonup> 'v" where
  "om_find m \<equiv> map_of m"

abbreviation om_keys :: "('k, 'v) ordered_map \<Rightarrow> 'k list" where
  "om_keys m \<equiv> map fst m"

definition om_ok :: "('k :: linorder, 'v) ordered_map \<Rightarrow> bool" where
  "om_ok m \<longleftrightarrow> sorted_wrt (<) (om_keys m)"

text \<open>\<open>m[k] = v\<close>.\<close>

fun om_put :: "'k :: linorder \<Rightarrow> 'v \<Rightarrow> ('k, 'v) ordered_map \<Rightarrow> ('k, 'v) ordered_map" where
  "om_put k v [] = [(k, v)]"
| "om_put k v ((k', v') # m) =
     (if k < k' then (k, v) # (k', v') # m else if k = k' then (k, v) # m else (k', v') # om_put k v m)"

text \<open>\<open>m.insert(make_pair(k, v))\<close> keeps an existing entry.\<close>

definition om_insert :: "'k :: linorder \<Rightarrow> 'v \<Rightarrow> ('k, 'v) ordered_map \<Rightarrow> ('k, 'v) ordered_map" where
  "om_insert k v m = (if om_find m k = None then om_put k v m else m)"

lemma om_keys_put: "set (om_keys (om_put k v m)) = insert k (set (om_keys m))"
  by (induction k v m rule: om_put.induct) auto

lemma om_ok_Nil [simp]: "om_ok []"
  by (simp add: om_ok_def)

lemma om_ok_put [simp]: "om_ok m \<Longrightarrow> om_ok (om_put k v m)"
  unfolding om_ok_def
proof (induction k v m rule: om_put.induct)
  case (2 k v k' v' m)
  then have "\<forall>x\<in>set (om_keys m). k' < x" by auto
  with 2 om_keys_put [of k v m] show ?case by (auto simp: not_less_iff_gr_or_eq)
qed simp

lemma om_find_put: "om_ok m \<Longrightarrow> om_find (om_put k v m) = (om_find m)(k \<mapsto> v)"
  unfolding om_ok_def
proof (induction k v m rule: om_put.induct)
  case (2 k v k' v' m)
  show ?case
  proof (cases "k < k'")
    case False
    with 2 show ?thesis by (cases "k = k'") (auto simp: fun_eq_iff)
  qed (simp add: fun_eq_iff)
qed simp

lemma om_ok_insert [simp]: "om_ok m \<Longrightarrow> om_ok (om_insert k v m)"
  by (simp add: om_insert_def)

lemma om_find_insert: "om_ok m \<Longrightarrow> om_find (om_insert k v m) = (if om_find m k = None then (om_find m)(k \<mapsto> v) else om_find m)"
  by (simp add: om_insert_def om_find_put)

lemma om_ok_distinct: "om_ok m \<Longrightarrow> distinct (om_keys m)"
  by (simp add: om_ok_def strict_sorted_iff)

lemma om_find_iff: "om_ok m \<Longrightarrow> om_find m k = Some v \<longleftrightarrow> (k, v) \<in> set m"
  by (simp add: om_ok_distinct)

text \<open>The contract of a dictionary, and what a loop that fills one leaves in it.\<close>

locale dictionary =
  fixes find :: "'m \<Rightarrow> 'k \<Rightarrow> 'v option" and put :: "'k \<Rightarrow> 'v \<Rightarrow> 'm \<Rightarrow> 'm" and ok :: "'m \<Rightarrow> bool"
  assumes put_ok: "ok m \<Longrightarrow> ok (put k v m)"
    and find_put: "ok m \<Longrightarrow> find (put k v m) = (find m)(k \<mapsto> v)"
begin

lemma fold_put_ok: "ok m \<Longrightarrow> ok (fold (\<lambda>(k, v). put k v) kvs m)"
  by (induction kvs arbitrary: m) (auto simp: put_ok)

lemma find_fold_put:
  "ok m \<Longrightarrow> find (fold (\<lambda>(k, v). put k v) kvs m) = find m ++ map_of (rev kvs)"
proof (induction kvs arbitrary: m)
  case (Cons kv kvs)
  then show ?case by (cases kv) (auto simp: put_ok find_put map_add_def fun_eq_iff split: option.splits)
qed simp

end

interpretation om: dictionary map_of om_put om_ok
  by unfold_locales (simp_all add: om_find_put)

end
