(* ===== verification/Trace_Model.thy ===== *)
theory Trace_Model
  imports Events Ordered_Maps
begin

text \<open>
  \<^verbatim>\<open>src/lib/Core/Trace.h\<close> and \<^verbatim>\<open>Trace.cpp\<close>: the record of one execution. Events live in the event heap and a
  trace holds references; LLVM constants are references too. What the code reads of an
  instruction (the name of its function, its line in the assembly file and its line in the
  source) are arguments. The stream \<open>ss\<close>, the field \<open>traceType\<close> and the map \<open>symbolicMap\<close>, which no operation
  below touches, are left out.
\<close>

section \<open>The record\<close>

record lock_pair =
  lp_threadId :: uint
  lp_mutex :: string
  lp_lockEvent :: event_ref
  lp_unlockEvent :: "event_ref option"

record wait_lock =
  wl_wait :: event_ref
  wl_lock_by_wait :: event_ref

type_synonym events_by_name = "(string, event_ref list) ordered_map"
type_synonym const_ref = nat

record trace =
  tr_Id :: uint
  tr_nextEventId :: uint
  tr_eventList :: "event_ref list option list"
  tr_abstract :: "string list"
  tr_path :: "event_ref list"
  tr_isUntested :: bool
  tr_storeSymbolicExpr :: "expr list"
  tr_taintExpr :: "expr list"
  tr_rwSymbolicExpr :: "expr list"
  tr_brSymbolicExpr :: "expr list"
  tr_assertSymbolicExpr :: "expr list"
  tr_kQueryExpr :: "expr list"
  tr_usefulkQueryExpr :: "expr list"
  tr_brRelatedSymbolicExpr :: "string ordered_set list"
  tr_assertRelatedSymbolicExpr :: "string ordered_set list"
  tr_RelatedSymbolicExpr :: "string ordered_set"
  tr_varRelatedSymbolicExpr :: "(string, string ordered_set) ordered_map"
  tr_varThread :: "(string, int) ordered_map"
  tr_rwEvent :: "event_ref list"
  tr_brEvent :: "event_ref list"
  tr_assertEvent :: "event_ref list"
  tr_initTaintSymbolicExpr :: "string ordered_set"
  tr_taintSymbolicExpr :: "string ordered_set"
  tr_unTaintSymbolicExpr :: "string ordered_set"
  tr_potentialTaintSymbolicExpr :: "string ordered_set"
  tr_DTAMSerial :: "string ordered_set"
  tr_DTAMParallel :: "string ordered_set"
  tr_DTAMhybrid :: "string ordered_set"
  tr_PTS :: "string list"
  tr_taintPTS :: "string list"
  tr_noTaintPTS :: "string list"
  tr_taintMap :: "string ordered_set"
  tr_DTAMSerialMap :: "string ordered_set"
  tr_DTAMParallelMap :: "string ordered_set"
  tr_DTAMhybridMap :: "string ordered_set"
  tr_createThreadPoint :: "(event_ref, u64) ordered_map"
  tr_joinThreadPoint :: "(event_ref, u64) ordered_map"
  tr_allReadSet :: events_by_name
  tr_allWriteSet :: events_by_name
  tr_readSet :: events_by_name
  tr_writeSet :: events_by_name
  tr_usefulReadSet :: events_by_name
  tr_usefulWriteSet :: events_by_name
  tr_all_lock_unlock :: "(string, lock_pair list) ordered_map"
  tr_all_wait :: "(string, wait_lock list) ordered_map"
  tr_all_signal :: events_by_name
  tr_all_barrier :: events_by_name
  tr_global_variable_initializer :: "(string, const_ref) ordered_map"
  tr_useful_global_variable_initializer :: "(string, const_ref) ordered_map"
  tr_global_variable_final :: "(string, const_ref) ordered_map"
  tr_printf_variable_value :: "(string, const_ref) ordered_map"

definition new_Trace :: trace where
  "new_Trace =
     \<lparr>tr_Id = 0, tr_nextEventId = 0, tr_eventList = replicate 20 None, tr_abstract = [], tr_path = [],
      tr_isUntested = True, tr_storeSymbolicExpr = [], tr_taintExpr = [], tr_rwSymbolicExpr = [], tr_brSymbolicExpr = [],
      tr_assertSymbolicExpr = [], tr_kQueryExpr = [], tr_usefulkQueryExpr = [], tr_brRelatedSymbolicExpr = [],
      tr_assertRelatedSymbolicExpr = [], tr_RelatedSymbolicExpr = [], tr_varRelatedSymbolicExpr = [],
      tr_varThread = [], tr_rwEvent = [], tr_brEvent = [], tr_assertEvent = [],
      tr_initTaintSymbolicExpr = [], tr_taintSymbolicExpr = [], tr_unTaintSymbolicExpr = [],
      tr_potentialTaintSymbolicExpr = [], tr_DTAMSerial = [], tr_DTAMParallel = [], tr_DTAMhybrid = [],
      tr_PTS = [], tr_taintPTS = [], tr_noTaintPTS = [], tr_taintMap = [], tr_DTAMSerialMap = [], tr_DTAMParallelMap = [], tr_DTAMhybridMap = [],
      tr_createThreadPoint = [], tr_joinThreadPoint = [], tr_allReadSet = [], tr_allWriteSet = [],
      tr_readSet = [], tr_writeSet = [], tr_usefulReadSet = [], tr_usefulWriteSet = [],
      tr_all_lock_unlock = [], tr_all_wait = [], tr_all_signal = [], tr_all_barrier = [],
      tr_global_variable_initializer = [], tr_useful_global_variable_initializer = [],
      tr_global_variable_final = [], tr_printf_variable_value = []\<rparr>"


section \<open>Recording\<close>

text \<open>Doubling an empty vector would never end.\<close>

function grow :: "nat \<Rightarrow> 'a option list \<Rightarrow> 'a option list outcome" where
  "grow n xs =
     (if n < length xs then Inr xs
      else if xs = [] then Inl (Undefined ''endless loop'')
      else grow n (xs @ replicate (length xs) None))"
  by pat_completeness auto
termination
proof (relation "measure (\<lambda>(n, xs). n + 1 - length xs)")
  fix n :: nat and xs :: "'a option list"
  assume "\<not> n < length xs" "xs \<noteq> []"
  then have "0 < length xs" "length xs \<le> n" by simp_all
  then show "((n, xs @ replicate (length xs) None), (n, xs)) \<in> measure (\<lambda>(n, xs). n + 1 - length xs)"
    using diff_less_mono2 [of "length xs" "length xs + length xs" "n + 1"] by (simp del: length_greater_0_conv)
qed simp

declare grow.simps [simp del]

definition insertEvent :: "event_ref \<Rightarrow> uint \<Rightarrow> event_heap \<Rightarrow> trace \<Rightarrow> (event_heap \<times> trace) outcome" where
  "insertEvent e threadId h tr =
     bind_outcome (grow (unat threadId) (tr_eventList tr))
       (\<lambda>evs. let es = (case evs ! unat threadId of None \<Rightarrow> [] | Some es \<Rightarrow> es) @ [e]
              in Inr (h(e := (h e)\<lparr>ev_threadEventId := of_nat (length es)\<rparr>),
                      tr\<lparr>tr_eventList := evs[unat threadId := Some es]\<rparr>))"

text \<open>The text of an \<open>int\<close>.\<close>

definition int_text :: "int \<Rightarrow> string" where
  "int_text i = (if i < 0 then CHR ''-'' # dec_of_nat (nat (- i)) else dec_of_nat (nat i))"

definition globalVarName :: "u64 \<Rightarrow> string" where
  "globalVarName address = CHR ''G'' # dec_of_nat (unat address)"

definition createEvent_global ::
  "uint \<Rightarrow> uint \<Rightarrow> kinst \<Rightarrow> u64 \<Rightarrow> bool \<Rightarrow> int \<Rightarrow> event_type \<Rightarrow> trace \<Rightarrow> event \<times> trace" where
  "createEvent_global junk threadId inst address isLoad time eventType tr =
     (let var = globalVarName address;
          full = var @ (if isLoad then ''L'' else ''S'') @ int_text time
      in (Event junk threadId (tr_nextEventId tr) (CHR ''E'' # uint64toString (ucast (tr_nextEventId tr))) inst var full eventType,
          tr\<lparr>tr_nextEventId := tr_nextEventId tr + 1\<rparr>))"

definition createEvent :: "uint \<Rightarrow> uint \<Rightarrow> kinst \<Rightarrow> event_type \<Rightarrow> trace \<Rightarrow> event \<times> trace" where
  "createEvent junk threadId inst eventType tr =
     (Event junk threadId (tr_nextEventId tr) (CHR ''E'' # uint64toString (ucast (tr_nextEventId tr))) inst [] [] eventType,
      tr\<lparr>tr_nextEventId := tr_nextEventId tr + 1\<rparr>)"

definition insertThreadCreateOrJoin :: "event_ref \<times> u64 \<Rightarrow> bool \<Rightarrow> trace \<Rightarrow> trace" where
  "insertThreadCreateOrJoin item isThreadCreate tr =
     (if isThreadCreate
      then tr\<lparr>tr_createThreadPoint := om_insert (fst item) (snd item) (tr_createThreadPoint tr)\<rparr>
      else tr\<lparr>tr_joinThreadPoint := om_insert (fst item) (snd item) (tr_joinThreadPoint tr)\<rparr>)"

text \<open>Appending to the vector of a key, which is created when it is missing.\<close>

definition append_to :: "'k :: linorder \<Rightarrow> 'a \<Rightarrow> ('k, 'a list) ordered_map \<Rightarrow> ('k, 'a list) ordered_map" where
  "append_to k x m = (case om_find m k of None \<Rightarrow> om_insert k [x] m | Some xs \<Rightarrow> om_put k (xs @ [x]) m)"

definition insertReadSet :: "string \<Rightarrow> event_ref \<Rightarrow> trace \<Rightarrow> trace" where
  "insertReadSet name item tr = tr\<lparr>tr_readSet := append_to name item (tr_readSet tr)\<rparr>"

definition insertWriteSet :: "string \<Rightarrow> event_ref \<Rightarrow> trace \<Rightarrow> trace" where
  "insertWriteSet name item tr = tr\<lparr>tr_writeSet := append_to name item (tr_writeSet tr)\<rparr>"

definition insertWait :: "string \<Rightarrow> event_ref \<Rightarrow> event_ref \<Rightarrow> trace \<Rightarrow> trace" where
  "insertWait condName wait associatedLock tr =
     tr\<lparr>tr_all_wait := append_to condName \<lparr>wl_wait = wait, wl_lock_by_wait = associatedLock\<rparr> (tr_all_wait tr)\<rparr>"

definition insertSignal :: "string \<Rightarrow> event_ref \<Rightarrow> trace \<Rightarrow> trace" where
  "insertSignal condName e tr = tr\<lparr>tr_all_signal := append_to condName e (tr_all_signal tr)\<rparr>"

definition insertBarrierOperation :: "string \<Rightarrow> event_ref \<Rightarrow> trace \<Rightarrow> trace" where
  "insertBarrierOperation name e tr = tr\<lparr>tr_all_barrier := append_to name e (tr_all_barrier tr)\<rparr>"

text \<open>
  An unlock completes the last pair of its thread; without one the null pointer is read. An
  unlock of a mutex that was never locked is ignored, and so is a second unlock.
\<close>

definition close_pair :: "uint \<Rightarrow> event_ref \<Rightarrow> lock_pair list \<Rightarrow> lock_pair list outcome" where
  "close_pair threadId e ps =
     (case take_first (\<lambda>i. lp_threadId (ps ! i) = threadId) (rev [0..<length ps]) of
        (None, _) \<Rightarrow> Inl (Undefined ''lp->unlockEvent'')
      | (Some i, _) \<Rightarrow>
          if Option.is_none (lp_unlockEvent (ps ! i)) then Inr (ps[i := (ps ! i)\<lparr>lp_unlockEvent := Some e\<rparr>])
          else Inr ps)"

definition insertLockOrUnlock :: "uint \<Rightarrow> string \<Rightarrow> event_ref \<Rightarrow> bool \<Rightarrow> trace \<Rightarrow> trace outcome" where
  "insertLockOrUnlock threadId mutex e isLock tr =
     (let lp = \<lparr>lp_threadId = threadId, lp_mutex = mutex, lp_lockEvent = e, lp_unlockEvent = None\<rparr>
      in case om_find (tr_all_lock_unlock tr) mutex of
           Some ps \<Rightarrow>
             if isLock then Inr (tr\<lparr>tr_all_lock_unlock := om_put mutex (ps @ [lp]) (tr_all_lock_unlock tr)\<rparr>)
             else bind_outcome (close_pair threadId e ps)
                    (\<lambda>ps. Inr (tr\<lparr>tr_all_lock_unlock := om_put mutex ps (tr_all_lock_unlock tr)\<rparr>))
         | None \<Rightarrow>
             if isLock then Inr (tr\<lparr>tr_all_lock_unlock := om_insert mutex [lp] (tr_all_lock_unlock tr)\<rparr>)
             else Inr tr)"

definition insertGlobalVariableInitializer :: "string \<Rightarrow> const_ref \<Rightarrow> trace \<Rightarrow> trace" where
  "insertGlobalVariableInitializer name c tr =
     tr\<lparr>tr_global_variable_initializer := om_insert name c (tr_global_variable_initializer tr)\<rparr>"

definition insertPrintfParam :: "string \<Rightarrow> const_ref \<Rightarrow> trace \<Rightarrow> trace" where
  "insertPrintfParam name c tr = tr\<lparr>tr_printf_variable_value := om_insert name c (tr_printf_variable_value tr)\<rparr>"

definition insertGlobalVariableLast :: "string \<Rightarrow> const_ref \<Rightarrow> trace \<Rightarrow> trace" where
  "insertGlobalVariableLast name c tr = tr\<lparr>tr_global_variable_final := om_insert name c (tr_global_variable_final tr)\<rparr>"

definition insertPath :: "event_ref \<Rightarrow> trace \<Rightarrow> trace" where
  "insertPath e tr = tr\<lparr>tr_path := tr_path tr @ [e]\<rparr>"


section \<open>The abstract of a trace\<close>

text \<open>
  One line per thread: the name of the function of its first event, and the outcomes of its
  conditional branches. A vector that exists and is empty makes \<open>at(0)\<close> throw.
\<close>

definition thread_abstract :: "(kinst \<Rightarrow> string) \<Rightarrow> event_heap \<Rightarrow> event_ref list \<Rightarrow> string outcome" where
  "thread_abstract functionName h es =
     (case es of
        [] \<Rightarrow> Inl (Out_Of_Range ''thread->at(0)'')
      | e # _ \<Rightarrow> Inr (functionName (ev_inst (h e)) @ '':'' @
                   concat (map (\<lambda>e. if ev_isConditionIns (h e) then (if ev_condition (h e) then ''1'' else ''0'') else []) es)))"

definition createAbstract :: "(kinst \<Rightarrow> string) \<Rightarrow> event_heap \<Rightarrow> trace \<Rightarrow> trace outcome" where
  "createAbstract functionName h tr =
     fold_outcome
       (\<lambda>thread tr. case thread of
          None \<Rightarrow> Inr tr
        | Some es \<Rightarrow> bind_outcome (thread_abstract functionName h es)
                      (\<lambda>s. Inr (tr\<lparr>tr_abstract := tr_abstract tr @ [s]\<rparr>)))
       (tr_eventList tr) tr"

definition ensureAbstract :: "(kinst \<Rightarrow> string) \<Rightarrow> event_heap \<Rightarrow> trace \<Rightarrow> trace outcome" where
  "ensureAbstract functionName h tr = (if tr_abstract tr = [] then createAbstract functionName h tr else Inr tr)"

text \<open>The two loops of \<open>isEqual\<close>: every line claims the first equal line that is not taken yet.\<close>

definition free_line :: "string list \<Rightarrow> bool list \<Rightarrow> string \<Rightarrow> nat option" where
  "free_line other flags line = List.find (\<lambda>j. \<not> flags ! j \<and> line = other ! j) [0..<length other]"

fun match_lines :: "string list \<Rightarrow> string list \<Rightarrow> bool list \<Rightarrow> bool" where
  "match_lines [] other flags = True"
| "match_lines (line # self) other flags =
     (case free_line other flags line of None \<Rightarrow> False | Some j \<Rightarrow> match_lines self other (flags[j := True]))"

definition same_abstract :: "string list \<Rightarrow> string list \<Rightarrow> bool" where
  "same_abstract self other \<longleftrightarrow>
     length self = length other \<and> match_lines self other (replicate (length other) False)"

text \<open>Both traces are objects: they may be the same one.\<close>

type_synonym trace_ref = nat
type_synonym trace_heap = "trace_ref \<Rightarrow> trace"

definition isEqual ::
  "(kinst \<Rightarrow> string) \<Rightarrow> event_heap \<Rightarrow> trace_ref \<Rightarrow> trace_ref \<Rightarrow> trace_heap \<Rightarrow> (trace_heap \<times> bool) outcome" where
  "isEqual functionName h self other th =
     bind_outcome (ensureAbstract functionName h (th self)) (\<lambda>tr. let th = th(self := tr) in
     bind_outcome (ensureAbstract functionName h (th other)) (\<lambda>tr. let th = th(other := tr) in
     Inr (th, same_abstract (tr_abstract (th self)) (tr_abstract (th other)))))"


section \<open>Finding an access by its name\<close>

text \<open>
  The scan at the head of \<open>getAssemblyLine\<close>, \<open>getLine\<close>, \<open>getEvent\<close> and of \<^verbatim>\<open>DealWithSymbolicExpr::getVarName\<close>: the name up to
  the first \<open>S\<close> or \<open>L\<close>, and that letter. \<open>std::string::at\<close> throws when there is none.
\<close>

fun split_name :: "string \<Rightarrow> (string \<times> char) outcome" where
  "split_name [] = Inl (Out_Of_Range ''name.at(i)'')"
| "split_name (c # cs) =
     (if c = CHR ''S'' \<or> c = CHR ''L'' then Inr ([], c)
      else bind_outcome (split_name cs) (\<lambda>(var, sep). Inr (c # var, sep)))"

definition find_access :: "string \<Rightarrow> string \<Rightarrow> event_heap \<Rightarrow> trace \<Rightarrow> event_ref outcome" where
  "find_access caller name h tr =
     bind_outcome (split_name name) (\<lambda>(var, sep).
       bind_outcome
         (if sep = CHR ''S''
          then (case om_find (tr_allWriteSet tr) var of
                  None \<Rightarrow> Inl (Assertion (''allWriteSet '' @ caller @ '' can not find'')) | Some es \<Rightarrow> Inr es)
          else (case om_find (tr_allReadSet tr) var of
                  None \<Rightarrow> Inl (Assertion (''allReadSet '' @ caller @ '' can not find'')) | Some es \<Rightarrow> Inr es))
         (\<lambda>es. case List.find (\<lambda>e. ev_globalVarFullName (h e) = name) es of
                 None \<Rightarrow> Inl (Assertion (caller @ '' can not find'')) | Some e \<Rightarrow> Inr e))"

definition getAssemblyLine :: "(kinst \<Rightarrow> uint) \<Rightarrow> string \<Rightarrow> event_heap \<Rightarrow> trace \<Rightarrow> string outcome" where
  "getAssemblyLine assemblyLine name h tr =
     bind_outcome (find_access ''getAssemblyLine'' name h tr)
       (\<lambda>e. Inr (uint64toString (ucast (assemblyLine (ev_inst (h e))))))"

definition getLine :: "(kinst \<Rightarrow> uint) \<Rightarrow> string \<Rightarrow> event_heap \<Rightarrow> trace \<Rightarrow> string outcome" where
  "getLine line name h tr =
     bind_outcome (find_access ''getLine'' name h tr) (\<lambda>e. Inr (uint64toString (ucast (line (ev_inst (h e))))))"

definition getEvent :: "string \<Rightarrow> event_heap \<Rightarrow> trace \<Rightarrow> event_ref outcome" where
  "getEvent name h tr = find_access ''getEvent'' name h tr"


section \<open>Lemmas\<close>

subsection \<open>Comparing traces\<close>

definition free_lines :: "string list \<Rightarrow> bool list \<Rightarrow> string list" where
  "free_lines other flags = map ((!) other) (filter (\<lambda>j. \<not> flags ! j) [0..<length other])"

lemma free_line_None_iff: "free_line other flags line = None \<longleftrightarrow> line \<notin> set (free_lines other flags)"
  by (auto simp: free_line_def free_lines_def find_None_iff)

lemma free_line_Some:
  assumes "free_line other flags line = Some j" and "length flags = length other"
  shows "mset (free_lines other flags) = add_mset line (mset (free_lines other (flags[j := True])))"
proof -
  from assms have j: "j < length other" "\<not> flags ! j" "line = other ! j"
    by (auto simp: free_line_def find_Some_iff)
  let ?free = "\<lambda>flags. filter (\<lambda>j. \<not> flags ! j) [0..<length other]"
  have "?free (flags[j := True]) = remove1 j (?free flags)"
    using assms(2) j(1)
    by (subst distinct_remove1_removeAll)
       (auto simp: removeAll_filter_not_eq nth_list_update intro!: filter_cong split: if_splits)
  moreover have "j \<in> set (?free flags)" using j by simp
  ultimately have "mset (?free flags) = add_mset j (mset (?free (flags[j := True])))" by simp
  then show ?thesis using j by (simp add: free_lines_def)
qed

lemma match_lines_iff:
  "length flags = length other \<Longrightarrow> match_lines self other flags \<longleftrightarrow> mset self \<subseteq># mset (free_lines other flags)"
proof (induction self arbitrary: flags)
  case (Cons line self)
  show ?case
  proof (cases "free_line other flags line")
    case None
    then have "line \<notin># mset (free_lines other flags)" by (simp add: free_line_None_iff)
    then have "\<not> mset (line # self) \<subseteq># mset (free_lines other flags)"
      by (metis list.set_intros(1) mset_subset_eqD set_mset_mset)
    with None show ?thesis by simp
  next
    case (Some j)
    with Cons free_line_Some [OF Some Cons.prems] show ?thesis by simp
  qed
qed simp

lemma same_abstract_iff: "same_abstract self other \<longleftrightarrow> mset self = mset other"
proof -
  have "free_lines other (replicate (length other) False) = other"
  proof -
    have "filter (\<lambda>j. \<not> replicate (length other) False ! j) [0..<length other] = [0..<length other]"
      by (rule filter_True) simp
    then show ?thesis by (simp add: free_lines_def map_nth)
  qed
  then have "same_abstract self other \<longleftrightarrow> length self = length other \<and> mset self \<subseteq># mset other"
    by (simp add: same_abstract_def match_lines_iff)
  also have "\<dots> \<longleftrightarrow> mset self = mset other"
  proof
    assume *: "length self = length other \<and> mset self \<subseteq># mset other"
    show "mset self = mset other"
    proof (rule ccontr)
      assume "mset self \<noteq> mset other"
      with * have "mset self \<subset># mset other" by (simp add: subset_mset.less_le)
      then have "length self < length other" using mset_subset_size by fastforce
      with * show False by simp
    qed
  qed (auto dest: mset_eq_length)
  finally show ?thesis .
qed

text \<open>The threads of a trace, and the line of one of them.\<close>

definition threads_of :: "trace \<Rightarrow> event_ref list list" where
  "threads_of tr = concat (map (\<lambda>t. case t of None \<Rightarrow> [] | Some es \<Rightarrow> [es]) (tr_eventList tr))"

definition branch_line :: "(kinst \<Rightarrow> string) \<Rightarrow> event_heap \<Rightarrow> event_ref list \<Rightarrow> string" where
  "branch_line functionName h es =
     functionName (ev_inst (h (hd es))) @ '':'' @
     map (\<lambda>e. if ev_condition (h e) then CHR ''1'' else CHR ''0'') (filter (\<lambda>e. ev_isConditionIns (h e)) es)"

lemma thread_abstract_line: "es \<noteq> [] \<Longrightarrow> thread_abstract functionName h es = Inr (branch_line functionName h es)"
proof -
  have "concat (map (\<lambda>e. if ev_isConditionIns (h e) then (if ev_condition (h e) then ''1'' else ''0'') else []) es) =
    map (\<lambda>e. if ev_condition (h e) then CHR ''1'' else CHR ''0'') (filter (\<lambda>e. ev_isConditionIns (h e)) es)" for es
    by (induction es) auto
  moreover assume "es \<noteq> []"
  ultimately show ?thesis by (cases es) (simp_all add: thread_abstract_def branch_line_def)
qed

definition abstract_lines :: "(kinst \<Rightarrow> string) \<Rightarrow> event_heap \<Rightarrow> trace \<Rightarrow> string list" where
  "abstract_lines functionName h tr = map (branch_line functionName h) (threads_of tr)"

lemma createAbstract_lines:
  assumes "Some [] \<notin> set (tr_eventList tr)"
  shows "createAbstract functionName h tr =
    Inr (tr\<lparr>tr_abstract := tr_abstract tr @ abstract_lines functionName h tr\<rparr>)"
proof -
  let ?step = "\<lambda>thread tr. case thread of None \<Rightarrow> Inr tr
     | Some es \<Rightarrow> bind_outcome (thread_abstract functionName h es) (\<lambda>s. Inr (tr\<lparr>tr_abstract := tr_abstract tr @ [s]\<rparr>))"
  have "fold_outcome ?step ts tr = Inr (tr\<lparr>tr_abstract := tr_abstract tr @ map (branch_line functionName h)
      (concat (map (\<lambda>t. case t of None \<Rightarrow> [] | Some es \<Rightarrow> [es]) ts))\<rparr>)" if "Some [] \<notin> set ts" for ts tr
    using that
  proof (induction ts arbitrary: tr)
    case (Cons t ts)
    then show ?case by (cases t) (auto simp: thread_abstract_line)
  qed simp
  with assms show ?thesis by (simp add: createAbstract_def abstract_lines_def threads_of_def)
qed

text \<open>A trace whose abstract is either not made yet or the one of its events.\<close>

definition abstract_ok :: "(kinst \<Rightarrow> string) \<Rightarrow> event_heap \<Rightarrow> trace \<Rightarrow> bool" where
  "abstract_ok functionName h tr \<longleftrightarrow>
     Some [] \<notin> set (tr_eventList tr) \<and> (tr_abstract tr = [] \<or> tr_abstract tr = abstract_lines functionName h tr)"

lemma ensureAbstract_lines:
  "abstract_ok functionName h tr \<Longrightarrow>
     ensureAbstract functionName h tr = Inr (tr\<lparr>tr_abstract := abstract_lines functionName h tr\<rparr>)"
  by (auto simp: ensureAbstract_def abstract_ok_def createAbstract_lines)

lemma abstract_lines_update [simp]:
  "abstract_lines functionName h (tr\<lparr>tr_abstract := x\<rparr>) = abstract_lines functionName h tr"
  "abstract_lines functionName h (tr\<lparr>tr_isUntested := b\<rparr>) = abstract_lines functionName h tr"
  by (simp_all add: abstract_lines_def threads_of_def)

lemma abstract_ok_update [simp]:
  "abstract_ok functionName h tr \<Longrightarrow> abstract_ok functionName h (tr\<lparr>tr_abstract := abstract_lines functionName h tr\<rparr>)"
  "abstract_ok functionName h tr \<Longrightarrow> abstract_ok functionName h (tr\<lparr>tr_isUntested := b\<rparr>)"
  by (auto simp: abstract_ok_def)

definition with_abstracts :: "(kinst \<Rightarrow> string) \<Rightarrow> event_heap \<Rightarrow> trace_ref set \<Rightarrow> trace_heap \<Rightarrow> trace_heap" where
  "with_abstracts functionName h R th =
     (\<lambda>r. if r \<in> R then (th r)\<lparr>tr_abstract := abstract_lines functionName h (th r)\<rparr> else th r)"

lemma isEqual_runs:
  assumes "abstract_ok functionName h (th self)" and "abstract_ok functionName h (th other)"
  shows "isEqual functionName h self other th =
    Inr (with_abstracts functionName h {self, other} th,
         mset (abstract_lines functionName h (th self)) = mset (abstract_lines functionName h (th other)))"
  using assms
  by (cases "self = other")
     (auto simp: isEqual_def ensureAbstract_lines with_abstracts_def same_abstract_iff fun_eq_iff Let_def)


subsection \<open>Names\<close>

lemma split_name_append:
  "set var \<inter> {CHR ''S'', CHR ''L''} = {} \<Longrightarrow> sep \<in> {CHR ''S'', CHR ''L''} \<Longrightarrow>
     split_name (var @ sep # rest) = Inr (var, sep)"
  by (induction var) auto

lemma split_name_iff:
  "split_name name = Inr (var, sep) \<longleftrightarrow>
     set var \<inter> {CHR ''S'', CHR ''L''} = {} \<and> sep \<in> {CHR ''S'', CHR ''L''} \<and> (\<exists>rest. name = var @ sep # rest)"
proof (induction name arbitrary: var)
  case (Cons c cs)
  then show ?case by (cases var) (auto simp: outcome_simps split: if_splits)
qed auto

lemma globalVarName_letters: "set (globalVarName a) \<inter> {CHR ''S'', CHR ''L''} = {}"
  using dec_of_nat_digits letter_not_digit by (fastforce simp: globalVarName_def)

lemma globalVarName_inject [simp]: "globalVarName a = globalVarName b \<longleftrightarrow> a = b"
  by (simp add: globalVarName_def dec_of_nat_inject word_unat_eq_iff)

lemma int_text_inject [simp]: "int_text i = int_text j \<longleftrightarrow> i = j"
proof -
  have minus: "CHR ''-'' # s \<noteq> dec_of_nat n" for s n
  proof
    assume "CHR ''-'' # s = dec_of_nat n"
    then have "CHR ''-'' \<in> set (dec_of_nat n)" by (metis list.set_intros(1))
    then show False using dec_of_nat_digits [of "CHR ''-''" n] by (simp add: is_digit_def)
  qed
  show ?thesis using minus [symmetric] minus
    by (auto simp: int_text_def dec_of_nat_inject)
qed

abbreviation access_name :: "u64 \<Rightarrow> bool \<Rightarrow> int \<Rightarrow> string" where
  "access_name address isLoad time \<equiv> globalVarName address @ (if isLoad then ''L'' else ''S'') @ int_text time"

lemma split_access_name:
  "split_name (access_name a l t) = Inr (globalVarName a, if l then CHR ''L'' else CHR ''S'')"
  using split_name_append [OF globalVarName_letters] by simp

lemma access_name_inject: "access_name a l t = access_name a' l' t' \<longleftrightarrow> a = a' \<and> l = l' \<and> t = t'"
proof
  assume eq: "access_name a l t = access_name a' l' t'"
  from arg_cong [OF eq, of split_name] have "globalVarName a = globalVarName a'" "l = l'"
    unfolding split_access_name by (simp_all split: if_splits)
  with eq show "a = a' \<and> l = l' \<and> t = t'" by simp
qed simp

subsection \<open>Locking sessions\<close>

text \<open>The pairs of a mutex after the given sessions of a thread, its lock event and its unlock event.\<close>

definition record_session ::
  "string \<Rightarrow> uint \<times> event_ref \<times> event_ref \<Rightarrow> trace \<Rightarrow> trace outcome" where
  "record_session mutex s tr =
     (case s of (t, e, e') \<Rightarrow>
        bind_outcome (insertLockOrUnlock t mutex e True tr) (insertLockOrUnlock t mutex e' False))"

definition session_pair :: "string \<Rightarrow> uint \<times> event_ref \<times> event_ref \<Rightarrow> lock_pair" where
  "session_pair mutex s =
     (case s of (t, e, e') \<Rightarrow> \<lparr>lp_threadId = t, lp_mutex = mutex, lp_lockEvent = e, lp_unlockEvent = Some e'\<rparr>)"

lemma close_pair_last:
  assumes "lp_threadId p = t" and "lp_unlockEvent p = None"
  shows "close_pair t e (ps @ [p]) = Inr (ps @ [p\<lparr>lp_unlockEvent := Some e\<rparr>])"
  using assms by (simp add: close_pair_def)

definition pairs_of :: "string \<Rightarrow> trace \<Rightarrow> lock_pair list" where
  "pairs_of mutex tr = (case om_find (tr_all_lock_unlock tr) mutex of None \<Rightarrow> [] | Some ps \<Rightarrow> ps)"

lemma record_session_runs:
  assumes "om_ok (tr_all_lock_unlock tr)"
  shows "\<exists>tr'. record_session mutex s tr = Inr tr' \<and> om_ok (tr_all_lock_unlock tr') \<and>
    pairs_of mutex tr' = pairs_of mutex tr @ [session_pair mutex s] \<and>
    (\<forall>m. m \<noteq> mutex \<longrightarrow> pairs_of m tr' = pairs_of m tr)"
  using assms close_pair_last [of "\<lparr>lp_threadId = _, lp_mutex = _, lp_lockEvent = _, lp_unlockEvent = None\<rparr>" _ _ "[]"]
  by (cases s; cases "om_find (tr_all_lock_unlock tr) mutex")
     (auto simp: record_session_def insertLockOrUnlock_def om_find_put om_find_insert close_pair_last pairs_of_def
        session_pair_def Let_def)


lemma record_sessions_run:
  assumes "om_ok (tr_all_lock_unlock tr)"
  shows "\<exists>tr'. fold_outcome (record_session mutex) ss tr = Inr tr' \<and> om_ok (tr_all_lock_unlock tr') \<and>
    pairs_of mutex tr' = pairs_of mutex tr @ map (session_pair mutex) ss \<and>
    (\<forall>m. m \<noteq> mutex \<longrightarrow> pairs_of m tr' = pairs_of m tr)"
  using assms
proof (induction ss arbitrary: tr)
  case (Cons s ss)
  from record_session_runs [OF Cons.prems, of mutex s] obtain tr1 where
    "record_session mutex s tr = Inr tr1" "om_ok (tr_all_lock_unlock tr1)"
    "pairs_of mutex tr1 = pairs_of mutex tr @ [session_pair mutex s]"
    "\<forall>m. m \<noteq> mutex \<longrightarrow> pairs_of m tr1 = pairs_of m tr" by blast
  with Cons.IH [of tr1] show ?case by auto
qed simp

subsection \<open>The events of a thread\<close>

lemma grow_runs:
  "xs \<noteq> [] \<Longrightarrow> \<exists>k. grow n xs = Inr (xs @ replicate k None) \<and> n < length xs + k"
proof (induction n xs rule: grow.induct)
  case (1 n xs)
  show ?case
  proof (cases "n < length xs")
    case True
    then show ?thesis by (intro exI [of _ 0]) (simp add: grow.simps [of n xs])
  next
    case False
    with 1 obtain k where "grow n (xs @ replicate (length xs) None) = Inr ((xs @ replicate (length xs) None) @ replicate k None)"
      "n < length (xs @ replicate (length xs) None) + k" by blast
    with False 1 show ?thesis
      by (intro exI [of _ "length xs + k"]) (simp add: grow.simps [of n xs] replicate_add)
  qed
qed

definition events_of_thread :: "uint \<Rightarrow> trace \<Rightarrow> event_ref list" where
  "events_of_thread t tr =
     (if unat t < length (tr_eventList tr) then (case tr_eventList tr ! unat t of None \<Rightarrow> [] | Some es \<Rightarrow> es) else [])"

lemma new_Trace_events [simp]: "tr_eventList new_Trace \<noteq> []" "events_of_thread u new_Trace = []"
  by (simp_all add: new_Trace_def events_of_thread_def)

lemma insertEvent_runs:
  assumes "tr_eventList tr \<noteq> []"
  shows "\<exists>tr'. insertEvent e t h tr =
      Inr (h(e := (h e)\<lparr>ev_threadEventId := of_nat (length (events_of_thread t tr) + 1)\<rparr>), tr') \<and>
    tr_eventList tr' \<noteq> [] \<and>
    (\<forall>u. events_of_thread u tr' = events_of_thread u tr @ (if u = t then [e] else [])) \<and>
    (Some [] \<notin> set (tr_eventList tr) \<longrightarrow> Some [] \<notin> set (tr_eventList tr'))"
proof -
  from grow_runs [OF assms, of "unat t"] obtain k where
    k: "grow (unat t) (tr_eventList tr) = Inr (tr_eventList tr @ replicate k None)"
       "unat t < length (tr_eventList tr) + k" by blast
  let ?evs = "tr_eventList tr @ replicate k None"
  let ?old = "case ?evs ! unat t of None \<Rightarrow> [] | Some es \<Rightarrow> es"
  have old: "?old = events_of_thread t tr"
    using k(2) by (simp add: events_of_thread_def nth_append)
  have others: "unat u = unat v \<longleftrightarrow> u = v" for u v :: uint by (simp add: word_unat_eq_iff)
  have sub: "set (xs[i := v]) \<subseteq> insert v (set xs)" for xs :: "event_ref list option list" and i v
    by (rule set_update_subset_insert)
  show ?thesis
    using k old sub [of "?evs" "unat t" "Some (?old @ [e])"] assms
    by (auto simp: insertEvent_def events_of_thread_def Let_def nth_list_update nth_append others)
qed


section \<open>Properties\<close>

text \<open>
  (C14) Two traces compare equal exactly when the multisets of their threads' lines agree: threads may
  be matched in any order, each used once. The comparison always returns, also of a trace with itself.
\<close>

theorem isEqual_compares_threads:
  assumes "abstract_ok functionName h (th self)" and "abstract_ok functionName h (th other)"
  shows "\<exists>th'. isEqual functionName h self other th =
    Inr (th', mset (map (branch_line functionName h) (threads_of (th self))) =
              mset (map (branch_line functionName h) (threads_of (th other)))) \<and>
    abstract_ok functionName h (th' self) \<and> abstract_ok functionName h (th' other) \<and>
    (\<forall>r. r \<noteq> self \<and> r \<noteq> other \<longrightarrow> th' r = th r)"
  using assms isEqual_runs [OF assms] by (auto simp: with_abstracts_def abstract_lines_def [symmetric])

definition sample_event :: "kinst \<Rightarrow> bool \<Rightarrow> event" where
  "sample_event ki b = (Event 0 0 0 [] ki [] [] NORMAL)\<lparr>ev_isConditionIns := True, ev_condition := b\<rparr>"

theorem isEqual_compares_threads_witness:
  "\<exists>th'. isEqual (\<lambda>_. ''main'') (\<lambda>e. sample_event e (e = 1)) 0 1
     (\<lambda>r. new_Trace\<lparr>tr_eventList := if r = 0 then [Some [0], Some [1]] else [Some [1], None, Some [0]]\<rparr>) = Inr (th', True)"
  using isEqual_compares_threads [of "\<lambda>_. ''main''" "\<lambda>e. sample_event e (e = 1)"
    "\<lambda>r. new_Trace\<lparr>tr_eventList := if r = 0 then [Some [0], Some [1]] else [Some [1], None, Some [0]]\<rparr>" 0 1]
  by (auto simp: abstract_ok_def new_Trace_def threads_of_def branch_line_def sample_event_def add_mset_commute)

text \<open>
  (C29) The full name of a global access determines the access: its variable is read back by the scan
  for \<open>S\<close> or \<open>L\<close>, with the direction of the access, and two accesses have the same full name only when
  address, direction and time agree.
\<close>

theorem access_names_roundtrip:
  "ev_globalVarFullName (fst (createEvent_global j tid ki a isLoad t ty tr)) = full \<Longrightarrow>
   split_name full = Inr (ev_varName (fst (createEvent_global j tid ki a isLoad t ty tr)),
                          if isLoad then CHR ''L'' else CHR ''S'') \<and>
   (ev_globalVarFullName (fst (createEvent_global j' tid' ki' a' isLoad' t' ty' tr')) = full \<longleftrightarrow>
      a' = a \<and> isLoad' = isLoad \<and> t' = t)"
proof -
  assume "ev_globalVarFullName (fst (createEvent_global j tid ki a isLoad t ty tr)) = full"
  then have full: "full = access_name a isLoad t"
    by (auto simp: createEvent_global_def Event_def Let_def)
  have "ev_globalVarFullName (fst (createEvent_global j' tid' ki' a' isLoad' t' ty' tr')) = access_name a' isLoad' t'"
    "ev_varName (fst (createEvent_global j tid ki a isLoad t ty tr)) = globalVarName a"
    by (auto simp: createEvent_global_def Event_def Let_def)
  then show ?thesis unfolding full by (auto simp only: split_access_name access_name_inject)
qed

theorem access_names_roundtrip_witness:
  "split_name ''G42S-1'' = Inr (''G42'', CHR ''S'')"
  using access_names_roundtrip [of 0 0 0 42 False "-1" NORMAL new_Trace "''G42S-1''"]
  by (simp add: createEvent_global_def Event_def Let_def globalVarName_def int_text_def dec_of_nat.simps char_of_def)

text \<open>
  Recording the critical sections of a mutex, one after the other, leaves one complete pair per
  section in the order of the sections, and the pairs of every other mutex as they were.
\<close>

theorem lock_sessions_recorded:
  assumes "om_ok (tr_all_lock_unlock tr)"
  shows "\<exists>tr'. fold_outcome (record_session mutex) ss tr = Inr tr' \<and>
    pairs_of mutex tr' = pairs_of mutex tr @ map (session_pair mutex) ss \<and>
    (\<forall>m. m \<noteq> mutex \<longrightarrow> pairs_of m tr' = pairs_of m tr)"
  using record_sessions_run [OF assms] by blast

theorem lock_sessions_recorded_witness:
  "\<exists>tr'. fold_outcome (record_session ''m'') [(1, 10, 11), (2, 12, 13)] new_Trace = Inr tr' \<and>
     pairs_of ''m'' tr' = [session_pair ''m'' (1, 10, 11), session_pair ''m'' (2, 12, 13)]"
  using lock_sessions_recorded [of new_Trace "''m''" "[(1, 10, 11), (2, 12, 13)]"]
  by (auto simp: new_Trace_def pairs_of_def)

text \<open>
  Whatever the thread, inserting an event terminates, appends it to the events of that thread and of
  no other, and numbers it by its position there.
\<close>

theorem insertEvent_appends:
  assumes "tr_eventList tr \<noteq> []"
  shows "\<exists>h' tr'. insertEvent e t h tr = Inr (h', tr') \<and>
    ev_threadEventId (h' e) = of_nat (length (events_of_thread t tr') ) \<and>
    (\<forall>u. events_of_thread u tr' = events_of_thread u tr @ (if u = t then [e] else []))"
  using insertEvent_runs [OF assms, of e t h] by auto

theorem insertEvent_appends_witness:
  "\<exists>h' tr'. insertEvent 7 100 (\<lambda>_. sample_event 0 True) new_Trace = Inr (h', tr') \<and> events_of_thread 100 tr' = [7]"
  using insertEvent_appends [of new_Trace 7 100 "\<lambda>_. sample_event 0 True"] by auto

end
