(* ===== verification/Runtime_Data.thy ===== *)
theory Runtime_Data
  imports Trace_Model
begin

text \<open>
  \<^verbatim>\<open>src/lib/Core/RuntimeDataManager.cpp\<close>: the traces of all runs, the ones found to be new, and the prefixes still to
  be run. Traces and prefixes are objects: the manager holds references. A fresh reference is an
  argument of \<open>createNewTrace\<close>, since the allocator chooses it and \<open>testedTraceList\<close> is ordered by it. The costs
  measured with \<open>gettimeofday\<close> and the destructor's report are left out.
\<close>

type_synonym prefix_ref = nat

record runtime_data =
  rd_traceList :: "trace_ref list"
  rd_currentTrace :: "trace_ref option"
  rd_testedTraceList :: "trace_ref ordered_set"
  rd_scheduleSet :: "prefix_ref list"
  rd_DTAMSerial :: uint
  rd_DTAMParallel :: uint
  rd_DTAMhybrid :: uint
  rd_allDTAMSerial :: "uint list"
  rd_allDTAMParallel :: "uint list"
  rd_allDTAMhybrid :: "uint list"
  rd_allDTAMSerialMap :: "uint list"
  rd_allDTAMParallelMap :: "uint list"
  rd_allDTAMhybridMap :: "uint list"
  rd_DTAMSerialMap :: "string ordered_set"
  rd_DTAMParallelMap :: "string ordered_set"
  rd_DTAMhybridMap :: "string ordered_set"

definition new_RuntimeDataManager :: runtime_data where
  "new_RuntimeDataManager =
     \<lparr>rd_traceList = [], rd_currentTrace = None, rd_testedTraceList = [], rd_scheduleSet = [],
      rd_DTAMSerial = 0, rd_DTAMParallel = 0, rd_DTAMhybrid = 0,
      rd_allDTAMSerial = [], rd_allDTAMParallel = [], rd_allDTAMhybrid = [],
      rd_allDTAMSerialMap = [], rd_allDTAMParallelMap = [], rd_allDTAMhybridMap = [],
      rd_DTAMSerialMap = [], rd_DTAMParallelMap = [], rd_DTAMhybridMap = []\<rparr>"

definition createNewTrace ::
  "trace_ref \<Rightarrow> uint \<Rightarrow> trace_heap \<Rightarrow> runtime_data \<Rightarrow> trace_ref \<times> trace_heap \<times> runtime_data" where
  "createNewTrace fresh traceId th rd =
     (fresh, th(fresh := new_Trace\<lparr>tr_Id := traceId\<rparr>),
      rd\<lparr>rd_currentTrace := Some fresh, rd_traceList := rd_traceList rd @ [fresh]\<rparr>)"

definition getCurrentTrace :: "runtime_data \<Rightarrow> trace_ref option" where
  "getCurrentTrace rd = rd_currentTrace rd"

definition addScheduleSet :: "prefix_ref \<Rightarrow> runtime_data \<Rightarrow> runtime_data" where
  "addScheduleSet p rd = rd\<lparr>rd_scheduleSet := rd_scheduleSet rd @ [p]\<rparr>"

definition getNextPrefix :: "runtime_data \<Rightarrow> prefix_ref option \<times> runtime_data" where
  "getNextPrefix rd =
     (case rd_scheduleSet rd of
        [] \<Rightarrow> (None, rd)
      | p # ps \<Rightarrow> (Some p, rd\<lparr>rd_scheduleSet := ps\<rparr>))"

definition clearAllPrefix :: "runtime_data \<Rightarrow> runtime_data" where
  "clearAllPrefix rd = rd\<lparr>rd_scheduleSet := []\<rparr>"

text \<open>The search through \<open>testedTraceList\<close>, and what \<open>isCurrentTraceUntested\<close> does with its result.\<close>

fun find_equal ::
  "(kinst \<Rightarrow> string) \<Rightarrow> event_heap \<Rightarrow> trace_ref \<Rightarrow> trace_ref list \<Rightarrow> trace_heap \<Rightarrow> (trace_heap \<times> bool) outcome" where
  "find_equal functionName h self [] th = Inr (th, False)"
| "find_equal functionName h self (t # ts) th =
     bind_outcome (isEqual functionName h self t th)
       (\<lambda>(th, same). if same then Inr (th, True) else find_equal functionName h self ts th)"

definition isCurrentTraceUntested ::
  "(kinst \<Rightarrow> string) \<Rightarrow> event_heap \<Rightarrow> trace_heap \<Rightarrow> runtime_data \<Rightarrow> (bool \<times> trace_heap \<times> runtime_data) outcome" where
  "isCurrentTraceUntested functionName h th rd =
     (case rd_currentTrace rd of
        None \<Rightarrow> Inl (Undefined ''currentTrace->isUntested'')
      | Some cur \<Rightarrow>
          bind_outcome (find_equal functionName h cur (rd_testedTraceList rd) th)
            (\<lambda>(th, found). let result = \<not> found in
               Inr (result, th(cur := (th cur)\<lparr>tr_isUntested := result\<rparr>),
                    if result then rd\<lparr>rd_testedTraceList := set_insert cur (rd_testedTraceList rd)\<rparr> else rd)))"


section \<open>Lemmas\<close>

abbreviation same_lines :: "(kinst \<Rightarrow> string) \<Rightarrow> event_heap \<Rightarrow> trace_heap \<Rightarrow> trace_ref \<Rightarrow> trace_ref \<Rightarrow> bool" where
  "same_lines functionName h th a b \<equiv>
     mset (abstract_lines functionName h (th a)) = mset (abstract_lines functionName h (th b))"

lemma with_abstracts_lines [simp]:
  "abstract_lines functionName h (with_abstracts functionName h R th r) = abstract_lines functionName h (th r)"
  by (simp add: with_abstracts_def)

lemma with_abstracts_ok [simp]:
  "abstract_ok functionName h (th r) \<Longrightarrow> abstract_ok functionName h (with_abstracts functionName h R th r)"
  by (simp add: with_abstracts_def)

lemma find_equal_runs:
  assumes "abstract_ok functionName h (th self)" and "\<forall>t\<in>set ts. abstract_ok functionName h (th t)"
  shows "\<exists>R. find_equal functionName h self ts th =
    Inr (with_abstracts functionName h R th, \<exists>t\<in>set ts. same_lines functionName h th self t)"
  using assms
proof (induction ts arbitrary: th)
  case Nil
  have "with_abstracts functionName h {} th = th" by (simp add: with_abstracts_def)
  then show ?case by (intro exI [of _ "{}"]) simp
next
  case (Cons t ts)
  let ?th = "with_abstracts functionName h {self, t} th"
  have eq: "isEqual functionName h self t th = Inr (?th, same_lines functionName h th self t)"
    using Cons.prems by (simp add: isEqual_runs)
  show ?case
  proof (cases "same_lines functionName h th self t")
    case True
    with eq show ?thesis by (intro exI [of _ "{self, t}"]) simp
  next
    case False
    have "\<exists>R. find_equal functionName h self ts ?th =
        Inr (with_abstracts functionName h R ?th, \<exists>t\<in>set ts. same_lines functionName h ?th self t)"
      using Cons.prems by (intro Cons.IH) simp_all
    then obtain R where "find_equal functionName h self ts ?th =
        Inr (with_abstracts functionName h R ?th, \<exists>t\<in>set ts. same_lines functionName h th self t)" by auto
    moreover have "with_abstracts functionName h R ?th = with_abstracts functionName h (R \<union> {self, t}) th"
      by (auto simp: with_abstracts_def abstract_lines_def threads_of_def)
    ultimately show ?thesis using eq False by (intro exI [of _ "R \<union> {self, t}"]) simp
  qed
qed

text \<open>Every trace is comparable, and no two tested traces are equal.\<close>

definition tested_inv :: "(kinst \<Rightarrow> string) \<Rightarrow> event_heap \<Rightarrow> trace_heap \<Rightarrow> runtime_data \<Rightarrow> bool" where
  "tested_inv functionName h th rd \<longleftrightarrow>
     set_ok (rd_testedTraceList rd) \<and>
     (\<forall>t\<in>set (rd_testedTraceList rd). abstract_ok functionName h (th t)) \<and>
     (\<forall>t\<in>set (rd_testedTraceList rd). \<forall>u\<in>set (rd_testedTraceList rd). same_lines functionName h th t u \<longrightarrow> t = u)"

lemma isCurrentTraceUntested_runs:
  assumes inv: "tested_inv functionName h th rd" and cur: "rd_currentTrace rd = Some c"
    and ok: "abstract_ok functionName h (th c)"
  shows "\<exists>th' rd'. isCurrentTraceUntested functionName h th rd =
      Inr (\<forall>t\<in>set (rd_testedTraceList rd). \<not> same_lines functionName h th c t, th', rd') \<and>
    tested_inv functionName h th' rd' \<and>
    (\<exists>t\<in>set (rd_testedTraceList rd'). same_lines functionName h th' c t) \<and>
    tr_isUntested (th' c) = (\<forall>t\<in>set (rd_testedTraceList rd). \<not> same_lines functionName h th c t) \<and>
    set (rd_testedTraceList rd) \<subseteq> set (rd_testedTraceList rd')"
proof -
  let ?new = "\<forall>t\<in>set (rd_testedTraceList rd). \<not> same_lines functionName h th c t"
  from inv ok find_equal_runs [of functionName h th c "rd_testedTraceList rd"] obtain R where
    R: "find_equal functionName h c (rd_testedTraceList rd) th = Inr (with_abstracts functionName h R th, \<not> ?new)"
    by (auto simp: tested_inv_def)
  define th' where "th' = (with_abstracts functionName h R th)
    (c := (with_abstracts functionName h R th c)\<lparr>tr_isUntested := ?new\<rparr>)"
  have lines: "abstract_lines functionName h (th' r) = abstract_lines functionName h (th r)" for r
    by (simp add: th'_def)
  have oks: "abstract_ok functionName h (th r) \<Longrightarrow> abstract_ok functionName h (th' r)" for r
    by (cases "r = c") (simp_all add: th'_def)
  have flag: "tr_isUntested (th' c) = ?new" by (simp add: th'_def)
  define rd' where "rd' = (if ?new then rd\<lparr>rd_testedTraceList := set_insert c (rd_testedTraceList rd)\<rparr> else rd)"
  have "isCurrentTraceUntested functionName h th rd = Inr (?new, th', rd')"
    using R cur by (simp add: isCurrentTraceUntested_def Let_def th'_def rd'_def)
  moreover have "tested_inv functionName h th' rd'"
    using inv ok by (auto simp: tested_inv_def rd'_def lines oks)
  moreover have "\<exists>t\<in>set (rd_testedTraceList rd'). same_lines functionName h th' c t"
    by (auto simp: rd'_def lines)
  moreover have "set (rd_testedTraceList rd) \<subseteq> set (rd_testedTraceList rd')" by (auto simp: rd'_def)
  ultimately show ?thesis using flag by blast
qed


section \<open>Properties\<close>

text \<open>
  (C15) The current trace is reported as untested exactly when no tested trace has the same threads' lines; the
  tested traces stay pairwise different, and afterwards one of them equals the current trace.
\<close>

theorem isCurrentTraceUntested_iff_new:
  assumes "tested_inv functionName h th rd" and "rd_currentTrace rd = Some c" and "abstract_ok functionName h (th c)"
  shows "\<exists>new th' rd'. isCurrentTraceUntested functionName h th rd = Inr (new, th', rd') \<and>
    (new \<longleftrightarrow> (\<forall>t\<in>set (rd_testedTraceList rd).
        mset (abstract_lines functionName h (th c)) \<noteq> mset (abstract_lines functionName h (th t)))) \<and>
    tr_isUntested (th' c) = new \<and> tested_inv functionName h th' rd' \<and>
    (\<exists>t\<in>set (rd_testedTraceList rd'). mset (abstract_lines functionName h (th' c)) = mset (abstract_lines functionName h (th' t)))"
  using isCurrentTraceUntested_runs [OF assms] by blast

theorem isCurrentTraceUntested_iff_new_witness:
  "\<exists>th' rd'. isCurrentTraceUntested (\<lambda>_. ''main'') (\<lambda>e. sample_event e True)
     (\<lambda>r. new_Trace\<lparr>tr_eventList := [Some [r]]\<rparr>)
     (new_RuntimeDataManager\<lparr>rd_currentTrace := Some 2, rd_testedTraceList := [1]\<rparr>) = Inr (False, th', rd')"
  using isCurrentTraceUntested_iff_new [of "\<lambda>_. ''main''" "\<lambda>e. sample_event e True"
    "\<lambda>r. new_Trace\<lparr>tr_eventList := [Some [r]]\<rparr>"
    "new_RuntimeDataManager\<lparr>rd_currentTrace := Some 2, rd_testedTraceList := [1]\<rparr>" 2]
  by (auto simp: tested_inv_def new_RuntimeDataManager_def abstract_ok_def abstract_lines_def threads_of_def
      branch_line_def sample_event_def new_Trace_def set_ok_def)

end
