(* ===== verification/Symbolic_Names.thy ===== *)
theory Symbolic_Names
  imports Trace_Model
begin

text \<open>
  The static part of \<^verbatim>\<open>src/lib/Core/DealWithSymbolicExpr.cpp\<close>: the variable a symbolic value stands for, and the
  variables and tainted values an expression is made of. A symbolic value is a read (or a
  concatenation of reads) of an array named by a global access, so the names are those of
  \<open>Trace_Model\<close>.

  \<open>isTaint\<close> is a flag of the expression object, outside its structure: two equal expressions may
  differ in it. \<open>resolveTaintExpr\<close> therefore runs on objects, trees of expressions with their flags.
\<close>

section \<open>Kids\<close>

fun kids_of :: "expr \<Rightarrow> expr list" where
  "kids_of (ConstantExpr w v) = []"
| "kids_of (NotOptimizedExpr e) = [e]"
| "kids_of (ReadExpr a us i) = [i]"
| "kids_of (SelectExpr c t f) = [c, t, f]"
| "kids_of (ConcatExpr l r) = [l, r]"
| "kids_of (ExtractExpr e off w) = [e]"
| "kids_of (NotExpr e) = [e]"
| "kids_of (ZExtExpr e w) = [e]"
| "kids_of (SExtExpr e w) = [e]"
| "kids_of (BinaryExpr k l r) = [l, r]"

text \<open>Three classes return their only kid whatever the index; otherwise a missing kid is a null reference.\<close>

fun getKid :: "expr \<Rightarrow> nat \<Rightarrow> expr outcome" where
  "getKid (NotOptimizedExpr e) i = Inr e"
| "getKid (ExtractExpr e off w) i = Inr e"
| "getKid (NotExpr e) i = Inr e"
| "getKid e i = (if i < length (kids_of e) then Inr (kids_of e ! i) else Inl (Undefined ''getKid''))"

lemma kid_size: "k \<in> set (kids_of e) \<Longrightarrow> size k < size e"
  by (cases e) auto


section \<open>Names\<close>

definition getVarName_string :: "string \<Rightarrow> string outcome" where
  "getVarName_string globalVarFullName = bind_outcome (split_name globalVarFullName) (\<lambda>(var, _). Inr var)"

definition cast_ReadExpr :: "expr \<Rightarrow> string outcome" where
  "cast_ReadExpr e =
     (case e of ReadExpr a us i \<Rightarrow> Inr (ar_name a) | _ \<Rightarrow> Inl (Assertion ''cast<ReadExpr>''))"

definition getVarName :: "expr \<Rightarrow> string outcome" where
  "getVarName value =
     (case value of
        ConcatExpr l r \<Rightarrow> bind_outcome (cast_ReadExpr l) getVarName_string
      | ReadExpr a us i \<Rightarrow> getVarName_string (ar_name a)
      | _ \<Rightarrow> Inr [])"

definition getFullName :: "expr \<Rightarrow> string outcome" where
  "getFullName value =
     (case value of
        ConcatExpr l r \<Rightarrow> cast_ReadExpr l
      | ReadExpr a us i \<Rightarrow> Inr (ar_name a)
      | _ \<Rightarrow> Inl (Assertion ''getFullName''))"

text \<open>The variable a constraint \<open>Eq(value, symbolic)\<close> is about: \<open>getVarName(it->get()->getKid(1))\<close>.\<close>

definition constrained_var :: "expr \<Rightarrow> string outcome" where
  "constrained_var e = bind_outcome (getKid e 1) getVarName"


section \<open>The variables of an expression\<close>

function resolveSymbolicExpr :: "expr \<Rightarrow> string ordered_set \<Rightarrow> string ordered_set outcome" where
  "resolveSymbolicExpr value related =
     (case value of
        ReadExpr a us i \<Rightarrow> bind_outcome (getVarName value) (\<lambda>v. Inr (set_insert v related))
      | _ \<Rightarrow>
        let kids = kids_of value
        in if length kids = 2 \<and> kids ! 0 = kids ! 1 then resolveSymbolicExpr (kids ! 0) related
           else fold_outcome (\<lambda>k related. resolveSymbolicExpr k related) kids related)"
  by pat_completeness auto
termination by (relation "measure (\<lambda>(e, _). size e)") (auto simp: kid_size)

declare resolveSymbolicExpr.simps [simp del]

fun addExprToSet :: "string list \<Rightarrow> string ordered_set \<Rightarrow> string ordered_set" where
  "addExprToSet [] related = related"
| "addExprToSet (v # vs) related = addExprToSet vs (set_insert v related)"

fun addExprToVector :: "string list \<Rightarrow> string list \<Rightarrow> string list" where
  "addExprToVector [] related = related"
| "addExprToVector (v # vs) related = addExprToVector vs (if v \<in> set related then related else related @ [v])"


section \<open>Tainted values\<close>

datatype expr_object = Expr_Object (ob_expr: expr) (ob_isTaint: bool) (ob_kids: "expr_object list")

fun object_ok :: "expr_object \<Rightarrow> bool" where
  "object_ok (Expr_Object e b ks) \<longleftrightarrow> map ob_expr ks = kids_of e \<and> (\<forall>k\<in>set ks. object_ok k)"

definition isConcatOrRead :: "expr \<Rightarrow> bool" where
  "isConcatOrRead e = (case e of ConcatExpr l r \<Rightarrow> True | ReadExpr a us i \<Rightarrow> True | _ \<Rightarrow> False)"

function resolveTaintExpr :: "expr_object \<Rightarrow> expr_object list \<times> bool \<Rightarrow> expr_object list \<times> bool" where
  "resolveTaintExpr (Expr_Object e b ks) (related, isTaint) =
     (if isConcatOrRead e
      then (if e \<in> ob_expr ` set related then (related, isTaint)
            else (related @ [Expr_Object e b ks], isTaint \<or> b))
      else if isConstant e then (related, isTaint \<or> b)
      else if length ks = 2 \<and> ob_expr (ks ! 0) = ob_expr (ks ! 1)
      then resolveTaintExpr (hd ks) (related, isTaint)
      else fold resolveTaintExpr ks (related, isTaint))"
  by pat_completeness auto
termination
proof (relation "measure (\<lambda>(ob, _). size ob)")
  fix e b ks and related :: "expr_object list" and isTaint :: bool
  assume "length ks = 2 \<and> ob_expr (ks ! 0) = ob_expr (ks ! 1)"
  then have "hd ks \<in> set ks" by (cases ks) auto
  then show "((hd ks, related, isTaint), (Expr_Object e b ks, related, isTaint)) \<in> measure (\<lambda>(ob, _). size ob)"
    by (auto simp: less_Suc_eq_le intro: size_list_estimation')
qed (auto simp: less_Suc_eq_le intro: size_list_estimation')

declare resolveTaintExpr.simps [simp del]


section \<open>What the resolution finds\<close>

text \<open>The names of the arrays read, outside of indices and updates.\<close>

fun read_names :: "expr \<Rightarrow> string list" where
  "read_names (ConstantExpr w v) = []"
| "read_names (NotOptimizedExpr e) = read_names e"
| "read_names (ReadExpr a us i) = [ar_name a]"
| "read_names (SelectExpr c t f) = read_names c @ read_names t @ read_names f"
| "read_names (ConcatExpr l r) = read_names l @ read_names r"
| "read_names (ExtractExpr e off w) = read_names e"
| "read_names (NotExpr e) = read_names e"
| "read_names (ZExtExpr e w) = read_names e"
| "read_names (SExtExpr e w) = read_names e"
| "read_names (BinaryExpr k l r) = read_names l @ read_names r"

definition separator :: "char \<Rightarrow> bool" where
  "separator c \<longleftrightarrow> c = CHR ''S'' \<or> c = CHR ''L''"

definition var_part :: "string \<Rightarrow> string" where
  "var_part name = takeWhile (\<lambda>c. \<not> separator c) name"

definition well_named :: "string \<Rightarrow> bool" where
  "well_named name \<longleftrightarrow> (\<exists>c\<in>set name. separator c)"

lemma getVarName_string_eq:
  "getVarName_string name = (if well_named name then Inr (var_part name) else Inl (Out_Of_Range ''name.at(i)''))"
proof -
  have "split_name name = (if well_named name then Inr (var_part name, hd (dropWhile (\<lambda>c. \<not> separator c) name))
      else Inl (Out_Of_Range ''name.at(i)''))" for name
    by (induction name) (auto simp: well_named_def var_part_def separator_def)
  then show ?thesis by (simp add: getVarName_string_def)
qed

definition vars_of :: "expr \<Rightarrow> string set" where
  "vars_of e = var_part ` set (read_names e)"

definition names_ok :: "expr \<Rightarrow> bool" where
  "names_ok e \<longleftrightarrow> (\<forall>n\<in>set (read_names e). well_named n)"

definition resolves :: "bool \<Rightarrow> string set \<Rightarrow> string ordered_set \<Rightarrow> string ordered_set outcome \<Rightarrow> bool" where
  "resolves ok V s r \<longleftrightarrow>
     (if ok then \<exists>s'. r = Inr s' \<and> set s' = set s \<union> V \<and> (set_ok s \<longrightarrow> set_ok s')
      else r = Inl (Out_Of_Range ''name.at(i)''))"

lemma resolves_fold:
  assumes "\<And>k s. k \<in> set ks \<Longrightarrow> resolves (names_ok k) (vars_of k) s (f k s)"
  shows "resolves (\<forall>k\<in>set ks. names_ok k) (\<Union> (vars_of ` set ks)) s (fold_outcome f ks s)"
  using assms
proof (induction ks arbitrary: s)
  case Nil
  then show ?case by (simp add: resolves_def)
next
  case (Cons k ks)
  from Cons.prems [of k s] have k: "resolves (names_ok k) (vars_of k) s (f k s)" by simp
  have IH: "resolves (\<forall>k\<in>set ks. names_ok k) (\<Union> (vars_of ` set ks)) s (fold_outcome f ks s)" for s
    using Cons by simp
  show ?case
  proof (cases "names_ok k")
    case True
    with k obtain s' where "f k s = Inr s'" "set s' = set s \<union> vars_of k" "set_ok s \<longrightarrow> set_ok s'"
      by (auto simp: resolves_def)
    with IH [of s'] True show ?thesis by (auto simp: resolves_def Un_assoc split: if_splits)
  qed (use k in \<open>auto simp: resolves_def\<close>)
qed

lemma resolveSymbolicExpr_resolves:
  "resolves (names_ok e) (vars_of e) s (resolveSymbolicExpr e s)"
proof (induction "size e" arbitrary: e s rule: less_induct)
  case less
  then have IH: "resolves (names_ok k) (vars_of k) s (resolveSymbolicExpr k s)" if "k \<in> set (kids_of e)" for k s
    using kid_size [OF that] by blast
  show ?case
  proof (cases "\<exists>a us i. e = ReadExpr a us i")
    case True
    then show ?thesis
      by (auto simp: resolves_def names_ok_def vars_of_def resolveSymbolicExpr.simps [of e s] getVarName_def getVarName_string_eq)
  next
    case False
    then have names: "read_names e = concat (map read_names (kids_of e))" by (cases e) auto
    then have kids: "names_ok e \<longleftrightarrow> (\<forall>k\<in>set (kids_of e). names_ok k)" "vars_of e = \<Union> (vars_of ` set (kids_of e))"
      by (auto simp: names_ok_def vars_of_def)
    let ?twin = "length (kids_of e) = 2 \<and> kids_of e ! 0 = kids_of e ! 1"
    have step: "resolveSymbolicExpr e s =
        (if ?twin then resolveSymbolicExpr (kids_of e ! 0) s else fold_outcome resolveSymbolicExpr (kids_of e) s)"
      using False by (simp add: resolveSymbolicExpr.simps [of e s] Let_def split: expr.split)
    show ?thesis
    proof (cases ?twin)
      case True
      then have "set (kids_of e) = {kids_of e ! 0}"
        by (cases "kids_of e"; cases "drop 1 (kids_of e)") auto
      with True kids step IH [of "kids_of e ! 0" s] show ?thesis by simp
    next
      case twin: False
      have "resolves (\<forall>k\<in>set (kids_of e). names_ok k) (\<Union> (vars_of ` set (kids_of e))) s
          (fold_outcome resolveSymbolicExpr (kids_of e) s)"
        by (rule resolves_fold) (rule IH)
      moreover have "resolveSymbolicExpr e s = fold_outcome resolveSymbolicExpr (kids_of e) s"
        unfolding step by (rule if_not_P [OF twin])
      ultimately show ?thesis using kids by simp
    qed
  qed
qed

lemma set_addExprToSet [simp]: "set (addExprToSet vs s) = set vs \<union> set s"
  by (induction vs arbitrary: s) auto

lemma set_ok_addExprToSet [simp]: "set_ok s \<Longrightarrow> set_ok (addExprToSet vs s)"
  by (induction vs arbitrary: s) auto

lemma set_addExprToVector [simp]: "set (addExprToVector vs s) = set vs \<union> set s"
  by (induction vs arbitrary: s) auto

lemma distinct_addExprToVector: "distinct s \<Longrightarrow> distinct (addExprToVector vs s)"
  by (induction vs arbitrary: s) auto


subsection \<open>Tainted values\<close>

function taint_leaves :: "expr_object \<Rightarrow> expr_object list" where
  "taint_leaves (Expr_Object e b ks) =
     (if isConcatOrRead e \<or> isConstant e then [Expr_Object e b ks] else concat (map taint_leaves ks))"
  by pat_completeness auto
termination by (relation "measure size") (auto simp: less_Suc_eq_le intro: size_list_estimation')

declare taint_leaves.simps [simp del]

definition consistent_flags :: "expr_object set \<Rightarrow> bool" where
  "consistent_flags U \<longleftrightarrow> (\<forall>x\<in>U. \<forall>y\<in>U. ob_expr x = ob_expr y \<longrightarrow> ob_isTaint x = ob_isTaint y)"

lemma taint_leaves_expr:
  "object_ok x \<Longrightarrow> object_ok y \<Longrightarrow> ob_expr x = ob_expr y \<Longrightarrow> map ob_expr (taint_leaves x) = map ob_expr (taint_leaves y)"
proof (induction x arbitrary: y rule: taint_leaves.induct)
  case (1 e b ks)
  obtain b' ks' where y: "y = Expr_Object e b' ks'" using "1.prems" by (cases y) auto
  show ?case
  proof (cases "isConcatOrRead e \<or> isConstant e")
    case False
    have "map ob_expr ks = map ob_expr ks'" using "1.prems" y by simp
    then have "list_all2 (\<lambda>k k'. ob_expr k = ob_expr k') ks ks'" by (auto simp: list_all2_conv_all_nth list_eq_iff_nth_eq)
    moreover have "\<And>k k'. k \<in> set ks \<Longrightarrow> k' \<in> set ks' \<Longrightarrow> ob_expr k = ob_expr k' \<Longrightarrow>
        map ob_expr (taint_leaves k) = map ob_expr (taint_leaves k')"
      using 1 False y by simp
    ultimately have "map (map ob_expr \<circ> taint_leaves) ks = map (map ob_expr \<circ> taint_leaves) ks'"
      by (induction rule: list_all2_induct) auto
    with False y show ?thesis by (simp add: taint_leaves.simps map_concat comp_def)
  qed (simp add: y taint_leaves.simps)
qed

text \<open>\<open>r\<close> and \<open>t\<close> before, \<open>r'\<close> and \<open>t'\<close> after the leaves \<open>L\<close> were seen.\<close>

definition collects :: "expr_object list \<Rightarrow> expr_object list \<times> bool \<Rightarrow> expr_object list \<times> bool \<Rightarrow> bool" where
  "collects L s s' \<longleftrightarrow>
     (snd s' \<longleftrightarrow> snd s \<or> (\<exists>x\<in>set L. ob_isTaint x)) \<and>
     ob_expr ` set (fst s') = ob_expr ` set (fst s) \<union> ob_expr ` {x \<in> set L. \<not> isConstant (ob_expr x)} \<and>
     set (fst s') \<subseteq> set (fst s) \<union> set L \<and>
     (distinct (map ob_expr (fst s)) \<longrightarrow> distinct (map ob_expr (fst s')))"

text \<open>The flag already accounts for every value collected so far.\<close>

definition accounted :: "expr_object list \<times> bool \<Rightarrow> bool" where
  "accounted s \<longleftrightarrow> ((\<exists>x\<in>set (fst s). ob_isTaint x) \<longrightarrow> snd s)"

lemma collects_accounted: "collects L s s' \<Longrightarrow> accounted s \<Longrightarrow> accounted s'"
  by (auto simp: collects_def accounted_def)

lemma collects_trans:
  "collects L s s' \<Longrightarrow> collects L' s' s'' \<Longrightarrow> collects (L @ L') s s''"
  by (auto simp: collects_def)

lemma collects_fold:
  assumes "\<And>k s. k \<in> set ks \<Longrightarrow> accounted s \<Longrightarrow> set (fst s) \<subseteq> U \<Longrightarrow> collects (taint_leaves k) s (f k s)"
    and "\<forall>k\<in>set ks. set (taint_leaves k) \<subseteq> U" and "accounted s" and "set (fst s) \<subseteq> U"
  shows "collects (concat (map taint_leaves ks)) s (fold f ks s)"
  using assms
proof (induction ks arbitrary: s)
  case Nil
  then show ?case by (simp add: collects_def)
next
  case (Cons k ks)
  then have k: "collects (taint_leaves k) s (f k s)" by simp
  have acc: "accounted (f k s)" using collects_accounted [OF k Cons.prems(3)] .
  have "set (fst (f k s)) \<subseteq> set (fst s) \<union> set (taint_leaves k)" using k by (simp add: collects_def)
  then have sub: "set (fst (f k s)) \<subseteq> U" using Cons.prems(2,4) by auto
  have "collects (concat (map taint_leaves ks)) (f k s) (fold f ks (f k s))"
    using acc sub Cons.prems(1,2) by (intro Cons.IH) auto
  with k show ?case by (auto intro: collects_trans)
qed

lemma collects_twin:
  assumes "collects L s s'" and "map ob_expr L = map ob_expr L'" and "consistent_flags U"
    and "set L \<subseteq> U" and "set L' \<subseteq> U"
  shows "collects (L @ L') s s'"
proof -
  have exprs: "ob_expr ` set L' = ob_expr ` set L" using assms(2) by (metis list.set_map)
  then have "\<exists>y\<in>set L. ob_expr y = ob_expr x" if "x \<in> set L'" for x
    using that by (metis imageE imageI)
  then have "(\<exists>x\<in>set L. ob_isTaint x) \<or> (\<exists>x\<in>set L'. ob_isTaint x) \<longleftrightarrow> (\<exists>x\<in>set L. ob_isTaint x)"
    using assms(3-5) unfolding consistent_flags_def by (metis subsetD)
  moreover have "ob_expr ` {x \<in> set M. \<not> isConstant (ob_expr x)} = {e \<in> ob_expr ` set M. \<not> isConstant e}" for M
    by auto
  ultimately show ?thesis using assms(1) exprs by (auto simp: collects_def)
qed

lemma resolveTaintExpr_collects:
  assumes "consistent_flags U"
  shows "object_ok ob \<Longrightarrow> set (taint_leaves ob) \<subseteq> U \<Longrightarrow> set (fst s) \<subseteq> U \<Longrightarrow> accounted s \<Longrightarrow>
    collects (taint_leaves ob) s (resolveTaintExpr ob s)"
proof (induction ob arbitrary: s rule: taint_leaves.induct)
  case (1 e b ks)
  obtain related isTaint where s: "s = (related, isTaint)" by (cases s)
  let ?ob = "Expr_Object e b ks"
  consider (leaf) "isConcatOrRead e" | (const) "\<not> isConcatOrRead e" "isConstant e" | (node) "\<not> isConcatOrRead e" "\<not> isConstant e"
    by blast
  then show ?case
  proof cases
    case leaf
    then have ob: "?ob \<in> U" and const: "\<not> isConstant e"
      using "1.prems" by (auto simp: taint_leaves.simps isConcatOrRead_def split: expr.splits)
    show ?thesis
    proof (cases "e \<in> ob_expr ` set related")
      case True
      then obtain x where x: "x \<in> set related" "ob_expr x = e" by auto
      then have "ob_isTaint x = b"
        using assms ob "1.prems" s unfolding consistent_flags_def by (metis expr_object.sel(1,2) fst_conv subsetD)
      with leaf True x const "1.prems" s show ?thesis
        by (auto simp: collects_def resolveTaintExpr.simps taint_leaves.simps accounted_def)
    next
      case False
      with leaf const s show ?thesis
        by (auto simp: collects_def resolveTaintExpr.simps taint_leaves.simps)
    qed
  next
    case const
    then show ?thesis by (auto simp: s collects_def resolveTaintExpr.simps taint_leaves.simps)
  next
    case node
    have sub: "\<forall>k\<in>set ks. set (taint_leaves k) \<subseteq> U" and ok: "\<forall>k\<in>set ks. object_ok k"
      using node "1.prems" by (auto simp: taint_leaves.simps)
    have IH: "collects (taint_leaves k) s (resolveTaintExpr k s)"
      if "k \<in> set ks" "accounted s" "set (fst s) \<subseteq> U" for k s
      using that node sub ok by (intro 1(1)) auto
    show ?thesis
    proof (cases "length ks = 2 \<and> ob_expr (ks ! 0) = ob_expr (ks ! 1)")
      case True
      then obtain k k' where ks: "ks = [k, k']" "ob_expr k = ob_expr k'"
        by (cases ks; cases "drop 1 ks") auto
      have "collects (taint_leaves k @ taint_leaves k') s (resolveTaintExpr k s)"
        using ks ok sub "1.prems" by (intro collects_twin [OF _ _ assms] IH taint_leaves_expr) auto
      with node True ks s show ?thesis by (simp add: resolveTaintExpr.simps taint_leaves.simps)
    next
      case False
      have "collects (concat (map taint_leaves ks)) s (fold resolveTaintExpr ks s)"
        using sub "1.prems" by (intro collects_fold [of _ U] IH) auto
      moreover have "resolveTaintExpr ?ob s = fold resolveTaintExpr ks s"
        using node False s by (auto simp add: resolveTaintExpr.simps simp del: One_nat_def)
      ultimately show ?thesis using node by (simp add: taint_leaves.simps)
    qed
  qed
qed



section \<open>Properties\<close>

text \<open>
  (C28) Resolving an expression adds exactly the variables of the arrays it reads, skipping no branch although
  equal operands are visited once; and it throws exactly when the name of some array has neither an
  \<open>S\<close> nor an \<open>L\<close>.
\<close>

theorem resolveSymbolicExpr_vars:
  "if \<forall>n\<in>set (read_names e). well_named n
   then \<exists>s'. resolveSymbolicExpr e s = Inr s' \<and> set s' = set s \<union> vars_of e \<and> (set_ok s \<longrightarrow> set_ok s')
   else resolveSymbolicExpr e s = Inl (Out_Of_Range ''name.at(i)'')"
  using resolveSymbolicExpr_resolves [of e s] by (simp add: resolves_def names_ok_def)

definition sample_read :: "string \<Rightarrow> expr" where
  "sample_read name = ReadExpr (Array 0 name 1 [] 32 8) No_Update (ConstantExpr 32 0)"

theorem resolveSymbolicExpr_vars_witness:
  "(\<exists>s'. resolveSymbolicExpr (BinaryExpr AddExpr (sample_read ''G7L2'') (sample_read ''G9L1'')) [] = Inr s' \<and>
      set s' = {''G7'', ''G9''}) \<and>
   resolveSymbolicExpr (sample_read ''arg'') [] = Inl (Out_Of_Range ''name.at(i)'')"
  using resolveSymbolicExpr_vars [of "BinaryExpr AddExpr (sample_read ''G7L2'') (sample_read ''G9L1'')" "[]"]
    resolveSymbolicExpr_vars [of "sample_read ''arg''" "[]"]
  by (auto simp: sample_read_def vars_of_def well_named_def separator_def var_part_def)


definition sample_object :: "expr \<Rightarrow> bool \<Rightarrow> expr_object" where
  "sample_object e b = Expr_Object e b (map (\<lambda>k. Expr_Object k False []) (kids_of e))"


end
