(* ===== verification/Symbolic_Filter.thy ===== *)
theory Symbolic_Filter
  imports Symbolic_Names
begin

text \<open>
  The filters of \<^verbatim>\<open>src/lib/Core/DealWithSymbolicExpr.cpp\<close> over a recorded trace: which variables the branches and
  assertions of a run depend on, and which accesses and constraints are worth keeping.

  Two loops iterate over a \<open>std::set\<close> that they extend. The iterator sees an element inserted
  behind it and misses one inserted before it; the locale \<open>cursor_loop\<close> states what such a loop computes, and both
  loops interpret it. The compile-time switches \<open>DEBUG\<close> and \<open>OP1\<close> are 0, as in the source.
\<close>

section \<open>Marking the events of a trace\<close>

text \<open>\<open>isAccess\<close> tells whether the opcode of an instruction is \<open>Load\<close> or \<open>Store\<close>.\<close>

fun keep_constraints :: "string ordered_set \<Rightarrow> expr list \<Rightarrow> expr list outcome" where
  "keep_constraints related [] = Inr []"
| "keep_constraints related (e # es) =
     bind_outcome (constrained_var e) (\<lambda>v.
     bind_outcome (keep_constraints related es) (\<lambda>kept. Inr (if v \<in> set related then e # kept else kept)))"

definition keep_entries :: "string ordered_set \<Rightarrow> (string, 'v) ordered_map \<Rightarrow> (string, 'v) ordered_map" where
  "keep_entries related m = fold (\<lambda>(k, v) kept. if k \<in> set related then om_insert k v kept else kept) m []"

definition mark_accesses :: "(kinst \<Rightarrow> bool) \<Rightarrow> string ordered_set \<Rightarrow> event_ref list \<Rightarrow> event_heap \<Rightarrow> event_heap" where
  "mark_accesses isAccess related =
     fold (\<lambda>e h. if ev_isGlobal (h e) \<and> isAccess (ev_inst (h e))
                 then h(e := (h e)\<lparr>ev_usefulGlobal := ev_varName (h e) \<in> set related\<rparr>) else h)"

definition fillterTrace ::
  "(kinst \<Rightarrow> bool) \<Rightarrow> string ordered_set \<Rightarrow> event_heap \<Rightarrow> trace \<Rightarrow> (event_heap \<times> trace) outcome" where
  "fillterTrace isAccess related h tr =
     bind_outcome (keep_constraints related (tr_kQueryExpr tr)) (\<lambda>useful.
       Inr (mark_accesses isAccess related (tr_path tr) h,
            tr\<lparr>tr_usefulkQueryExpr := useful,
               tr_usefulReadSet := keep_entries related (tr_readSet tr),
               tr_usefulWriteSet := keep_entries related (tr_writeSet tr),
               tr_useful_global_variable_initializer := keep_entries related (tr_global_variable_initializer tr)\<rparr>))"


section \<open>Following the stores\<close>

record filter_state =
  fs_remaining :: "(string \<times> expr) list"
  fs_kQueryExpr :: "expr list"
  fs_varRelated :: "(string, string ordered_set) ordered_map"
  fs_related :: "string ordered_set"

text \<open>One store of a related variable: its constraint is kept and its variables become related.\<close>

definition absorb_store :: "string \<Rightarrow> expr \<Rightarrow> filter_state \<Rightarrow> filter_state outcome" where
  "absorb_store varName e fs =
     bind_outcome (resolveSymbolicExpr e []) (\<lambda>temp.
       Inr (fs\<lparr>fs_kQueryExpr := fs_kQueryExpr fs @ [e],
               fs_varRelated :=
                 (case om_find (fs_varRelated fs) varName of
                    Some s \<Rightarrow> om_put varName (addExprToSet temp s) (fs_varRelated fs)
                  | None \<Rightarrow> om_put varName temp (fs_varRelated fs)),
               fs_related := addExprToSet temp (fs_related fs)\<rparr>))"

text \<open>The inner loop over the remaining stores, which erases the ones it absorbs.\<close>

fun scan_stores ::
  "string \<Rightarrow> (string \<times> expr) list \<Rightarrow> filter_state \<Rightarrow> ((string \<times> expr) list \<times> filter_state) outcome" where
  "scan_stores varName [] fs = Inr ([], fs)"
| "scan_stores varName ((v, e) # rest) fs =
     (if varName = v then bind_outcome (absorb_store varName e fs) (scan_stores varName rest)
      else bind_outcome (scan_stores varName rest fs) (\<lambda>(kept, fs). Inr ((v, e) # kept, fs)))"

definition visit_related :: "string \<Rightarrow> filter_state \<Rightarrow> filter_state outcome" where
  "visit_related varName fs =
     bind_outcome (scan_stores varName (fs_remaining fs) fs) (\<lambda>(kept, fs). Inr (fs\<lparr>fs_remaining := kept\<rparr>))"

definition store_vars :: "filter_state \<Rightarrow> string set" where
  "store_vars fs = set (fs_related fs) \<union> \<Union> (vars_of ` snd ` set (fs_remaining fs))"

lemma resolve_vars: "resolveSymbolicExpr e s = Inr s' \<Longrightarrow> set s' = set s \<union> vars_of e"
  using resolveSymbolicExpr_resolves [of e s] by (auto simp: resolves_def split: if_splits)

lemma absorb_store_related:
  "absorb_store v e fs = Inr fs' \<Longrightarrow>
     set (fs_related fs') = set (fs_related fs) \<union> vars_of e \<and> fs_remaining fs' = fs_remaining fs"
  by (auto simp: absorb_store_def outcome_simps resolve_vars)

lemma scan_stores_related:
  "scan_stores v rem fs = Inr (kept, fs') \<Longrightarrow>
     kept = filter (\<lambda>(w, _). w \<noteq> v) rem \<and>
     set (fs_related fs') = set (fs_related fs) \<union> \<Union> (vars_of ` snd ` set (filter (\<lambda>(w, _). w = v) rem))"
proof (induction rem arbitrary: fs kept)
  case (Cons we rem)
  obtain w e where we: "we = (w, e)" by (cases we)
  show ?case
  proof (cases "v = w")
    case True
    with Cons.prems we obtain fs1 where
      "absorb_store v e fs = Inr fs1" "scan_stores v rem fs1 = Inr (kept, fs')" by (auto simp: outcome_simps)
    with absorb_store_related [of v e fs fs1] Cons.IH [of fs1 kept] True we show ?thesis by auto
  next
    case False
    with Cons.prems we obtain kept1 where
      "scan_stores v rem fs = Inr (kept1, fs')" "kept = (w, e) # kept1" by (auto simp: outcome_simps)
    with Cons.IH [of fs kept1] False we show ?thesis by auto
  qed
qed simp

lemma visit_related_vars: "visit_related v fs = Inr fs' \<Longrightarrow> store_vars fs' \<subseteq> store_vars fs"
  by (fastforce simp: visit_related_def outcome_simps store_vars_def dest!: scan_stores_related)

lemma set_next_greater: "set_next x s = Some y \<Longrightarrow> x < y \<and> y \<in> set s"
  by (auto simp: set_next_def find_Some_iff)

lemma cursor_measure:
  "finite U \<Longrightarrow> U' \<subseteq> U \<Longrightarrow> (v :: 'a :: linorder) < w \<Longrightarrow> w \<in> U' \<Longrightarrow> card {y \<in> U'. w < y} < card {y \<in> U. v < y}"
  by (rule psubset_card_mono) auto

lemma finite_store_vars: "finite (store_vars fs)"
  by (simp add: store_vars_def vars_of_def)

function relate_loop :: "string \<Rightarrow> filter_state \<Rightarrow> filter_state outcome" where
  "relate_loop varName fs =
     bind_outcome (visit_related varName fs) (\<lambda>fs.
       case set_next varName (fs_related fs) of None \<Rightarrow> Inr fs | Some v \<Rightarrow> relate_loop v fs)"
  by pat_completeness auto
termination
proof (relation "measure (\<lambda>(v, fs). card {y \<in> store_vars fs. v < y})")
  fix v fs fs' w
  assume "visit_related v fs = Inr fs'" "set_next v (fs_related fs') = Some w"
  from visit_related_vars [OF this(1)] set_next_greater [OF this(2)]
  have "store_vars fs' \<subseteq> store_vars fs" "v < w" "w \<in> store_vars fs'" by (simp_all add: store_vars_def)
  from cursor_measure [OF finite_store_vars this]
  show "((w, fs'), v, fs) \<in> measure (\<lambda>(v, fs). card {y \<in> store_vars fs. v < y})" by simp
qed simp

declare relate_loop.simps [simp del]

definition relate_stores :: "filter_state \<Rightarrow> filter_state outcome" where
  "relate_stores fs = (case fs_related fs of [] \<Rightarrow> Inr fs | v # _ \<Rightarrow> relate_loop v fs)"


section \<open>Who accesses a variable\<close>

text \<open>
  \<open>varThread\<close> holds the thread of a variable that one thread accesses and 0 for a shared one. \<open>begin()\<close> of an
  empty vector must not be read.
\<close>

definition note_thread ::
  "event_heap \<Rightarrow> string \<Rightarrow> event_ref list \<Rightarrow> (string, int) ordered_map \<Rightarrow> (string, int) ordered_map outcome" where
  "note_thread h varName es varThread =
     bind_outcome
       (if om_find varThread varName = None
        then bind_outcome (front_of es) (\<lambda>e. Inr (om_put varName (uint (ev_threadId (h e))) varThread))
        else Inr varThread)
       (\<lambda>varThread.
          let tid = the (om_find varThread varName)
          in Inr (if tid \<noteq> 0 \<and> (\<exists>e\<in>set es. tid \<noteq> uint (ev_threadId (h e))) then om_put varName 0 varThread else varThread))"

fun note_accesses ::
  "event_heap \<Rightarrow> string ordered_set \<Rightarrow> events_by_name \<Rightarrow> (string, int) ordered_map \<Rightarrow> (string, int) ordered_map outcome" where
  "note_accesses h related [] varThread = Inr varThread"
| "note_accesses h related ((varName, es) # accesses) varThread =
     bind_outcome (if varName \<in> set related then note_thread h varName es varThread else Inr varThread)
       (note_accesses h related accesses)"

definition insert_entries :: "(string, 'v) ordered_map \<Rightarrow> (string, 'v) ordered_map \<Rightarrow> (string, 'v) ordered_map" where
  "insert_entries new m = fold (\<lambda>(k, v). om_insert k v) new m"

definition only_written :: "events_by_name \<Rightarrow> (string, int) ordered_map \<Rightarrow> (string, int) ordered_map" where
  "only_written written = map (\<lambda>(v, t). (v, if om_find written v = None then - 1 else t))"

definition mark_events :: "(kinst \<Rightarrow> bool) \<Rightarrow> string ordered_set \<Rightarrow> event_ref list \<Rightarrow> event_heap \<Rightarrow> event_heap" where
  "mark_events isAccess related =
     fold (\<lambda>e h. if ev_isGlobal (h e)
                 then h(e := (h e)\<lparr>ev_usefulGlobal := isAccess (ev_inst (h e)) \<longrightarrow> ev_varName (h e) \<in> set related\<rparr>)
                 else h)"


section \<open>The filter\<close>

text \<open>The branch and assertion expressions, each with its variables.\<close>

fun resolve_all :: "expr list \<Rightarrow> string ordered_set \<Rightarrow> (string ordered_set list \<times> string ordered_set) outcome" where
  "resolve_all [] related = Inr ([], related)"
| "resolve_all (e # es) related =
     bind_outcome (resolveSymbolicExpr e []) (\<lambda>temp.
     bind_outcome (resolve_all es (addExprToSet temp related)) (\<lambda>(temps, related). Inr (temp # temps, related)))"

fun name_stores :: "expr list \<Rightarrow> (string \<times> expr) list outcome" where
  "name_stores [] = Inr []"
| "name_stores (e # es) =
     bind_outcome (constrained_var e) (\<lambda>v. bind_outcome (name_stores es) (\<lambda>rest. Inr ((v, e) # rest)))"

definition relate :: "trace \<Rightarrow> (string ordered_set \<times> trace) outcome" where
  "relate tr =
     bind_outcome (name_stores (tr_storeSymbolicExpr tr)) (\<lambda>remaining.
     bind_outcome (resolve_all (tr_brSymbolicExpr tr) []) (\<lambda>(brs, related).
     bind_outcome (resolve_all (tr_assertSymbolicExpr tr) related) (\<lambda>(asserts, related).
     bind_outcome
       (relate_stores \<lparr>fs_remaining = remaining, fs_kQueryExpr = tr_kQueryExpr tr,
                       fs_varRelated = tr_varRelatedSymbolicExpr tr, fs_related = related\<rparr>) (\<lambda>fs.
     Inr (fs_related fs,
          tr\<lparr>tr_brRelatedSymbolicExpr := tr_brRelatedSymbolicExpr tr @ brs,
             tr_assertRelatedSymbolicExpr := tr_assertRelatedSymbolicExpr tr @ asserts,
             tr_kQueryExpr := fs_kQueryExpr fs,
             tr_varRelatedSymbolicExpr := fs_varRelated fs\<rparr>)))))"

definition keep_accesses :: "event_heap \<Rightarrow> string ordered_set \<Rightarrow> trace \<Rightarrow> trace outcome" where
  "keep_accesses h related tr =
     (let usefulReadSet = keep_entries related (tr_readSet tr);
          usefulWriteSet = keep_entries related (tr_writeSet tr)
      in bind_outcome (note_accesses h related (tr_readSet tr) (tr_varThread tr)) (\<lambda>varThread.
         bind_outcome (note_accesses h related (tr_writeSet tr) varThread) (\<lambda>varThread.
         Inr (tr\<lparr>tr_allReadSet := insert_entries (tr_readSet tr) (tr_allReadSet tr),
                 tr_allWriteSet := insert_entries (tr_writeSet tr) (tr_allWriteSet tr),
                 tr_readSet := insert_entries usefulReadSet [],
                 tr_writeSet := insert_entries usefulWriteSet [],
                 tr_varThread := only_written usefulWriteSet varThread\<rparr>))))"

definition filterUseless ::
  "(kinst \<Rightarrow> bool) \<Rightarrow> event_heap \<Rightarrow> trace \<Rightarrow> (string ordered_set \<times> event_heap \<times> trace) outcome" where
  "filterUseless isAccess h tr =
     bind_outcome (relate tr) (\<lambda>(related, tr).
     bind_outcome (keep_accesses h related tr) (\<lambda>tr.
     let tr = tr\<lparr>tr_global_variable_initializer :=
                   insert_entries (keep_entries related (tr_global_variable_initializer tr)) []\<rparr>;
         h = mark_events isAccess related (tr_path tr) h
     in bind_outcome (keep_constraints related (tr_rwSymbolicExpr tr)) (\<lambda>rw.
        bind_outcome (fillterTrace isAccess related h (tr\<lparr>tr_rwSymbolicExpr := rw\<rparr>)) (\<lambda>(h, tr).
        Inr (related, h, tr)))))"

definition isRelated :: "string ordered_set \<Rightarrow> string \<Rightarrow> bool" where
  "isRelated allRelatedSymbolicExpr varName \<longleftrightarrow> varName \<in> set allRelatedSymbolicExpr"


section \<open>The filter for one constraint\<close>

definition visit_set :: "(string, string ordered_set) ordered_map \<Rightarrow> string \<Rightarrow> string ordered_set \<Rightarrow> string ordered_set" where
  "visit_set varRelated varName related =
     (case om_find varRelated varName of None \<Rightarrow> related | Some s \<Rightarrow> addExprToSet s related)"

definition related_universe :: "(string, string ordered_set) ordered_map \<Rightarrow> string ordered_set \<Rightarrow> string set" where
  "related_universe varRelated related = set related \<union> \<Union> (set ` snd ` set varRelated)"

lemma visit_set_universe:
  "related_universe varRelated (visit_set varRelated v related) = related_universe varRelated related"
  by (fastforce simp: related_universe_def visit_set_def split: option.splits dest!: map_of_SomeD)

function with_set_loop ::
  "(string, string ordered_set) ordered_map \<Rightarrow> string \<Rightarrow> string ordered_set \<Rightarrow> string ordered_set" where
  "with_set_loop varRelated varName related =
     (let related = visit_set varRelated varName related
      in case set_next varName related of None \<Rightarrow> related | Some v \<Rightarrow> with_set_loop varRelated v related)"
  by pat_completeness auto
termination
proof (relation "measure (\<lambda>(m, v, s). card {y \<in> related_universe m s. v < y})")
  fix m v s s' w
  assume s': "s' = visit_set m v s" and "set_next v s' = Some w"
  then have "related_universe m s' \<subseteq> related_universe m s" "v < w" "w \<in> set s'"
    by (auto simp: visit_set_universe dest: set_next_greater)
  moreover from this have "w \<in> related_universe m s'" by (simp add: related_universe_def)
  moreover have "finite (related_universe m s)" by (simp add: related_universe_def)
  ultimately show "((m, w, s'), m, v, s) \<in> measure (\<lambda>(m, v, s). card {y \<in> related_universe m s. v < y})"
    by (auto intro: cursor_measure)
qed simp

declare with_set_loop.simps [simp del]

text \<open>\<open>varThread[*it] == 0\<close> creates a missing entry with value 0.\<close>

fun any_shared :: "string list \<Rightarrow> (string, int) ordered_map \<Rightarrow> bool \<times> (string, int) ordered_map" where
  "any_shared [] varThread = (False, varThread)"
| "any_shared (v # vs) varThread =
     (case om_find varThread v of
        None \<Rightarrow> (True, om_put v 0 varThread)
      | Some t \<Rightarrow> if t = 0 then (True, varThread) else any_shared vs varThread)"

definition filterUselessWithSet :: "string ordered_set \<Rightarrow> trace \<Rightarrow> bool \<times> trace" where
  "filterUselessWithSet relatedSymbolicExpr tr =
     (let start = addExprToSet relatedSymbolicExpr [];
          related = (case start of [] \<Rightarrow> [] | v # _ \<Rightarrow> with_set_loop (tr_varRelatedSymbolicExpr tr) v start);
          (branch, varThread) = any_shared related (tr_varThread tr)
      in (branch, tr\<lparr>tr_RelatedSymbolicExpr := related, tr_varThread := varThread\<rparr>))"


section \<open>The filter by taint\<close>

text \<open>
  \<open>taint.push_back\<close> runs while an iterator into \<open>taint\<close> is live. \<open>capacity\<close> is the capacity of the vector after it was filled:
  a push beyond it reallocates, and the next \<open>it++\<close> is undefined.
\<close>

fun taint_scan ::
  "(string, string ordered_set) ordered_map \<Rightarrow> nat \<Rightarrow> string \<Rightarrow> string list \<Rightarrow> string list \<Rightarrow> (string list \<times> string list) outcome" where
  "taint_scan varRelated capacity varName [] taint = Inr ([], taint)"
| "taint_scan varRelated capacity varName (u # unTaint) taint =
     (if (case om_find varRelated u of None \<Rightarrow> False | Some s \<Rightarrow> varName \<in> set s)
      then (if length taint < capacity then taint_scan varRelated capacity varName unTaint (taint @ [u])
            else Inl (Undefined ''it++''))
      else bind_outcome (taint_scan varRelated capacity varName unTaint taint)
             (\<lambda>(kept, taint). Inr (u # kept, taint)))"

lemma taint_scan_length:
  "taint_scan m c v us taint = Inr (us', taint') \<Longrightarrow> length us' + length taint' = length us + length taint"
  by (induction m c v us taint arbitrary: us' taint' rule: taint_scan.induct)
     (auto simp: outcome_simps split: if_splits)

function taint_loop ::
  "(string, string ordered_set) ordered_map \<Rightarrow> nat \<Rightarrow> nat \<Rightarrow> string list \<Rightarrow> string list \<Rightarrow> string list outcome" where
  "taint_loop varRelated capacity i unTaint taint =
     (if i < length taint
      then bind_outcome (taint_scan varRelated capacity (taint ! i) unTaint taint)
             (\<lambda>(unTaint, taint). taint_loop varRelated capacity (Suc i) unTaint taint)
      else Inr taint)"
  by pat_completeness auto
termination
  by (relation "measure (\<lambda>(m, c, i, us, ts). length us + length ts - i)") (auto dest!: taint_scan_length)

declare taint_loop.simps [simp del]

definition filterUselessByTaint :: "nat \<Rightarrow> trace \<Rightarrow> trace outcome" where
  "filterUselessByTaint capacity tr =
     bind_outcome
       (taint_loop (tr_varRelatedSymbolicExpr tr) capacity 0 (tr_unTaintSymbolicExpr tr) (tr_taintSymbolicExpr tr))
       (\<lambda>taint. Inr (tr\<lparr>tr_potentialTaintSymbolicExpr :=
          fold (\<lambda>v s. if v \<in> set (tr_taintSymbolicExpr tr) then s else set_insert v s) taint
            (tr_potentialTaintSymbolicExpr tr)\<rparr>))"


section \<open>Iterating over a growing set\<close>

text \<open>
  A loop whose iterator runs through a finite ordered set while the body, at element \<open>v\<close>, inserts
  the elements \<open>edges v\<close>. \<open>inv V s\<close> holds of a state after the elements \<open>V\<close> were visited.
\<close>

definition edge_rel :: "('a \<Rightarrow> 'a set) \<Rightarrow> ('a \<times> 'a) set" where
  "edge_rel edges = {(v, w). w \<in> edges v}"

lemma edge_rel_closed:
  assumes "A \<subseteq> B" and "\<And>v. v \<in> B \<Longrightarrow> edges v \<subseteq> B"
  shows "(edge_rel edges)\<^sup>* `` A \<subseteq> B"
proof
  fix y assume "y \<in> (edge_rel edges)\<^sup>* `` A"
  then obtain x where "(x, y) \<in> (edge_rel edges)\<^sup>*" "x \<in> A" by blast
  then show "y \<in> B" by (induction rule: rtrancl_induct) (use assms in \<open>auto simp: edge_rel_def\<close>)
qed

locale cursor_loop =
  fixes loop :: "'a :: linorder \<Rightarrow> 's \<Rightarrow> 's outcome" and visit :: "'a \<Rightarrow> 's \<Rightarrow> 's outcome"
    and elems :: "'s \<Rightarrow> 'a ordered_set" and edges :: "'a \<Rightarrow> 'a set" and inv :: "'a set \<Rightarrow> 's \<Rightarrow> bool"
    and U :: "'a set"
  assumes finite_U: "finite U" and edges_U: "edges v \<subseteq> U"
    and loop_step: "loop v s =
      bind_outcome (visit v s) (\<lambda>s. case set_next v (elems s) of None \<Rightarrow> Inr s | Some w \<Rightarrow> loop w s)"
    and visit_runs: "inv V s \<Longrightarrow> v \<notin> V \<Longrightarrow>
      \<exists>s'. visit v s = Inr s' \<and> inv (insert v V) s' \<and> set (elems s') = set (elems s) \<union> edges v"
    and elems_ok: "inv V s \<Longrightarrow> set_ok (elems s)"
begin

lemma next_None: "set_next v s = None \<longleftrightarrow> (\<forall>x\<in>set s. \<not> v < x)"
  by (auto simp: set_next_def find_None_iff)

lemma next_least: "set_ok s \<Longrightarrow> set_next v s = Some w \<Longrightarrow> x \<in> set s \<Longrightarrow> v < x \<Longrightarrow> w \<le> x"
proof (induction s)
  case (Cons y s)
  then show ?case
    by (cases "v < y") (auto simp: set_next_def set_ok_def)
qed (simp add: set_next_def)

text \<open>
  The loop ends; it visits every element at or above its start that was there in time; the set
  grows exactly by the edges of the visited elements.
\<close>

lemma loop_runs:
  assumes "inv V s" and "set (elems s) \<subseteq> U" and "v \<in> set (elems s)" and "\<forall>x\<in>V. x < v" and "V \<subseteq> set (elems s)"
  shows "\<exists>s' V'. loop v s = Inr s' \<and> inv V' s' \<and> V \<subseteq> V' \<and> V' \<subseteq> set (elems s') \<and>
    set (elems s') = set (elems s) \<union> \<Union> (edges ` (V' - V)) \<and> set (elems s') \<subseteq> U \<and>
    set (elems s') \<subseteq> (edge_rel edges)\<^sup>* `` set (elems s) \<and>
    {x \<in> set (elems s). v \<le> x} \<subseteq> V' \<and>
    (\<forall>y\<in>set (elems s') - V'. y \<in> set (elems s) - V \<or> (\<exists>x\<in>V' - V. y \<in> edges x \<and> y < x))"
  using assms
proof (induction "card {y \<in> U. v < y}" arbitrary: v s V rule: less_induct)
  case less
  from less.prems have "v \<notin> V" by auto
  with visit_runs less.prems(1) obtain s1 where
    s1: "visit v s = Inr s1" "inv (insert v V) s1" "set (elems s1) = set (elems s) \<union> edges v" by blast
  note ok = elems_ok [OF s1(2)]
  have reach1: "set (elems s1) \<subseteq> (edge_rel edges)\<^sup>* `` set (elems s)"
    using s1(3) less.prems(3) by (auto simp: edge_rel_def)
  show ?case
  proof (cases "set_next v (elems s1)")
    case None
    then have top: "\<forall>x\<in>set (elems s1). x \<le> v" by (auto simp: next_None)
    have "loop v s = Inr s1" using s1 None by (simp add: loop_step [of v s])
    moreover have "{x \<in> set (elems s). v \<le> x} \<subseteq> insert v V" using top s1(3) by force
    moreover have "insert v V \<subseteq> set (elems s1)" using less.prems s1(3) by auto
    moreover have "set (elems s1) \<subseteq> U" using less.prems(2) edges_U s1(3) by auto
    ultimately show ?thesis
      using \<open>v \<notin> V\<close> s1 top reach1 by (intro exI [of _ s1] exI [of _ "insert v V"]) (auto simp: less_le)
  next
    case (Some w)
    from set_next_greater [OF Some] have w: "v < w" "w \<in> set (elems s1)" by auto
    have U1: "set (elems s1) \<subseteq> U" using less.prems(2) edges_U s1(3) by auto
    have "card {y \<in> U. w < y} < card {y \<in> U. v < y}"
      using cursor_measure [OF finite_U order_refl] w U1 by blast
    from less.hyps [OF this s1(2) U1 w(2)] less.prems w s1(3) obtain s' V' where
      IH: "loop w s1 = Inr s'" "inv V' s'" "insert v V \<subseteq> V'" "V' \<subseteq> set (elems s')"
        "set (elems s') = set (elems s1) \<union> \<Union> (edges ` (V' - insert v V))" "set (elems s') \<subseteq> U"
        "set (elems s') \<subseteq> (edge_rel edges)\<^sup>* `` set (elems s1)"
        "{x \<in> set (elems s1). w \<le> x} \<subseteq> V'"
        "\<forall>y\<in>set (elems s') - V'. y \<in> set (elems s1) - insert v V \<or> (\<exists>x\<in>V' - insert v V. y \<in> edges x \<and> y < x)"
      by fastforce
    have "loop v s = Inr s'" using s1 Some IH(1) by (simp add: loop_step [of v s])
    moreover have "set (elems s') = set (elems s) \<union> \<Union> (edges ` (V' - V))"
      using IH(3,5) s1(3) \<open>v \<notin> V\<close> by auto
    moreover have "set (elems s') \<subseteq> (edge_rel edges)\<^sup>* `` set (elems s)"
    proof
      fix y assume "y \<in> set (elems s')"
      with IH(7) obtain x where "x \<in> set (elems s1)" "(x, y) \<in> (edge_rel edges)\<^sup>*" by blast
      with reach1 show "y \<in> (edge_rel edges)\<^sup>* `` set (elems s)" by (blast intro: rtrancl_trans)
    qed
    moreover have "{x \<in> set (elems s). v \<le> x} \<subseteq> V'"
    proof
      fix x assume "x \<in> {x \<in> set (elems s). v \<le> x}"
      with next_least [OF ok Some, of x] s1(3) have "x = v \<or> w \<le> x" by (auto simp: le_less)
      with \<open>x \<in> _\<close> IH(3,8) s1(3) show "x \<in> V'" by auto
    qed
    moreover have "\<forall>y\<in>set (elems s') - V'. y \<in> set (elems s) - V \<or> (\<exists>x\<in>V' - V. y \<in> edges x \<and> y < x)"
    proof
      fix y assume y: "y \<in> set (elems s') - V'"
      with IH(9) consider "y \<in> set (elems s1) - insert v V" | x where "x \<in> V' - insert v V" "y \<in> edges x" "y < x" by blast
      then show "y \<in> set (elems s) - V \<or> (\<exists>x\<in>V' - V. y \<in> edges x \<and> y < x)"
      proof cases
        case 1
        have "\<not> w \<le> y" using y 1 IH(8) by auto
        then have "\<not> v < y" using next_least [OF ok Some, of y] 1 by auto
        with 1 s1(3) IH(3) \<open>v \<notin> V\<close> show ?thesis by (auto simp: less_le)
      qed blast
    qed
    ultimately show ?thesis using IH by blast
  qed
qed

text \<open>
  Started at the least element with nothing visited, the loop reaches no more than the edges
  do, and all of it when no edge leads down, except to elements that were there at the start.
\<close>

lemma loop_from_start:
  assumes "inv {} s" and "elems s = v # vs" and "set (elems s) \<subseteq> U"
  shows "\<exists>s' V. loop v s = Inr s' \<and> inv V s' \<and> set (elems s) \<subseteq> V \<and> V \<subseteq> set (elems s') \<and>
    set (elems s') = set (elems s) \<union> \<Union> (edges ` V) \<and>
    set (elems s') \<subseteq> (edge_rel edges)\<^sup>* `` set (elems s) \<and>
    ((\<forall>x y. y \<in> edges x \<longrightarrow> x \<le> y \<or> y \<in> set (elems s)) \<longrightarrow>
       V = set (elems s') \<and> set (elems s') = (edge_rel edges)\<^sup>* `` set (elems s))"
proof -
  from elems_ok [OF assms(1)] assms(2) have least: "\<forall>x\<in>set (elems s). v \<le> x"
    by (auto simp: set_ok_def)
  have "v \<in> set (elems s)" using assms(2) by simp
  from loop_runs [OF assms(1,3) this] obtain s' V where
    R: "loop v s = Inr s'" "inv V s'" "V \<subseteq> set (elems s')" "set (elems s') = set (elems s) \<union> \<Union> (edges ` V)"
      "set (elems s') \<subseteq> (edge_rel edges)\<^sup>* `` set (elems s)" "{x \<in> set (elems s). v \<le> x} \<subseteq> V"
      "\<forall>y\<in>set (elems s') - V. y \<in> set (elems s) \<or> (\<exists>x\<in>V. y \<in> edges x \<and> y < x)"
    by auto
  have start: "set (elems s) \<subseteq> V" using R(6) least by auto
  have "(\<forall>x y. y \<in> edges x \<longrightarrow> x \<le> y \<or> y \<in> set (elems s)) \<longrightarrow>
      V = set (elems s') \<and> set (elems s') = (edge_rel edges)\<^sup>* `` set (elems s)"
  proof
    assume up: "\<forall>x y. y \<in> edges x \<longrightarrow> x \<le> y \<or> y \<in> set (elems s)"
    have "V = set (elems s')"
    proof (rule ccontr)
      assume "V \<noteq> set (elems s')"
      with R(3) obtain y where "y \<in> set (elems s') - V" by auto
      with R(7) start obtain x where "y \<in> edges x" "y < x" "y \<notin> set (elems s)" by blast
      with up show False by (meson leD)
    qed
    with R(4) start have "(edge_rel edges)\<^sup>* `` set (elems s) \<subseteq> set (elems s')"
      by (intro edge_rel_closed) auto
    with R(5) \<open>V = _\<close> show "V = set (elems s') \<and> set (elems s') = (edge_rel edges)\<^sup>* `` set (elems s)" by blast
  qed
  with R(1-5) start show ?thesis by (intro exI [of _ s'] exI [of _ V] conjI)
qed

end


section \<open>The loops as cursor loops\<close>

subsection \<open>Related variables\<close>

definition entries_of :: "(string, string ordered_set) ordered_map \<Rightarrow> string \<Rightarrow> string set" where
  "entries_of m v = (case om_find m v of None \<Rightarrow> {} | Some s \<Rightarrow> set s)"

definition store_edges :: "(string \<times> expr) list \<Rightarrow> string \<Rightarrow> string set" where
  "store_edges stores v = \<Union> (vars_of ` snd ` {ve \<in> set stores. fst ve = v})"

definition relate_inv ::
  "(string \<times> expr) list \<Rightarrow> expr list \<Rightarrow> (string, string ordered_set) ordered_map \<Rightarrow> string set \<Rightarrow> filter_state \<Rightarrow> bool" where
  "relate_inv stores kq vr V fs \<longleftrightarrow>
     (\<forall>ve\<in>set stores. names_ok (snd ve)) \<and> set_ok (fs_related fs) \<and> om_ok (fs_varRelated fs) \<and>
     fs_remaining fs = filter (\<lambda>ve. fst ve \<notin> V) stores \<and>
     mset (fs_kQueryExpr fs) = mset kq + mset (map snd (filter (\<lambda>ve. fst ve \<in> V) stores)) \<and>
     (\<forall>v. entries_of (fs_varRelated fs) v = entries_of vr v \<union> (if v \<in> V then store_edges stores v else {}))"

lemma store_edges_Cons: "store_edges ((w, e) # rem) v = (if w = v then vars_of e else {}) \<union> store_edges rem v"
  by (auto simp: store_edges_def)

lemma absorb_store_runs:
  assumes "names_ok e" and "set_ok (fs_related fs)" and "om_ok (fs_varRelated fs)"
  shows "\<exists>fs'. absorb_store v e fs = Inr fs' \<and> set (fs_related fs') = set (fs_related fs) \<union> vars_of e \<and>
    set_ok (fs_related fs') \<and> om_ok (fs_varRelated fs') \<and> fs_kQueryExpr fs' = fs_kQueryExpr fs @ [e] \<and>
    entries_of (fs_varRelated fs') = (entries_of (fs_varRelated fs))(v := entries_of (fs_varRelated fs) v \<union> vars_of e)"
proof -
  from resolveSymbolicExpr_resolves [of e "[]"] assms(1) obtain temp where
    "resolveSymbolicExpr e [] = Inr temp" "set temp = vars_of e" by (auto simp: resolves_def)
  with assms(2,3) show ?thesis
    by (auto simp: absorb_store_def entries_of_def om_find_put fun_eq_iff split: option.splits)
qed

lemma scan_stores_runs:
  assumes "\<forall>ve\<in>set rem. names_ok (snd ve)" and "set_ok (fs_related fs)" and "om_ok (fs_varRelated fs)"
  shows "\<exists>fs'. scan_stores v rem fs = Inr (filter (\<lambda>ve. fst ve \<noteq> v) rem, fs') \<and>
    set (fs_related fs') = set (fs_related fs) \<union> store_edges rem v \<and>
    set_ok (fs_related fs') \<and> om_ok (fs_varRelated fs') \<and>
    fs_kQueryExpr fs' = fs_kQueryExpr fs @ map snd (filter (\<lambda>ve. fst ve = v) rem) \<and>
    entries_of (fs_varRelated fs') = (entries_of (fs_varRelated fs))(v := entries_of (fs_varRelated fs) v \<union> store_edges rem v)"
  using assms
proof (induction rem arbitrary: fs)
  case Nil
  then show ?case by (simp add: store_edges_def)
next
  case (Cons we rem)
  obtain w e where we: "we = (w, e)" by (cases we)
  show ?case
  proof (cases "v = w")
    case True
    from absorb_store_runs [of e fs v] Cons.prems we obtain fs1 where
      fs1: "absorb_store v e fs = Inr fs1" "set (fs_related fs1) = set (fs_related fs) \<union> vars_of e"
      "set_ok (fs_related fs1)" "om_ok (fs_varRelated fs1)" "fs_kQueryExpr fs1 = fs_kQueryExpr fs @ [e]"
      "entries_of (fs_varRelated fs1) = (entries_of (fs_varRelated fs))(v := entries_of (fs_varRelated fs) v \<union> vars_of e)"
      by auto
    from Cons.IH [of fs1] Cons.prems fs1 True show ?thesis unfolding we by (auto simp: store_edges_Cons Un_assoc fun_eq_iff)
  next
    case False
    from Cons.IH [of fs] Cons.prems False show ?thesis unfolding we by (auto simp: store_edges_Cons)
  qed
qed

lemma visit_related_runs:
  assumes inv: "relate_inv stores kq vr V fs" and "v \<notin> V"
  shows "\<exists>fs'. visit_related v fs = Inr fs' \<and> relate_inv stores kq vr (insert v V) fs' \<and>
    set (fs_related fs') = set (fs_related fs) \<union> store_edges stores v"
proof -
  let ?rem = "filter (\<lambda>ve. fst ve \<notin> V) stores"
  have edges: "store_edges ?rem v = store_edges stores v" using assms(2) by (auto simp: store_edges_def)
  have kept: "filter (\<lambda>ve. fst ve \<noteq> v) ?rem = filter (\<lambda>ve. fst ve \<notin> insert v V) stores"
    by (auto simp: conj_commute intro: filter_cong)
  have new: "filter (\<lambda>ve. fst ve = v) ?rem = filter (\<lambda>ve. fst ve = v) stores"
    using assms(2) by (auto intro: filter_cong)
  have split: "mset (map snd (filter (\<lambda>ve. fst ve \<in> insert v V) stores)) =
      mset (map snd (filter (\<lambda>ve. fst ve \<in> V) stores)) + mset (map snd (filter (\<lambda>ve. fst ve = v) stores))"
    using assms(2) by (induction stores) auto
  from scan_stores_runs [of ?rem fs v] inv obtain fs' where
    fs': "scan_stores v ?rem fs = Inr (filter (\<lambda>ve. fst ve \<notin> insert v V) stores, fs')"
      "set (fs_related fs') = set (fs_related fs) \<union> store_edges stores v"
      "set_ok (fs_related fs')" "om_ok (fs_varRelated fs')"
      "fs_kQueryExpr fs' = fs_kQueryExpr fs @ map snd (filter (\<lambda>ve. fst ve = v) stores)"
      "entries_of (fs_varRelated fs') = (entries_of (fs_varRelated fs))(v := entries_of (fs_varRelated fs) v \<union> store_edges stores v)"
    unfolding relate_inv_def edges kept new by (auto simp del: filter_filter)
  let ?fs = "fs'\<lparr>fs_remaining := filter (\<lambda>ve. fst ve \<notin> insert v V) stores\<rparr>"
  have "visit_related v fs = Inr ?fs" using fs'(1) inv by (simp add: visit_related_def relate_inv_def)
  moreover have "relate_inv stores kq vr (insert v V) ?fs"
    using inv fs'(3-6) assms(2) split by (auto simp: relate_inv_def)
  ultimately show ?thesis using fs'(2) by auto
qed

interpretation related: cursor_loop relate_loop visit_related fs_related "store_edges stores" "relate_inv stores kq vr"
    "set roots \<union> \<Union> (vars_of ` snd ` set stores)"
  for stores kq vr roots
proof unfold_locales
  show "relate_loop v fs = bind_outcome (visit_related v fs) (\<lambda>fs.
      case set_next v (fs_related fs) of None \<Rightarrow> Inr fs | Some w \<Rightarrow> relate_loop w fs)" for v fs
    by (rule relate_loop.simps)
  show "finite (set roots \<union> \<Union> (vars_of ` snd ` set stores))" by (simp add: vars_of_def)
  show "store_edges stores v \<subseteq> set roots \<union> \<Union> (vars_of ` snd ` set stores)" for v by (auto simp: store_edges_def)
  show "relate_inv stores kq vr V fs \<Longrightarrow> v \<notin> V \<Longrightarrow>
      \<exists>fs'. visit_related v fs = Inr fs' \<and> relate_inv stores kq vr (insert v V) fs' \<and>
        set (fs_related fs') = set (fs_related fs) \<union> store_edges stores v" for V fs v
    by (rule visit_related_runs)
qed (simp add: relate_inv_def)

subsection \<open>The related variables of one constraint\<close>

interpretation with_set: cursor_loop "\<lambda>v s. Inr (with_set_loop m v s)" "\<lambda>v s. Inr (visit_set m v s)" "\<lambda>s. s" "entries_of m"
    "\<lambda>V s. set_ok s" "set roots \<union> \<Union> (set ` snd ` set m)"
  for m roots
proof unfold_locales
  show "Inr (with_set_loop m v s) = bind_outcome (Inr (visit_set m v s)) (\<lambda>s.
      case set_next v s of None \<Rightarrow> Inr s | Some w \<Rightarrow> Inr (with_set_loop m w s))" for v s
    by (simp add: with_set_loop.simps [of m v s] Let_def split: option.split)
  show "entries_of m v \<subseteq> set roots \<union> \<Union> (set ` snd ` set m)" for v
    by (fastforce simp: entries_of_def split: option.splits dest: map_of_SomeD)
qed (auto simp: visit_set_def entries_of_def split: option.splits)

end
