(* ===== verification/Filter_Correct.thy ===== *)
theory Filter_Correct
  imports Symbolic_Filter
begin

text \<open>
  What the filters of \<open>Symbolic_Filter\<close> keep: the related variables against the closure of the variables of the
  branches and assertions under the stores of the run, the accesses and constraints that remain, the
  threads recorded for a variable, and the variables that taint can reach.
\<close>

section \<open>Entries of ordered maps\<close>

lemma om_put_last: "\<forall>x\<in>set m. fst x < k \<Longrightarrow> om_put k v m = m @ [(k, v)]"
  by (induction m) (auto simp: not_less_iff_gr_or_eq)

lemma om_find_absent: "\<forall>x\<in>set m. fst x < (k :: 'k :: linorder) \<Longrightarrow> om_find m k = None"
  by (force simp: map_of_eq_None_iff)

lemma keep_entries_filter: "om_ok m \<Longrightarrow> keep_entries related m = filter (\<lambda>(k, _). k \<in> set related) m"
proof -
  let ?step = "\<lambda>(k, v) kept. if k \<in> set related then om_insert k v kept else kept"
  have "fold ?step m kept = kept @ filter (\<lambda>(k, _). k \<in> set related) m"
    if "om_ok m" "\<forall>x\<in>set kept. \<forall>y\<in>set m. fst x < fst y" for kept
    using that
  proof (induction m arbitrary: kept)
    case (Cons kv m)
    obtain k v where kv: "kv = (k, v)" by (cases kv)
    have "\<forall>x\<in>set kept. fst x < k" using Cons.prems kv by auto
    with Cons kv show ?case
      by (auto simp: om_ok_def om_insert_def om_put_last om_find_absent)
  qed simp
  then show "om_ok m \<Longrightarrow> keep_entries related m = filter (\<lambda>(k, _). k \<in> set related) m"
    by (simp add: keep_entries_def)
qed

lemma insert_entries_same: "om_ok m \<Longrightarrow> insert_entries m [] = m"
proof -
  have "fold (\<lambda>(k, v). om_insert k v) m kept = kept @ m"
    if "om_ok m" "\<forall>x\<in>set kept. \<forall>y\<in>set m. fst x < fst y" for kept
    using that
  proof (induction m arbitrary: kept)
    case (Cons kv m)
    obtain k v where kv: "kv = (k, v)" by (cases kv)
    have "\<forall>x\<in>set kept. fst x < k" using Cons.prems kv by auto
    with Cons kv show ?case
      by (auto simp: om_ok_def om_insert_def om_put_last om_find_absent)
  qed simp
  then show "om_ok m \<Longrightarrow> insert_entries m [] = m" by (simp add: insert_entries_def)
qed

lemma om_ok_filter: "om_ok m \<Longrightarrow> om_ok (filter P m)"
  by (simp add: om_ok_def sorted_wrt_map sorted_wrt_filter)

lemma om_find_filter:
  "om_ok m \<Longrightarrow> om_find (filter (\<lambda>(k, _). k \<in> A) m) k = (if k \<in> A then om_find m k else None)"
  by (induction m) (auto simp: om_ok_def)


section \<open>Threads of a variable\<close>

text \<open>The id all accesses share, or 0.\<close>

definition common_thread :: "int list \<Rightarrow> int" where
  "common_thread ids = (if \<forall>i\<in>set ids. i = hd ids then hd ids else 0)"

definition thread_ids :: "event_heap \<Rightarrow> events_by_name \<Rightarrow> string \<Rightarrow> int list" where
  "thread_ids h accesses v =
     (case om_find accesses v of None \<Rightarrow> [] | Some es \<Rightarrow> map (\<lambda>e. uint (ev_threadId (h e))) es)"

lemma common_thread_append:
  "xs \<noteq> [] \<Longrightarrow> common_thread (xs @ ys) =
     (if common_thread xs \<noteq> 0 \<and> (\<exists>y\<in>set ys. common_thread xs \<noteq> y) then 0 else common_thread xs)"
  by (cases xs) (auto simp: common_thread_def ball_Un)

text \<open>\<open>varThread\<close> holds the common thread of the accesses seen so far.\<close>

definition threads_noted :: "(string \<Rightarrow> int list) \<Rightarrow> (string, int) ordered_map \<Rightarrow> bool" where
  "threads_noted ids vt \<longleftrightarrow>
     om_ok vt \<and> (\<forall>v. om_find vt v = (if ids v = [] then None else Some (common_thread (ids v))))"

lemma note_thread_runs:
  assumes "threads_noted ids vt" and "es \<noteq> []"
  shows "\<exists>vt'. note_thread h v es vt = Inr vt' \<and>
    threads_noted (ids(v := ids v @ map (\<lambda>e. uint (ev_threadId (h e))) es)) vt'"
proof (cases "ids v = []")
  case True
  with assms show ?thesis
    by (cases es) (auto simp: note_thread_def threads_noted_def om_find_put Let_def common_thread_def)
next
  case False
  with assms show ?thesis
    by (auto simp: note_thread_def threads_noted_def om_find_put Let_def common_thread_append)
qed

lemma note_accesses_runs:
  assumes "threads_noted ids vt" and "om_ok accesses" and "\<forall>es\<in>snd ` set accesses. es \<noteq> []"
  shows "\<exists>vt'. note_accesses h related accesses vt = Inr vt' \<and>
    threads_noted (\<lambda>v. ids v @ (if v \<in> set related then thread_ids h accesses v else [])) vt'"
  using assms
proof (induction accesses arbitrary: vt ids)
  case Nil
  then show ?case by (simp add: thread_ids_def cong: if_cong)
next
  case (Cons a accesses)
  obtain v es where a: "a = (v, es)" by (cases a)
  have ok: "om_ok accesses" and fresh: "om_find accesses v = None" and ne: "es \<noteq> []"
    using Cons.prems a by (auto simp: om_ok_def map_of_eq_None_iff)
  show ?case
  proof (cases "v \<in> set related")
    case True
    from note_thread_runs [OF Cons.prems(1) ne, of h v] obtain vt1 where vt1:
      "note_thread h v es vt = Inr vt1" "threads_noted (ids(v := ids v @ map (\<lambda>e. uint (ev_threadId (h e))) es)) vt1"
      by blast
    moreover have "(\<lambda>w. (ids(v := ids v @ map (\<lambda>e. uint (ev_threadId (h e))) es)) w @
          (if w \<in> set related then thread_ids h accesses w else [])) =
        (\<lambda>w. ids w @ (if w \<in> set related then thread_ids h (a # accesses) w else []))"
      using True fresh a by (auto simp: thread_ids_def fun_eq_iff)
    ultimately show ?thesis using Cons.IH [OF vt1(2) ok] Cons.prems(3) True a by auto
  next
    case False
    moreover have "(\<lambda>w. ids w @ (if w \<in> set related then thread_ids h accesses w else [])) =
        (\<lambda>w. ids w @ (if w \<in> set related then thread_ids h (a # accesses) w else []))"
      using False a by (auto simp: thread_ids_def fun_eq_iff)
    ultimately show ?thesis using Cons.IH [OF Cons.prems(1) ok] Cons.prems(3) a by auto
  qed
qed

lemma om_find_only_written:
  "om_find (only_written w vt) v = map_option (\<lambda>t. if om_find w v = None then - 1 else t) (om_find vt v)"
  by (induction vt) (auto simp: only_written_def)



section \<open>The related variables\<close>

lemma resolve_all_runs:
  assumes "\<forall>e\<in>set es. names_ok e" and "set_ok s"
  shows "\<exists>temps s'. resolve_all es s = Inr (temps, s') \<and> set_ok s' \<and> set s' = set s \<union> \<Union> (vars_of ` set es)"
  using assms
proof (induction es arbitrary: s)
  case (Cons e es)
  from resolveSymbolicExpr_resolves [of e "[]"] Cons.prems(1) obtain temp where
    temp: "resolveSymbolicExpr e [] = Inr temp" "set temp = vars_of e" by (auto simp: resolves_def)
  from Cons.IH [of "addExprToSet temp s"] Cons.prems temp show ?case by auto
qed simp

definition constrained :: "expr \<Rightarrow> string" where
  "constrained e = (case constrained_var e of Inr v \<Rightarrow> v | Inl _ \<Rightarrow> [])"

definition constraint_ok :: "expr \<Rightarrow> bool" where
  "constraint_ok e \<longleftrightarrow> constrained_var e = Inr (constrained e)"

lemma name_stores_runs:
  "\<forall>e\<in>set es. constraint_ok e \<Longrightarrow> name_stores es = Inr (map (\<lambda>e. (constrained e, e)) es)"
  by (induction es) (auto simp: constraint_ok_def)

lemma keep_constraints_runs:
  "\<forall>e\<in>set es. constraint_ok e \<Longrightarrow>
     keep_constraints related es = Inr (filter (\<lambda>e. constrained e \<in> set related) es)"
  by (induction es) (auto simp: constraint_ok_def)

text \<open>What the branches and assertions mention, and what a store makes a variable depend on.\<close>

definition related_roots :: "trace \<Rightarrow> string set" where
  "related_roots tr = \<Union> (vars_of ` (set (tr_brSymbolicExpr tr) \<union> set (tr_assertSymbolicExpr tr)))"

definition depends_on :: "trace \<Rightarrow> string \<Rightarrow> string set" where
  "depends_on tr v = \<Union> (vars_of ` {e \<in> set (tr_storeSymbolicExpr tr). constrained e = v})"

definition related_closure :: "trace \<Rightarrow> string set" where
  "related_closure tr = (edge_rel (depends_on tr))\<^sup>* `` related_roots tr"

definition relate_ready :: "trace \<Rightarrow> bool" where
  "relate_ready tr \<longleftrightarrow>
     (\<forall>e\<in>set (tr_storeSymbolicExpr tr). names_ok e \<and> constraint_ok e) \<and>
     (\<forall>e\<in>set (tr_brSymbolicExpr tr) \<union> set (tr_assertSymbolicExpr tr). names_ok e) \<and>
     om_ok (tr_varRelatedSymbolicExpr tr)"

lemma store_edges_depends:
  "store_edges (map (\<lambda>e. (constrained e, e)) (tr_storeSymbolicExpr tr)) = depends_on tr"
  by (force simp: store_edges_def depends_on_def fun_eq_iff)

text \<open>\<open>R\<close> and \<open>kq\<close> are the related variables and the constraints, \<open>V\<close> the variables the loop visited.\<close>

definition related_result :: "trace \<Rightarrow> string set \<Rightarrow> string ordered_set \<Rightarrow> expr list \<Rightarrow> bool" where
  "related_result tr V R kq \<longleftrightarrow>
     related_roots tr \<subseteq> V \<and> V \<subseteq> set R \<and> set R = related_roots tr \<union> \<Union> (depends_on tr ` V) \<and>
     set R \<subseteq> related_closure tr \<and> set_ok R \<and>
     mset kq = mset (tr_kQueryExpr tr) + mset (filter (\<lambda>e. constrained e \<in> V) (tr_storeSymbolicExpr tr)) \<and>
     ((\<forall>v w. w \<in> depends_on tr v \<longrightarrow> v \<le> w \<or> w \<in> related_roots tr) \<longrightarrow> V = set R \<and> set R = related_closure tr)"

lemma relate_stores_runs:
  assumes "relate_ready tr" and "set_ok s" and "set s = related_roots tr"
  shows "\<exists>fs V. relate_stores \<lparr>fs_remaining = map (\<lambda>e. (constrained e, e)) (tr_storeSymbolicExpr tr),
      fs_kQueryExpr = tr_kQueryExpr tr, fs_varRelated = tr_varRelatedSymbolicExpr tr, fs_related = s\<rparr> = Inr fs \<and>
    related_result tr V (fs_related fs) (fs_kQueryExpr fs) \<and> om_ok (fs_varRelated fs) \<and>
    (\<forall>v. entries_of (fs_varRelated fs) v =
       entries_of (tr_varRelatedSymbolicExpr tr) v \<union> (if v \<in> V then depends_on tr v else {}))"
proof -
  let ?stores = "map (\<lambda>e. (constrained e, e)) (tr_storeSymbolicExpr tr)"
  let ?fs = "\<lparr>fs_remaining = ?stores, fs_kQueryExpr = tr_kQueryExpr tr,
      fs_varRelated = tr_varRelatedSymbolicExpr tr, fs_related = s\<rparr>"
  let ?inv = "relate_inv ?stores (tr_kQueryExpr tr) (tr_varRelatedSymbolicExpr tr)"
  have kq: "map snd (filter (\<lambda>ve. fst ve \<in> V) ?stores) = filter (\<lambda>e. constrained e \<in> V) (tr_storeSymbolicExpr tr)" for V
    by (simp add: filter_map comp_def)
  have inv: "?inv {} ?fs" using assms by (auto simp: relate_inv_def relate_ready_def)
  show ?thesis
  proof (cases s)
    case Nil
    then have roots: "related_roots tr = {}" using assms(3) by simp
    with Nil assms show ?thesis
      by (intro exI [of _ ?fs] exI [of _ "{}"])
         (simp add: relate_stores_def related_result_def related_closure_def relate_ready_def)
  next
    case (Cons v vs)
    have first: "fs_related ?fs = v # vs" "set (fs_related ?fs) \<subseteq> set s \<union> \<Union> (vars_of ` snd ` set ?stores)"
      using Cons by auto
    from related.loop_from_start [OF inv first]
    obtain fs V where fs: "relate_loop v ?fs = Inr fs" "?inv V fs" "set s \<subseteq> V" "V \<subseteq> set (fs_related fs)"
      "set (fs_related fs) = set s \<union> \<Union> (store_edges ?stores ` V)"
      "set (fs_related fs) \<subseteq> (edge_rel (store_edges ?stores))\<^sup>* `` set s"
      "(\<forall>x y. y \<in> store_edges ?stores x \<longrightarrow> x \<le> y \<or> y \<in> set s) \<longrightarrow>
         V = set (fs_related fs) \<and> set (fs_related fs) = (edge_rel (store_edges ?stores))\<^sup>* `` set s"
      unfolding filter_state.select_convs by (elim exE conjE) (rule that; assumption)
    from fs(2-7) have "related_result tr V (fs_related fs) (fs_kQueryExpr fs)"
      unfolding store_edges_depends assms(3) related_result_def related_closure_def relate_inv_def kq by blast
    moreover from fs(2) have "om_ok (fs_varRelated fs)" "\<forall>v. entries_of (fs_varRelated fs) v =
        entries_of (tr_varRelatedSymbolicExpr tr) v \<union> (if v \<in> V then depends_on tr v else {})"
      unfolding relate_inv_def store_edges_depends by blast+
    ultimately show ?thesis using fs(1) Cons by (auto simp: relate_stores_def)
  qed
qed

lemma relate_runs:
  assumes "relate_ready tr"
  shows "\<exists>R tr' V. relate tr = Inr (R, tr') \<and> related_result tr V R (tr_kQueryExpr tr') \<and>
    tr_readSet tr' = tr_readSet tr \<and> tr_writeSet tr' = tr_writeSet tr \<and> tr_varThread tr' = tr_varThread tr \<and>
    tr_rwSymbolicExpr tr' = tr_rwSymbolicExpr tr \<and> tr_allReadSet tr' = tr_allReadSet tr \<and>
    tr_allWriteSet tr' = tr_allWriteSet tr \<and> tr_path tr' = tr_path tr \<and>
    tr_global_variable_initializer tr' = tr_global_variable_initializer tr \<and>
    om_ok (tr_varRelatedSymbolicExpr tr') \<and>
    (\<forall>v. entries_of (tr_varRelatedSymbolicExpr tr') v =
       entries_of (tr_varRelatedSymbolicExpr tr) v \<union> (if v \<in> V then depends_on tr v else {}))"
proof -
  have names: "name_stores (tr_storeSymbolicExpr tr) = Inr (map (\<lambda>e. (constrained e, e)) (tr_storeSymbolicExpr tr))"
    using assms by (intro name_stores_runs) (auto simp: relate_ready_def)
  from resolve_all_runs [of "tr_brSymbolicExpr tr" "[]"] assms obtain brs s1 where
    br: "resolve_all (tr_brSymbolicExpr tr) [] = Inr (brs, s1)" "set_ok s1" "set s1 = \<Union> (vars_of ` set (tr_brSymbolicExpr tr))"
    by (auto simp: relate_ready_def)
  from resolve_all_runs [of "tr_assertSymbolicExpr tr" s1] assms br obtain asserts s2 where
    as: "resolve_all (tr_assertSymbolicExpr tr) s1 = Inr (asserts, s2)" "set_ok s2" "set s2 = related_roots tr"
    by (auto simp: relate_ready_def related_roots_def)
  from relate_stores_runs [OF assms as(2,3)] names br(1) as(1) show ?thesis
    by (auto simp: relate_def)
qed



section \<open>The accesses and constraints that are kept\<close>

definition accesses_ready :: "trace \<Rightarrow> bool" where
  "accesses_ready tr \<longleftrightarrow>
     om_ok (tr_readSet tr) \<and> om_ok (tr_writeSet tr) \<and> om_ok (tr_global_variable_initializer tr) \<and>
     (\<forall>es\<in>snd ` set (tr_readSet tr). es \<noteq> []) \<and> (\<forall>es\<in>snd ` set (tr_writeSet tr). es \<noteq> []) \<and>
     tr_varThread tr = [] \<and> (\<forall>e\<in>set (tr_kQueryExpr tr) \<union> set (tr_rwSymbolicExpr tr). constraint_ok e)"

lemma keep_accesses_runs:
  assumes "accesses_ready tr"
  shows "\<exists>vt. keep_accesses h R tr =
      Inr (tr\<lparr>tr_allReadSet := insert_entries (tr_readSet tr) (tr_allReadSet tr),
              tr_allWriteSet := insert_entries (tr_writeSet tr) (tr_allWriteSet tr),
              tr_readSet := filter (\<lambda>(k, _). k \<in> set R) (tr_readSet tr),
              tr_writeSet := filter (\<lambda>(k, _). k \<in> set R) (tr_writeSet tr),
              tr_varThread := only_written (filter (\<lambda>(k, _). k \<in> set R) (tr_writeSet tr)) vt\<rparr>) \<and>
    threads_noted (\<lambda>v. if v \<in> set R then thread_ids h (tr_readSet tr) v @ thread_ids h (tr_writeSet tr) v else []) vt"
proof -
  note ok = assms [unfolded accesses_ready_def]
  have "threads_noted (\<lambda>_. []) (tr_varThread tr)" using ok by (simp add: threads_noted_def)
  from note_accesses_runs [OF this, of "tr_readSet tr" h R] ok obtain vt1 where
    vt1: "note_accesses h R (tr_readSet tr) (tr_varThread tr) = Inr vt1"
      "threads_noted (\<lambda>v. if v \<in> set R then thread_ids h (tr_readSet tr) v else []) vt1" by auto
  from note_accesses_runs [OF vt1(2), of "tr_writeSet tr" h R] ok obtain vt2 where
    vt2: "note_accesses h R (tr_writeSet tr) vt1 = Inr vt2"
      "threads_noted (\<lambda>v. (if v \<in> set R then thread_ids h (tr_readSet tr) v else []) @
         (if v \<in> set R then thread_ids h (tr_writeSet tr) v else [])) vt2" by auto
  have "(\<lambda>v. (if v \<in> set R then thread_ids h (tr_readSet tr) v else []) @
         (if v \<in> set R then thread_ids h (tr_writeSet tr) v else [])) =
    (\<lambda>v. if v \<in> set R then thread_ids h (tr_readSet tr) v @ thread_ids h (tr_writeSet tr) v else [])"
    by (simp add: fun_eq_iff)
  with vt1 vt2 ok show ?thesis
    by (auto simp: keep_accesses_def Let_def keep_entries_filter insert_entries_same om_ok_filter)
qed

lemma filterUseless_runs:
  assumes "relate_ready tr" and "accesses_ready tr"
  shows "\<exists>R h' tr' V vt. filterUseless isAccess h tr = Inr (R, h', tr') \<and>
    related_result tr V R (tr_kQueryExpr tr') \<and>
    tr_readSet tr' = filter (\<lambda>(k, _). k \<in> set R) (tr_readSet tr) \<and>
    tr_writeSet tr' = filter (\<lambda>(k, _). k \<in> set R) (tr_writeSet tr) \<and>
    tr_rwSymbolicExpr tr' = filter (\<lambda>e. constrained e \<in> set R) (tr_rwSymbolicExpr tr) \<and>
    tr_usefulkQueryExpr tr' = filter (\<lambda>e. constrained e \<in> set R) (tr_kQueryExpr tr') \<and>
    tr_varThread tr' = only_written (tr_writeSet tr') vt \<and>
    threads_noted (\<lambda>v. if v \<in> set R then thread_ids h (tr_readSet tr) v @ thread_ids h (tr_writeSet tr) v else []) vt \<and>
    om_ok (tr_varRelatedSymbolicExpr tr') \<and>
    (\<forall>v. entries_of (tr_varRelatedSymbolicExpr tr') v =
       entries_of (tr_varRelatedSymbolicExpr tr) v \<union> (if v \<in> V then depends_on tr v else {}))"
proof -
  from relate_runs [OF assms(1)] obtain R tr1 V where
    R: "relate tr = Inr (R, tr1)" "related_result tr V R (tr_kQueryExpr tr1)"
      "tr_readSet tr1 = tr_readSet tr" "tr_writeSet tr1 = tr_writeSet tr" "tr_varThread tr1 = tr_varThread tr"
      "tr_rwSymbolicExpr tr1 = tr_rwSymbolicExpr tr"
      "tr_global_variable_initializer tr1 = tr_global_variable_initializer tr"
      "om_ok (tr_varRelatedSymbolicExpr tr1)" "\<forall>v. entries_of (tr_varRelatedSymbolicExpr tr1) v =
       entries_of (tr_varRelatedSymbolicExpr tr) v \<union> (if v \<in> V then depends_on tr v else {})"
    by blast
  have "mset (tr_kQueryExpr tr1) =
      mset (tr_kQueryExpr tr @ filter (\<lambda>e. constrained e \<in> V) (tr_storeSymbolicExpr tr))"
    using R(2) by (simp add: related_result_def)
  then have "set (tr_kQueryExpr tr1) = set (tr_kQueryExpr tr @ filter (\<lambda>e. constrained e \<in> V) (tr_storeSymbolicExpr tr))"
    by (rule mset_eq_setD)
  then have kq: "\<forall>e\<in>set (tr_kQueryExpr tr1). constraint_ok e"
    using assms by (auto simp: relate_ready_def accesses_ready_def)
  then have ready: "accesses_ready tr1" using assms(2) R(3-7) by (auto simp: accesses_ready_def)
  from keep_accesses_runs [OF this, of h R, unfolded R(3,4)] obtain vt where
    ka: "keep_accesses h R tr1 = Inr (tr1\<lparr>tr_allReadSet := insert_entries (tr_readSet tr) (tr_allReadSet tr1),
        tr_allWriteSet := insert_entries (tr_writeSet tr) (tr_allWriteSet tr1),
        tr_readSet := filter (\<lambda>(k, _). k \<in> set R) (tr_readSet tr),
        tr_writeSet := filter (\<lambda>(k, _). k \<in> set R) (tr_writeSet tr),
        tr_varThread := only_written (filter (\<lambda>(k, _). k \<in> set R) (tr_writeSet tr)) vt\<rparr>)"
      "threads_noted (\<lambda>v. if v \<in> set R then thread_ids h (tr_readSet tr) v @ thread_ids h (tr_writeSet tr) v else []) vt"
    by blast
  have rw: "keep_constraints R (tr_rwSymbolicExpr tr) = Inr (filter (\<lambda>e. constrained e \<in> set R) (tr_rwSymbolicExpr tr))"
    using assms(2) by (intro keep_constraints_runs) (auto simp: accesses_ready_def)
  let ?tr = "tr1\<lparr>tr_allReadSet := insert_entries (tr_readSet tr) (tr_allReadSet tr1),
    tr_allWriteSet := insert_entries (tr_writeSet tr) (tr_allWriteSet tr1),
    tr_readSet := filter (\<lambda>(k, _). k \<in> set R) (tr_readSet tr),
    tr_writeSet := filter (\<lambda>(k, _). k \<in> set R) (tr_writeSet tr),
    tr_varThread := only_written (filter (\<lambda>(k, _). k \<in> set R) (tr_writeSet tr)) vt,
    tr_global_variable_initializer := insert_entries (keep_entries R (tr_global_variable_initializer tr)) [],
    tr_rwSymbolicExpr := filter (\<lambda>e. constrained e \<in> set R) (tr_rwSymbolicExpr tr)\<rparr>"
  let ?h = "mark_events isAccess R (tr_path tr1) h"
  have kqs: "keep_constraints R (tr_kQueryExpr tr1) = Inr (filter (\<lambda>e. constrained e \<in> set R) (tr_kQueryExpr tr1))"
    using kq by (rule keep_constraints_runs)
  have "filterUseless isAccess h tr = bind_outcome (fillterTrace isAccess R ?h ?tr) (\<lambda>(h, tr). Inr (R, h, tr))"
    by (simp add: filterUseless_def R(1,6,7) ka(1) rw Let_def)
  then have run: "filterUseless isAccess h tr = Inr (R, mark_accesses isAccess R (tr_path tr1) ?h,
      ?tr\<lparr>tr_usefulkQueryExpr := filter (\<lambda>e. constrained e \<in> set R) (tr_kQueryExpr tr1),
         tr_usefulReadSet := keep_entries R (tr_readSet ?tr), tr_usefulWriteSet := keep_entries R (tr_writeSet ?tr),
         tr_useful_global_variable_initializer := keep_entries R (tr_global_variable_initializer ?tr)\<rparr>)"
    by (simp add: fillterTrace_def kqs)
  show ?thesis
    by (rule exI, rule exI, rule exI, rule exI [of _ V], rule exI [of _ vt], rule conjI, rule run)
       (use R(2,8,9) ka(2) in simp)
qed



section \<open>Taint\<close>

text \<open>An untainted variable is reached from a tainted one that its stores mention.\<close>

definition taint_step :: "(string, string ordered_set) ordered_map \<Rightarrow> string set \<Rightarrow> (string \<times> string) set" where
  "taint_step m U = {(v, u). u \<in> U \<and> v \<in> entries_of m u}"

lemma taint_scan_runs:
  assumes "length taint + length us \<le> c"
  shows "taint_scan m c v us taint =
    Inr (filter (\<lambda>u. v \<notin> entries_of m u) us, taint @ filter (\<lambda>u. v \<in> entries_of m u) us)"
  using assms
  by (induction us arbitrary: taint) (auto simp: entries_of_def split: option.splits)

text \<open>The worklist \<open>taint\<close> is closed under steps from its first \<open>i\<close> entries.\<close>

definition taint_inv ::
  "(string, string ordered_set) ordered_map \<Rightarrow> string set \<Rightarrow> string set \<Rightarrow> nat \<Rightarrow> string list \<Rightarrow> string list \<Rightarrow> bool" where
  "taint_inv m T U i us taint \<longleftrightarrow>
     i \<le> length taint \<and> T \<subseteq> set taint \<and> set taint \<subseteq> (taint_step m U)\<^sup>* `` T \<and> set us \<subseteq> U \<and> U \<subseteq> set us \<union> set taint \<and>
     (\<forall>v\<in>set (take i taint). \<forall>u\<in>set us. v \<notin> entries_of m u)"

lemma taint_inv_step:
  assumes inv: "taint_inv m T U i us taint" and i: "i < length taint"
  shows "taint_inv m T U (Suc i) (filter (\<lambda>u. taint ! i \<notin> entries_of m u) us)
    (taint @ filter (\<lambda>u. taint ! i \<in> entries_of m u) us)"
proof -
  have "u \<in> (taint_step m U)\<^sup>* `` T" if "u \<in> set us" "taint ! i \<in> entries_of m u" for u
  proof -
    have "set taint \<subseteq> (taint_step m U)\<^sup>* `` T" using inv by (simp add: taint_inv_def)
    with nth_mem [OF i] obtain t where "t \<in> T" "(t, taint ! i) \<in> (taint_step m U)\<^sup>*" by blast
    moreover have "(taint ! i, u) \<in> taint_step m U" using inv that by (auto simp: taint_step_def taint_inv_def)
    ultimately show ?thesis by (blast intro: rtrancl_into_rtrancl)
  qed
  then show ?thesis
    using inv i by (auto simp: taint_inv_def take_Suc_conv_app_nth)
qed

lemma taint_loop_runs:
  assumes "taint_inv m T U i us taint" and "length taint + length us \<le> c"
  shows "\<exists>taint'. taint_loop m c i us taint = Inr taint' \<and> set taint' = (taint_step m U)\<^sup>* `` T"
  using assms
proof (induction m c i us taint rule: taint_loop.induct)
  case (1 m c i us taint)
  show ?case
  proof (cases "i < length taint")
    case True
    let ?us = "filter (\<lambda>u. taint ! i \<notin> entries_of m u) us"
    let ?taint = "taint @ filter (\<lambda>u. taint ! i \<in> entries_of m u) us"
    have scan: "taint_scan m c (taint ! i) us taint = Inr (?us, ?taint)"
      using "1.prems"(2) by (rule taint_scan_runs)
    then have "length ?us + length ?taint = length us + length taint" by (rule taint_scan_length)
    with 1(1) [OF True scan refl] taint_inv_step [OF "1.prems"(1) True] "1.prems"(2) scan True show ?thesis
      by (simp add: taint_loop.simps [of m c i us taint])
  next
    case False
    with "1.prems"(1) have all: "\<forall>v\<in>set taint. \<forall>u\<in>set us. v \<notin> entries_of m u" by (simp add: taint_inv_def)
    have "y \<in> set taint" if "(x, y) \<in> (taint_step m U)\<^sup>*" "x \<in> T" for x y
      using that
    proof (induction rule: rtrancl_induct)
      case (step y z)
      then show ?case using "1.prems"(1) all by (auto simp: taint_step_def taint_inv_def)
    qed (use "1.prems"(1) in \<open>auto simp: taint_inv_def\<close>)
    then have "set taint = (taint_step m U)\<^sup>* `` T" using "1.prems"(1) by (auto simp: taint_inv_def)
    with False show ?thesis by (simp add: taint_loop.simps [of m c i us taint])
  qed
qed

lemma set_potential:
  "set (fold (\<lambda>v s. if v \<in> A then s else set_insert v s) vs s) = set s \<union> (set vs - A)"
  by (induction vs arbitrary: s) auto


subsection \<open>Variables shared between threads\<close>

definition shared_or_unknown :: "(string, int) ordered_map \<Rightarrow> string \<Rightarrow> bool" where
  "shared_or_unknown vt v \<longleftrightarrow> om_find vt v = None \<or> om_find vt v = Some 0"

lemma any_shared_iff: "fst (any_shared vs vt) \<longleftrightarrow> (\<exists>v\<in>set vs. shared_or_unknown vt v)"
  by (induction vs vt rule: any_shared.induct) (auto simp: shared_or_unknown_def split: option.splits)

lemma with_set_result:
  fixes m :: "(string, string ordered_set) ordered_map"
  assumes "set_ok s"
  defines "R \<equiv> (case s of [] \<Rightarrow> [] | v # _ \<Rightarrow> with_set_loop m v s)"
  shows "set s \<subseteq> set R \<and> set R \<subseteq> (edge_rel (entries_of m))\<^sup>* `` set s \<and>
    ((\<forall>v w. w \<in> entries_of m v \<longrightarrow> v \<le> w \<or> w \<in> set s) \<longrightarrow> set R = (edge_rel (entries_of m))\<^sup>* `` set s)"
proof (cases s)
  case (Cons v vs)
  have "set s \<subseteq> set s \<union> \<Union> (set ` snd ` set m)" by blast
  from with_set.loop_from_start [OF assms(1) Cons this] Cons show ?thesis by (auto simp: R_def)
qed (simp add: R_def)


section \<open>Properties\<close>

text \<open>
  (C6) The filter returns; it keeps the variables of the branches and assertions and nothing outside their
  closure under the stores, with the reads, writes and constraints of the variables it keeps. It keeps
  the whole closure when no store makes a variable depend on one with a smaller name.
\<close>

theorem filterUseless_keeps_dependencies:
  assumes "relate_ready tr" and "accesses_ready tr"
  shows "\<exists>R h' tr'. filterUseless isAccess h tr = Inr (R, h', tr') \<and>
    related_roots tr \<subseteq> set R \<and> set R \<subseteq> related_closure tr \<and>
    tr_readSet tr' = filter (\<lambda>(v, _). v \<in> set R) (tr_readSet tr) \<and>
    tr_writeSet tr' = filter (\<lambda>(v, _). v \<in> set R) (tr_writeSet tr) \<and>
    (\<forall>e\<in>set (tr_storeSymbolicExpr tr). constrained e \<in> related_roots tr \<longrightarrow> e \<in> set (tr_kQueryExpr tr')) \<and>
    ((\<forall>v w. w \<in> depends_on tr v \<longrightarrow> v \<le> w \<or> w \<in> related_roots tr) \<longrightarrow>
       set R = related_closure tr \<and>
       mset (tr_kQueryExpr tr') =
         mset (tr_kQueryExpr tr) + mset (filter (\<lambda>e. constrained e \<in> related_closure tr) (tr_storeSymbolicExpr tr)))"
proof -
  from filterUseless_runs [OF assms, of isAccess h] obtain R h' tr' V where
    run: "filterUseless isAccess h tr = Inr (R, h', tr')" "related_result tr V R (tr_kQueryExpr tr')"
      "tr_readSet tr' = filter (\<lambda>(v, _). v \<in> set R) (tr_readSet tr)"
      "tr_writeSet tr' = filter (\<lambda>(v, _). v \<in> set R) (tr_writeSet tr)" by blast
  have kq: "mset (tr_kQueryExpr tr') = mset (tr_kQueryExpr tr @ filter (\<lambda>e. constrained e \<in> V) (tr_storeSymbolicExpr tr))"
    using run(2) by (simp add: related_result_def)
  have "e \<in> set (tr_kQueryExpr tr')" if "e \<in> set (tr_storeSymbolicExpr tr)" "constrained e \<in> related_roots tr" for e
    using mset_eq_setD [OF kq] that run(2) by (auto simp: related_result_def)
  moreover have "(\<forall>v w. w \<in> depends_on tr v \<longrightarrow> v \<le> w \<or> w \<in> related_roots tr) \<longrightarrow>
       set R = related_closure tr \<and>
       mset (tr_kQueryExpr tr') =
         mset (tr_kQueryExpr tr) + mset (filter (\<lambda>e. constrained e \<in> related_closure tr) (tr_storeSymbolicExpr tr))"
    using run(2) unfolding related_result_def by metis
  moreover have "related_roots tr \<subseteq> set R" "set R \<subseteq> related_closure tr"
    using run(2) unfolding related_result_def by blast+
  ultimately show ?thesis using run(1,3,4)
    by (intro exI [of _ R] exI [of _ h'] exI [of _ tr']) simp
qed

text \<open>A store \<open>Eq(value, symbolic)\<close> of the value read by \<open>r\<close>.\<close>

definition sample_store :: "string \<Rightarrow> string \<Rightarrow> expr" where
  "sample_store r w = BinaryExpr EqExpr (sample_read r) (sample_read w)"

definition upward_trace :: trace where
  "upward_trace = new_Trace\<lparr>tr_brSymbolicExpr := [sample_read ''G1L1''],
     tr_storeSymbolicExpr := [sample_store ''G3L1'' ''G1S1'', sample_store ''G5L1'' ''G3S1'']\<rparr>"

definition downward_trace :: trace where
  "downward_trace = new_Trace\<lparr>tr_brSymbolicExpr := [sample_read ''G5L1''],
     tr_storeSymbolicExpr := [sample_store ''G3L1'' ''G5S1'', sample_store ''G1L1'' ''G3S1'']\<rparr>"


lemma sample_names: "names_ok (sample_read n) \<longleftrightarrow> well_named n" "vars_of (sample_read n) = {var_part n}"
  "names_ok (sample_store r w) \<longleftrightarrow> well_named r \<and> well_named w" "vars_of (sample_store r w) = {var_part r, var_part w}"
  by (auto simp: names_ok_def vars_of_def sample_store_def sample_read_def)

lemma sample_constrained: "well_named w \<Longrightarrow> constrained_var (sample_store r w) = Inr (var_part w)"
  by (simp add: constrained_var_def sample_store_def sample_read_def getVarName_def getVarName_string_eq)

lemma sample_constraint: "well_named w \<Longrightarrow> constraint_ok (sample_store r w)" "well_named w \<Longrightarrow> constrained (sample_store r w) = var_part w"
  by (simp_all add: constraint_ok_def constrained_def sample_constrained)

lemmas sample_simps = sample_names sample_constraint well_named_def var_part_def separator_def

theorem filterUseless_keeps_dependencies_witness:
  "\<exists>R h' tr'. filterUseless (\<lambda>_. True) (\<lambda>_. sample_event 0 True) upward_trace = Inr (R, h', tr') \<and>
     ''G1'' \<in> set R \<and> sample_store ''G3L1'' ''G1S1'' \<in> set (tr_kQueryExpr tr')"
proof -
  have ready: "relate_ready upward_trace" "accesses_ready upward_trace" and roots: "related_roots upward_trace = {''G1''}"
    by (auto simp: relate_ready_def accesses_ready_def related_roots_def upward_trace_def new_Trace_def sample_simps)
  have store: "sample_store ''G3L1'' ''G1S1'' \<in> set (tr_storeSymbolicExpr upward_trace)"
    "constrained (sample_store ''G3L1'' ''G1S1'') = ''G1''"
    by (simp_all add: upward_trace_def sample_simps)
  from filterUseless_keeps_dependencies [OF ready, of "\<lambda>_. True" "\<lambda>_. sample_event 0 True"] obtain R h' tr' where
    "filterUseless (\<lambda>_. True) (\<lambda>_. sample_event 0 True) upward_trace = Inr (R, h', tr')" "related_roots upward_trace \<subseteq> set R"
    "\<forall>e\<in>set (tr_storeSymbolicExpr upward_trace). constrained e \<in> related_roots upward_trace \<longrightarrow> e \<in> set (tr_kQueryExpr tr')"
    by blast
  with store roots show ?thesis by (intro exI [of _ R] exI [of _ h'] exI [of _ tr']) simp
qed


text \<open>
  After the filter, \<open>varThread\<close> of a kept variable is the id of the only thread that accesses it, 0 when
  several do, and -1 when no thread writes it.
\<close>

theorem varThread_classifies:
  assumes "relate_ready tr" and "accesses_ready tr" and "filterUseless isAccess h tr = Inr (R, h', tr')"
  shows "om_find (tr_varThread tr') v =
    (if v \<notin> set R \<or> thread_ids h (tr_readSet tr) v @ thread_ids h (tr_writeSet tr) v = [] then None
     else if om_find (tr_writeSet tr) v = None then Some (- 1)
     else Some (common_thread (thread_ids h (tr_readSet tr) v @ thread_ids h (tr_writeSet tr) v)))"
proof -
  from filterUseless_runs [OF assms(1,2), of isAccess h] assms(3) obtain vt where
    "tr_writeSet tr' = filter (\<lambda>(k, _). k \<in> set R) (tr_writeSet tr)" "tr_varThread tr' = only_written (tr_writeSet tr') vt"
    "threads_noted (\<lambda>v. if v \<in> set R then thread_ids h (tr_readSet tr) v @ thread_ids h (tr_writeSet tr) v else []) vt"
    by auto
  moreover have "om_ok (tr_writeSet tr)" using assms(2) by (simp add: accesses_ready_def)
  ultimately show ?thesis
    by (simp add: om_find_only_written om_find_filter threads_noted_def)
qed

definition accessed_trace :: trace where
  "accessed_trace = new_Trace\<lparr>tr_brSymbolicExpr := [sample_read ''G1L1''], tr_readSet := [(''G1'', [1])],
     tr_writeSet := [(''G1'', [2])]\<rparr>"

theorem varThread_classifies_witness:
  "\<exists>R h' tr'. filterUseless (\<lambda>_. True) (\<lambda>e. (sample_event 0 True)\<lparr>ev_threadId := of_nat e\<rparr>) accessed_trace = Inr (R, h', tr') \<and>
     om_find (tr_varThread tr') ''G1'' = Some 0"
proof -
  let ?h = "\<lambda>e. (sample_event 0 True)\<lparr>ev_threadId := of_nat e\<rparr>"
  let ?run = "filterUseless (\<lambda>_. True) ?h accessed_trace"
  have "case ?run of Inr (R, h', tr') \<Rightarrow> R = [''G1''] | Inl _ \<Rightarrow> False" by code_simp
  then obtain h' tr' where run: "?run = Inr ([''G1''], h', tr')" by (auto split: sum.splits)
  moreover have "relate_ready accessed_trace" "accesses_ready accessed_trace"
    by (auto simp: relate_ready_def accesses_ready_def accessed_trace_def new_Trace_def sample_simps om_ok_def)
  ultimately have "om_find (tr_varThread tr') ''G1'' = Some 0"
    by (subst varThread_classifies [OF _ _ run])
       (simp_all add: accessed_trace_def new_Trace_def thread_ids_def common_thread_def)
  with run show ?thesis by blast
qed


text \<open>
  (C24) The filter for one constraint explores its variables and at most what they depend on, all of it when
  no dependency leads to a smaller name, and answers yes exactly when an explored variable is
  shared or was never accessed.
\<close>

theorem filterUselessWithSet_shared:
  assumes "filterUselessWithSet vars tr = (branch, tr')"
  shows "set vars \<subseteq> set (tr_RelatedSymbolicExpr tr') \<and>
    set (tr_RelatedSymbolicExpr tr') \<subseteq> (edge_rel (entries_of (tr_varRelatedSymbolicExpr tr)))\<^sup>* `` set vars \<and>
    ((\<forall>v w. w \<in> entries_of (tr_varRelatedSymbolicExpr tr) v \<longrightarrow> v \<le> w \<or> w \<in> set vars) \<longrightarrow>
       set (tr_RelatedSymbolicExpr tr') = (edge_rel (entries_of (tr_varRelatedSymbolicExpr tr)))\<^sup>* `` set vars) \<and>
    (branch \<longleftrightarrow> (\<exists>v\<in>set (tr_RelatedSymbolicExpr tr'). shared_or_unknown (tr_varThread tr) v))"
proof -
  let ?s = "addExprToSet vars []"
  let ?R = "case ?s of [] \<Rightarrow> [] | v # _ \<Rightarrow> with_set_loop (tr_varRelatedSymbolicExpr tr) v ?s"
  have "tr_RelatedSymbolicExpr tr' = ?R" "branch = fst (any_shared ?R (tr_varThread tr))"
    using assms by (auto simp: filterUselessWithSet_def Let_def split: prod.splits)
  with with_set_result [of ?s "tr_varRelatedSymbolicExpr tr"] show ?thesis
    by (simp add: any_shared_iff)
qed

theorem filterUselessWithSet_shared_witness:
  "fst (filterUselessWithSet [''G1''] (new_Trace\<lparr>tr_varThread := [(''G1'', 0)]\<rparr>))"
  using filterUselessWithSet_shared [of "[''G1'']" "new_Trace\<lparr>tr_varThread := [(''G1'', 0)]\<rparr>"]
  by (cases "filterUselessWithSet [''G1''] (new_Trace\<lparr>tr_varThread := [(''G1'', 0)]\<rparr>)")
     (auto simp: shared_or_unknown_def)

text \<open>
  (C12) If the vector of tainted variables has room for all candidates, the filter by taint returns and adds exactly the
  untainted variables that taint reaches through their dependencies, however long the chain.
\<close>

theorem filterUselessByTaint_reaches:
  assumes "length (tr_taintSymbolicExpr tr) + length (tr_unTaintSymbolicExpr tr) \<le> capacity"
  shows "\<exists>tr'. filterUselessByTaint capacity tr = Inr tr' \<and>
    set (tr_potentialTaintSymbolicExpr tr') = set (tr_potentialTaintSymbolicExpr tr) \<union>
      ((taint_step (tr_varRelatedSymbolicExpr tr) (set (tr_unTaintSymbolicExpr tr)))\<^sup>* `` set (tr_taintSymbolicExpr tr)
        - set (tr_taintSymbolicExpr tr))"
proof -
  have "taint_inv (tr_varRelatedSymbolicExpr tr) (set (tr_taintSymbolicExpr tr)) (set (tr_unTaintSymbolicExpr tr)) 0
      (tr_unTaintSymbolicExpr tr) (tr_taintSymbolicExpr tr)"
    by (auto simp: taint_inv_def)
  from taint_loop_runs [OF this assms] show ?thesis
    by (auto simp: filterUselessByTaint_def set_potential)
qed

theorem filterUselessByTaint_reaches_witness:
  "\<exists>tr'. filterUselessByTaint 4 (new_Trace\<lparr>tr_taintSymbolicExpr := [''G1''], tr_unTaintSymbolicExpr := [''G2'', ''G3''],
       tr_varRelatedSymbolicExpr := [(''G2'', [''G1''])]\<rparr>) = Inr tr' \<and> ''G2'' \<in> set (tr_potentialTaintSymbolicExpr tr')"
proof -
  let ?tr = "new_Trace\<lparr>tr_taintSymbolicExpr := [''G1''], tr_unTaintSymbolicExpr := [''G2'', ''G3''],
       tr_varRelatedSymbolicExpr := [(''G2'', [''G1''])]\<rparr>"
  have "(''G1'', ''G2'') \<in> taint_step (tr_varRelatedSymbolicExpr ?tr) (set (tr_unTaintSymbolicExpr ?tr))"
    by (simp add: taint_step_def entries_of_def)
  then have "''G2'' \<in> (taint_step (tr_varRelatedSymbolicExpr ?tr) (set (tr_unTaintSymbolicExpr ?tr)))\<^sup>* ``
      set (tr_taintSymbolicExpr ?tr) - set (tr_taintSymbolicExpr ?tr)" by auto
  with filterUselessByTaint_reaches [of ?tr 4] show ?thesis by auto
qed

end
