(* ===== verification/Dtam.thy ===== *)
theory Dtam
  imports Symbolic_Names Runtime_Data
begin

text \<open>
  \<^verbatim>\<open>src/lib/Core/DTAM.cpp\<close> and \<^verbatim>\<open>DTAMPoint.cpp\<close>: taint propagation over the global accesses of a trace. Every access is a
  point; a write affects the reads of its variable and a read affects the writes whose value
  mentions it. Taint starts at the accesses that were tainted during the run (\<open>DTAMSerial\<close>) and spreads
  along the points a point affects, once over all pairs (\<open>DTAMParallel\<close>) and once over the pairs that
  the vector clocks allow (\<open>DTAMhybrid\<close>).

  Points are objects that refer to each other: they live in a store, a list indexed by references.
  The measured costs and the printed messages are left out.
\<close>

section \<open>Points\<close>

type_synonym point_ref = nat

record dtam_point =
  dp_name :: string
  dp_isTaint :: bool
  dp_affectingVariable :: "point_ref list"
  dp_affectedVariable :: "point_ref list"
  dp_vectorClock :: "uint list"

definition new_DTAMPoint :: "string \<Rightarrow> uint list \<Rightarrow> dtam_point" where
  "new_DTAMPoint name clock =
     \<lparr>dp_name = name, dp_isTaint = False, dp_affectingVariable = [], dp_affectedVariable = [],
      dp_vectorClock = clock\<rparr>"

text \<open>The counts \<open>before\<close> and \<open>after\<close> of \<open>isBefore\<close>; the other clock must not be shorter.\<close>

fun count_clock :: "uint list \<Rightarrow> uint list \<Rightarrow> uint \<Rightarrow> uint \<Rightarrow> (uint \<times> uint) outcome" where
  "count_clock [] other before after = Inr (before, after)"
| "count_clock (c # cs) [] before after = Inl (Undefined ''point->vectorClock[i]'')"
| "count_clock (c # cs) (d # ds) before after =
     (if d < c then count_clock cs ds before (after + 1)
      else if c < d then count_clock cs ds (before + 1) after
      else count_clock cs ds before after)"

definition isBefore :: "dtam_point \<Rightarrow> dtam_point \<Rightarrow> bool outcome" where
  "isBefore p q =
     bind_outcome (count_clock (dp_vectorClock p) (dp_vectorClock q) 0 0)
       (\<lambda>(before, after). Inr (if before = 0 \<and> 0 < after then False else True))"


section \<open>The graph\<close>

record dtam =
  dt_points :: "dtam_point list"
  dt_allWrite :: "(string, point_ref) ordered_map"
  dt_allRead :: "(string, point_ref) ordered_map"

definition new_DTAM :: dtam where
  "new_DTAM = \<lparr>dt_points = [], dt_allWrite = [], dt_allRead = []\<rparr>"

definition add_point :: "event \<Rightarrow> dtam \<Rightarrow> dtam" where
  "add_point e dt = dt\<lparr>dt_points := dt_points dt @ [new_DTAMPoint (ev_globalVarFullName e) (ev_vectorClock e)]\<rparr>"

definition add_read :: "event_heap \<Rightarrow> event_ref \<Rightarrow> dtam \<Rightarrow> dtam" where
  "add_read h e dt =
     (add_point (h e) dt)
       \<lparr>dt_allRead := om_put (ev_globalVarFullName (h e)) (length (dt_points dt)) (dt_allRead dt)\<rparr>"

text \<open>\<open>source->affectingVariable.push_back(target); target->affectedVariable.push_back(source);\<close>\<close>

definition link_points :: "point_ref \<Rightarrow> point_ref \<Rightarrow> dtam \<Rightarrow> dtam outcome" where
  "link_points source target dt =
     bind_outcome (at_index (dt_points dt) source) (\<lambda>p.
       let points = (dt_points dt)[source := p\<lparr>dp_affectingVariable := dp_affectingVariable p @ [target]\<rparr>]
       in bind_outcome (at_index points target) (\<lambda>q.
            Inr (dt\<lparr>dt_points := points[target := q\<lparr>dp_affectedVariable := dp_affectedVariable q @ [source]\<rparr>]\<rparr>)))"

text \<open>A name that no read has yields the null pointer.\<close>

definition find_read :: "string \<Rightarrow> dtam \<Rightarrow> point_ref outcome" where
  "find_read name dt =
     (case om_find (dt_allRead dt) name of None \<Rightarrow> Inl (Undefined ''allRead[value]'') | Some r \<Rightarrow> Inr r)"

definition link_source :: "point_ref \<Rightarrow> expr \<Rightarrow> dtam \<Rightarrow> dtam outcome" where
  "link_source point e dt =
     bind_outcome (getFullName e) (\<lambda>value. bind_outcome (find_read value dt) (\<lambda>r. link_points r point dt))"

definition link_read :: "event_heap \<Rightarrow> point_ref \<Rightarrow> event_ref \<Rightarrow> dtam \<Rightarrow> dtam outcome" where
  "link_read h point e dt =
     bind_outcome (find_read (ev_globalVarFullName (h e)) dt) (\<lambda>r. link_points point r dt)"

text \<open>\<open>allReadSet[varName]\<close> of a variable without reads is empty.\<close>

definition reads_of :: "trace \<Rightarrow> string \<Rightarrow> event_ref list" where
  "reads_of tr v = (case om_find (tr_allReadSet tr) v of None \<Rightarrow> [] | Some es \<Rightarrow> es)"

definition add_write :: "event_heap \<Rightarrow> trace \<Rightarrow> event_ref \<Rightarrow> dtam \<Rightarrow> dtam outcome" where
  "add_write h tr e dt =
     (let point = length (dt_points dt)
      in bind_outcome (fold_outcome (link_source point) (ev_relatedSymbolicExpr (h e)) (add_point (h e) dt)) (\<lambda>dt.
         bind_outcome (fold_outcome (link_read h point) (reads_of tr (ev_varName (h e))) dt) (\<lambda>dt.
         Inr (dt\<lparr>dt_allWrite := om_put (ev_globalVarFullName (h e)) point (dt_allWrite dt)\<rparr>))))"

text \<open>\<open>operator[]\<close> also leaves an empty vector for every written variable that is never read.\<close>

definition touch_reads :: "event_heap \<Rightarrow> event_ref list \<Rightarrow> trace \<Rightarrow> trace" where
  "touch_reads h = fold (\<lambda>e tr. tr\<lparr>tr_allReadSet := om_insert (ev_varName (h e)) [] (tr_allReadSet tr)\<rparr>)"

definition all_events :: "events_by_name \<Rightarrow> event_ref list" where
  "all_events m = concat (map snd m)"

definition DTAMParallel :: "event_heap \<Rightarrow> trace \<Rightarrow> dtam \<Rightarrow> (dtam \<times> trace) outcome" where
  "DTAMParallel h tr dt =
     bind_outcome (fold_outcome (add_write h tr) (all_events (tr_allWriteSet tr))
                     (fold (add_read h) (all_events (tr_allReadSet tr)) dt))
       (\<lambda>dt. Inr (dt, touch_reads h (all_events (tr_allWriteSet tr)) tr))"

text \<open>
  A pair that the clocks forbid is removed. When the read also affects the write, the code erases
  from one vector at an iterator of another.
\<close>

fun hybrid_scan :: "dtam_point list \<Rightarrow> point_ref \<Rightarrow> point_ref list \<Rightarrow> point_ref list outcome" where
  "hybrid_scan points point [] = Inr []"
| "hybrid_scan points point (r # rs) =
     bind_outcome (at_index points point) (\<lambda>p.
     bind_outcome (at_index points r) (\<lambda>q.
     bind_outcome (isBefore p q) (\<lambda>before.
       if before then bind_outcome (hybrid_scan points point rs) (\<lambda>kept. Inr (r # kept))
       else if point \<in> set (dp_affectingVariable q)
       then Inl (Undefined ''affectedVariable.erase(ittt)'')
       else hybrid_scan points point rs)))"

definition hybrid_point :: "point_ref \<Rightarrow> dtam \<Rightarrow> dtam outcome" where
  "hybrid_point point dt =
     bind_outcome (at_index (dt_points dt) point) (\<lambda>p.
     bind_outcome (hybrid_scan (dt_points dt) point (dp_affectingVariable p)) (\<lambda>kept.
     Inr (dt\<lparr>dt_points := (dt_points dt)[point := p\<lparr>dp_affectingVariable := kept\<rparr>]\<rparr>)))"

definition DTAMhybrid :: "dtam \<Rightarrow> dtam outcome" where
  "DTAMhybrid dt = fold_outcome hybrid_point (map snd (dt_allWrite dt)) dt"


section \<open>Taint\<close>

definition seed_point :: "string ordered_set \<Rightarrow> point_ref \<Rightarrow> dtam_point list \<times> point_ref list \<Rightarrow> (dtam_point list \<times> point_ref list) outcome" where
  "seed_point serial point s =
     (case s of (points, remain) \<Rightarrow>
        bind_outcome (at_index points point) (\<lambda>p.
          if dp_name p \<in> set serial then Inr (points[point := p\<lparr>dp_isTaint := True\<rparr>], remain @ [point])
          else Inr (points[point := p\<lparr>dp_isTaint := False\<rparr>], remain)))"

definition taint_point :: "point_ref \<Rightarrow> dtam_point list \<times> point_ref list \<Rightarrow> (dtam_point list \<times> point_ref list) outcome" where
  "taint_point point s =
     (case s of (points, remain) \<Rightarrow>
        bind_outcome (at_index points point) (\<lambda>p.
          if \<not> dp_isTaint p then Inr (points[point := p\<lparr>dp_isTaint := True\<rparr>], remain @ [point])
          else Inr (points, remain)))"

definition untainted :: "dtam_point list \<Rightarrow> nat set" where
  "untainted points = {i. i < length points \<and> \<not> dp_isTaint (points ! i)}"

lemma finite_untainted: "finite (untainted points)"
  by (simp add: untainted_def)

lemma untainted_mark: "untainted (points[p := q\<lparr>dp_isTaint := True\<rparr>]) = untainted points - {p}"
  by (cases "p < length points") (auto simp: untainted_def nth_list_update split: if_splits)

lemma taint_point_cases:
  "p < length points \<Longrightarrow> taint_point p (points, remain) =
     (if p \<in> untainted points then Inr (points[p := (points ! p)\<lparr>dp_isTaint := True\<rparr>], remain @ [p]) else Inr (points, remain))"
  by (simp add: taint_point_def at_index_def untainted_def)

lemma taint_point_untainted:
  assumes "taint_point p (points, remain) = Inr (points', remain')"
  shows "untainted points' \<subset> untainted points \<or> points' = points \<and> remain' = remain"
proof (cases "p \<in> untainted points")
  case True
  then have "p < length points" by (simp add: untainted_def)
  with True assms have "points' = points[p := (points ! p)\<lparr>dp_isTaint := True\<rparr>]" by (simp add: taint_point_cases)
  with True show ?thesis by (auto simp: untainted_mark)
next
  case False
  from assms have "p < length points" by (auto simp: taint_point_def outcome_simps)
  with False assms show ?thesis by (simp add: taint_point_cases)
qed

lemma taint_points_untainted:
  "fold_outcome taint_point ps (points, remain) = Inr (points', remain') \<Longrightarrow>
     untainted points' \<subset> untainted points \<or> points' = points \<and> remain' = remain"
proof (induction ps arbitrary: points remain)
  case (Cons p ps)
  then obtain points1 remain1 where
    "taint_point p (points, remain) = Inr (points1, remain1)"
    "fold_outcome taint_point ps (points1, remain1) = Inr (points', remain')" by (auto simp: outcome_simps)
  with taint_point_untainted [of p points remain] Cons.IH [of points1 remain1] show ?case by blast
qed simp

text \<open>The depth-first search: the last remaining point is taken off and the points it affects are tainted.\<close>

function taint_search :: "dtam_point list \<Rightarrow> point_ref list \<Rightarrow> dtam_point list outcome" where
  "taint_search points remain =
     (if remain = [] then Inr points
      else bind_outcome (at_index points (last remain)) (\<lambda>p.
           bind_outcome (fold_outcome taint_point (dp_affectingVariable p) (points, butlast remain)) (\<lambda>(points, remain).
           taint_search points remain)))"
  by pat_completeness auto
termination
proof (relation "inv_image (finite_psubset <*lex*> less_than) (\<lambda>(points, remain). (untainted points, length remain))")
  fix points p remain s points' remain'
  assume "remain \<noteq> []" and run: "fold_outcome taint_point (dp_affectingVariable p) (points, butlast remain) = Inr s"
    and "(points', remain') = s"
  with taint_points_untainted [of "dp_affectingVariable p" points "butlast remain" points' remain']
  have "untainted points' \<subset> untainted points \<or> points' = points \<and> remain' = butlast remain" by simp
  with \<open>remain \<noteq> []\<close> show "((points', remain'), (points, remain)) \<in>
      inv_image (finite_psubset <*lex*> less_than) (\<lambda>(points, remain). (untainted points, length remain))"
    by (auto simp: finite_psubset_def finite_untainted)
qed auto

declare taint_search.simps [simp del]

definition initTaint :: "string ordered_set \<Rightarrow> dtam \<Rightarrow> dtam outcome" where
  "initTaint serial dt =
     bind_outcome (fold_outcome (seed_point serial) (map snd (dt_allWrite dt)) (dt_points dt, [])) (\<lambda>s.
     bind_outcome (fold_outcome (seed_point serial) (map snd (dt_allRead dt)) s) (\<lambda>(points, remain).
     bind_outcome (taint_search points remain) (\<lambda>points. Inr (dt\<lparr>dt_points := points\<rparr>))))"

definition collect_taint :: "dtam_point list \<Rightarrow> point_ref \<Rightarrow> string ordered_set \<Rightarrow> string ordered_set outcome" where
  "collect_taint points point taint =
     bind_outcome (at_index points point) (\<lambda>p. Inr (if dp_isTaint p then set_insert (dp_name p) taint else taint))"

definition getTaint :: "dtam \<Rightarrow> string ordered_set \<Rightarrow> string ordered_set outcome" where
  "getTaint dt taint =
     bind_outcome (fold_outcome (collect_taint (dt_points dt)) (map snd (dt_allWrite dt)) taint)
       (fold_outcome (collect_taint (dt_points dt)) (map snd (dt_allRead dt)))"


section \<open>The analysis\<close>

text \<open>The assembly lines of a set of accesses go into the map of the trace and the map of all runs.\<close>

definition add_lines ::
  "(kinst \<Rightarrow> uint) \<Rightarrow> event_heap \<Rightarrow> trace \<Rightarrow> string list \<Rightarrow> string ordered_set \<times> string ordered_set \<Rightarrow>
     (string ordered_set \<times> string ordered_set) outcome" where
  "add_lines assemblyLine h tr names maps =
     fold_outcome (\<lambda>name (all, own).
        bind_outcome (getAssemblyLine assemblyLine name h tr) (\<lambda>line. Inr (set_insert line all, set_insert line own)))
       names maps"

definition dtam_serial ::
  "(kinst \<Rightarrow> uint) \<Rightarrow> event_heap \<Rightarrow> trace \<times> runtime_data \<Rightarrow> (trace \<times> runtime_data) outcome" where
  "dtam_serial assemblyLine h s =
     (case s of (tr, rd) \<Rightarrow>
        bind_outcome (add_lines assemblyLine h tr (tr_DTAMSerial tr) (rd_DTAMSerialMap rd, tr_DTAMSerialMap tr)) (\<lambda>(all, own).
        Inr (tr\<lparr>tr_DTAMSerialMap := own\<rparr>,
             rd\<lparr>rd_DTAMSerialMap := all,
                rd_allDTAMSerialMap := rd_allDTAMSerialMap rd @ [of_nat (length own)],
                rd_DTAMSerial := rd_DTAMSerial rd + of_nat (length (tr_DTAMSerial tr)),
                rd_allDTAMSerial := rd_allDTAMSerial rd @ [of_nat (length (tr_DTAMSerial tr))]\<rparr>)))"

definition add_potential :: "string list \<Rightarrow> string ordered_set \<Rightarrow> string ordered_set outcome" where
  "add_potential names potential =
     fold_outcome (\<lambda>name s. bind_outcome (getVarName_string name) (\<lambda>v. Inr (set_insert v s))) names potential"

definition dtam_parallel ::
  "(kinst \<Rightarrow> uint) \<Rightarrow> event_heap \<Rightarrow> dtam \<times> trace \<times> runtime_data \<Rightarrow> (dtam \<times> trace \<times> runtime_data) outcome" where
  "dtam_parallel assemblyLine h s =
     (case s of (dt, tr, rd) \<Rightarrow>
        bind_outcome (DTAMParallel h tr dt) (\<lambda>(dt, tr).
        bind_outcome (initTaint (tr_DTAMSerial tr) dt) (\<lambda>dt.
        bind_outcome (getTaint dt (tr_DTAMParallel tr)) (\<lambda>taint.
        bind_outcome (add_lines assemblyLine h tr taint (rd_DTAMParallelMap rd, tr_DTAMParallelMap tr)) (\<lambda>(all, own).
        bind_outcome (add_potential taint (tr_potentialTaintSymbolicExpr tr)) (\<lambda>potential.
        Inr (dt,
             tr\<lparr>tr_DTAMParallel := taint, tr_DTAMParallelMap := own, tr_potentialTaintSymbolicExpr := potential\<rparr>,
             rd\<lparr>rd_DTAMParallelMap := all,
                rd_allDTAMParallelMap := rd_allDTAMParallelMap rd @ [of_nat (length own)],
                rd_DTAMParallel := rd_DTAMParallel rd + of_nat (length taint),
                rd_allDTAMParallel := rd_allDTAMParallel rd @ [of_nat (length taint)]\<rparr>)))))))"

definition dtam_hybrid ::
  "(kinst \<Rightarrow> uint) \<Rightarrow> event_heap \<Rightarrow> dtam \<times> trace \<times> runtime_data \<Rightarrow> (dtam \<times> trace \<times> runtime_data) outcome" where
  "dtam_hybrid assemblyLine h s =
     (case s of (dt, tr, rd) \<Rightarrow>
        bind_outcome (DTAMhybrid dt) (\<lambda>dt.
        bind_outcome (initTaint (tr_DTAMSerial tr) dt) (\<lambda>dt.
        bind_outcome (getTaint dt (tr_DTAMhybrid tr)) (\<lambda>taint.
        bind_outcome (add_lines assemblyLine h tr taint (rd_DTAMhybridMap rd, tr_DTAMhybridMap tr)) (\<lambda>(all, own).
        Inr (dt,
             tr\<lparr>tr_DTAMhybrid := taint, tr_DTAMhybridMap := own\<rparr>,
             rd\<lparr>rd_DTAMhybridMap := all,
                rd_allDTAMhybridMap := rd_allDTAMhybridMap rd @ [of_nat (length own)],
                rd_DTAMhybrid := rd_DTAMhybrid rd + of_nat (length taint),
                rd_allDTAMhybrid := rd_allDTAMhybrid rd @ [of_nat (length taint)]\<rparr>))))))"

definition run_dtam ::
  "(kinst \<Rightarrow> uint) \<Rightarrow> event_heap \<Rightarrow> dtam \<times> trace \<times> runtime_data \<Rightarrow> (dtam \<times> trace \<times> runtime_data) outcome" where
  "run_dtam assemblyLine h s =
     (case s of (dt, tr, rd) \<Rightarrow>
        bind_outcome (dtam_serial assemblyLine h (tr, rd)) (\<lambda>(tr, rd).
        bind_outcome (dtam_parallel assemblyLine h (dt, tr, rd)) (dtam_hybrid assemblyLine h)))"

end
