(* ===== verification/Dtam_Correct.thy ===== *)
theory Dtam_Correct
  imports Dtam
begin

text \<open>
  The taint analysis of \<open>Dtam\<close>: the search taints exactly what the graph of points reaches, the graph built from a
  trace is the graph of its accesses, and the vector clocks only remove edges from it.
\<close>

section \<open>The search\<close>

definition tainted :: "dtam_point list \<Rightarrow> nat set" where
  "tainted points = {i. i < length points \<and> dp_isTaint (points ! i)}"

definition point_edges :: "dtam_point list \<Rightarrow> (nat \<times> nat) set" where
  "point_edges points = {(i, j). i < length points \<and> j \<in> set (dp_affectingVariable (points ! i))}"

definition edges_ok :: "dtam_point list \<Rightarrow> bool" where
  "edges_ok points \<longleftrightarrow> point_edges points \<subseteq> {..<length points} \<times> {..<length points}"

text \<open>Two stores that differ in their flags only.\<close>

definition same_graph :: "dtam_point list \<Rightarrow> dtam_point list \<Rightarrow> bool" where
  "same_graph points points' \<longleftrightarrow>
     map (dp_isTaint_update (\<lambda>_. False)) points' = map (dp_isTaint_update (\<lambda>_. False)) points"

lemma same_graph_refl [simp]: "same_graph points points"
  by (simp add: same_graph_def)

lemma same_graph_trans: "same_graph a b \<Longrightarrow> same_graph b c \<Longrightarrow> same_graph a c"
  by (simp add: same_graph_def)

lemma same_graph_mark: "same_graph points (points[i := (points ! i)\<lparr>dp_isTaint := b\<rparr>])"
  by (cases "i < length points") (simp_all add: same_graph_def map_update list_update_same_conv list_update_beyond)

lemma same_graph_length: "same_graph a b \<Longrightarrow> length b = length a"
  unfolding same_graph_def by (drule arg_cong [of _ _ length]) simp

lemma same_graph_nth:
  assumes "same_graph a b" and "i < length a"
  shows "dp_name (b ! i) = dp_name (a ! i)" "dp_affectingVariable (b ! i) = dp_affectingVariable (a ! i)"
    "dp_vectorClock (b ! i) = dp_vectorClock (a ! i)"
proof -
  have "(b ! i)\<lparr>dp_isTaint := False\<rparr> = (a ! i)\<lparr>dp_isTaint := False\<rparr>"
    using assms same_graph_length [OF assms(1)] unfolding same_graph_def by (metis nth_map)
  then have "dp_name ((b ! i)\<lparr>dp_isTaint := False\<rparr>) = dp_name ((a ! i)\<lparr>dp_isTaint := False\<rparr>)"
    "dp_affectingVariable ((b ! i)\<lparr>dp_isTaint := False\<rparr>) = dp_affectingVariable ((a ! i)\<lparr>dp_isTaint := False\<rparr>)"
    "dp_vectorClock ((b ! i)\<lparr>dp_isTaint := False\<rparr>) = dp_vectorClock ((a ! i)\<lparr>dp_isTaint := False\<rparr>)" by simp_all
  then show "dp_name (b ! i) = dp_name (a ! i)" "dp_affectingVariable (b ! i) = dp_affectingVariable (a ! i)"
    "dp_vectorClock (b ! i) = dp_vectorClock (a ! i)" by simp_all
qed

lemma same_graph_edges: "same_graph a b \<Longrightarrow> point_edges b = point_edges a"
  by (auto simp: point_edges_def same_graph_length same_graph_nth)

lemma same_graph_edges_ok: "same_graph a b \<Longrightarrow> edges_ok b = edges_ok a"
  by (simp add: edges_ok_def same_graph_edges same_graph_length)

lemma tainted_mark: "i < length points \<Longrightarrow>
  tainted (points[i := (points ! i)\<lparr>dp_isTaint := b\<rparr>]) = (if b then insert i (tainted points) else tainted points - {i})"
  by (auto simp: tainted_def nth_list_update split: if_splits)

lemma taint_points_run:
  assumes "set qs \<subseteq> {..<length points}"
  shows "\<exists>points' remain'. fold_outcome taint_point qs (points, remain) = Inr (points', remain') \<and>
    same_graph points points' \<and> tainted points' = tainted points \<union> set qs \<and>
    set remain' = set remain \<union> (set qs - tainted points)"
  using assms
proof (induction qs arbitrary: points remain)
  case (Cons q qs)
  show ?case
  proof (cases "dp_isTaint (points ! q)")
    case True
    then have "taint_point q (points, remain) = Inr (points, remain)" "q \<in> tainted points"
      using Cons.prems by (auto simp: taint_point_cases untainted_def tainted_def)
    with Cons.IH [of points remain] Cons.prems show ?thesis by auto
  next
    case False
    let ?points = "points[q := (points ! q)\<lparr>dp_isTaint := True\<rparr>]"
    have q: "taint_point q (points, remain) = Inr (?points, remain @ [q])" "tainted ?points = insert q (tainted points)"
      "q \<notin> tainted points"
      using Cons.prems False tainted_mark [of q points True]
      by (simp_all add: taint_point_cases untainted_def) (simp add: tainted_def)
    from Cons.IH [of ?points "remain @ [q]"] Cons.prems obtain points' remain' where
      "fold_outcome taint_point qs (?points, remain @ [q]) = Inr (points', remain')" "same_graph ?points points'"
      "tainted points' = tainted ?points \<union> set qs" "set remain' = set (remain @ [q]) \<union> (set qs - tainted ?points)" by auto
    with q same_graph_trans [OF same_graph_mark [of points q True]] show ?thesis by auto
  qed
qed simp

lemma taint_search_runs:
  assumes "edges_ok points" and "set remain \<subseteq> tainted points"
    and "\<forall>i\<in>tainted points - set remain. point_edges points `` {i} \<subseteq> tainted points"
  shows "\<exists>points'. taint_search points remain = Inr points' \<and> same_graph points points' \<and>
    tainted points' = (point_edges points)\<^sup>* `` tainted points"
  using assms
proof (induction points remain rule: taint_search.induct)
  case (1 points remain)
  show ?case
  proof (cases "remain = []")
    case True
    then have "(point_edges points)\<^sup>* `` tainted points = tainted points"
      using "1.prems"(3) by (intro Image_closed_trancl) auto
    with True show ?thesis by (simp add: taint_search.simps [of points "[]"])
  next
    case False
    let ?p = "last remain"
    let ?qs = "dp_affectingVariable (points ! ?p)"
    have p: "?p \<in> tainted points" using "1.prems"(2) False last_in_set by blast
    then have lt: "?p < length points" by (simp add: tainted_def)
    have succs: "point_edges points `` {?p} = set ?qs" using lt by (auto simp: point_edges_def)
    have "set ?qs \<subseteq> {..<length points}" using "1.prems"(1) succs by (auto simp: edges_ok_def)
    from taint_points_run [OF this, of "butlast remain"] obtain points' remain' where
      run: "fold_outcome taint_point ?qs (points, butlast remain) = Inr (points', remain')" "same_graph points points'"
      "tainted points' = tainted points \<union> set ?qs" "set remain' = set (butlast remain) \<union> (set ?qs - tainted points)"
      by blast
    have split: "set remain = insert ?p (set (butlast remain))"
      using False by (metis append_butlast_last_id list.simps(15) rotate1.simps(2) set_rotate1)
    have closed: "\<forall>i\<in>tainted points' - set remain'. point_edges points' `` {i} \<subseteq> tainted points'"
    proof
      fix i assume i: "i \<in> tainted points' - set remain'"
      then have "i = ?p \<or> i \<in> tainted points - set remain" using run(3,4) split by auto
      then show "point_edges points' `` {i} \<subseteq> tainted points'"
        using "1.prems"(3) succs run(3) same_graph_edges [OF run(2)] by auto
    qed
    have "set remain' \<subseteq> tainted points'" using "1.prems"(2) run(3,4) split by auto
    moreover have "edges_ok points'" using "1.prems"(1) same_graph_edges_ok [OF run(2)] by simp
    moreover have "at_index points ?p = Inr (points ! ?p)" using lt by (simp add: at_index_def)
    ultimately obtain points'' where
      IH: "taint_search points' remain' = Inr points''" "same_graph points' points''"
      "tainted points'' = (point_edges points')\<^sup>* `` tainted points'"
      using 1(1) [OF False _ run(1) refl] closed by blast
    have "(point_edges points)\<^sup>* `` tainted points' = (point_edges points)\<^sup>* `` tainted points"
    proof
      have "tainted points' \<subseteq> (point_edges points)\<^sup>* `` tainted points" using run(3) succs p by blast
      then show "(point_edges points)\<^sup>* `` tainted points' \<subseteq> (point_edges points)\<^sup>* `` tainted points"
        by (meson Image_mono rtrancl_trans order_refl ImageE ImageI subsetD subsetI)
    qed (use run(3) in blast)
    moreover have "taint_search points remain = Inr points''"
      using False lt run(1) IH(1) by (simp add: taint_search.simps [of points remain] at_index_def)
    ultimately show ?thesis
      using IH(2,3) same_graph_edges [OF run(2)] same_graph_trans [OF run(2)] by auto
  qed
qed

lemma seed_points_run:
  assumes "set ps \<subseteq> {..<length points}"
  shows "\<exists>points' remain'. fold_outcome (seed_point serial) ps (points, remain) = Inr (points', remain') \<and>
    same_graph points points' \<and>
    tainted points' = (tainted points - set ps) \<union> {p \<in> set ps. dp_name (points ! p) \<in> set serial} \<and>
    set remain' = set remain \<union> {p \<in> set ps. dp_name (points ! p) \<in> set serial}"
  using assms
proof (induction ps arbitrary: points remain)
  case (Cons p ps)
  let ?b = "dp_name (points ! p) \<in> set serial"
  let ?points = "points[p := (points ! p)\<lparr>dp_isTaint := ?b\<rparr>]"
  let ?remain = "if ?b then remain @ [p] else remain"
  have p: "p < length points" using Cons.prems by simp
  have step: "seed_point serial p (points, remain) = Inr (?points, ?remain)"
    using p by (simp add: seed_point_def at_index_def)
  have names: "dp_name (?points ! q) = dp_name (points ! q)" if "q < length points" for q
    using same_graph_nth(1) [OF same_graph_mark that] .
  from Cons.IH [of ?points ?remain] Cons.prems obtain points' remain' where
    IH: "fold_outcome (seed_point serial) ps (?points, ?remain) = Inr (points', remain')" "same_graph ?points points'"
    "tainted points' = (tainted ?points - set ps) \<union> {q \<in> set ps. dp_name (?points ! q) \<in> set serial}"
    "set remain' = set ?remain \<union> {q \<in> set ps. dp_name (?points ! q) \<in> set serial}" by auto
  have "{q \<in> set ps. dp_name (?points ! q) \<in> set serial} = {q \<in> set ps. dp_name (points ! q) \<in> set serial}"
    using names Cons.prems by auto
  with step IH p same_graph_trans [OF same_graph_mark IH(2)] show ?case
    by (auto simp: tainted_mark)
qed simp



section \<open>The graph of points\<close>

abbreviation registered :: "dtam \<Rightarrow> nat set" where
  "registered dt \<equiv> set (map snd (dt_allWrite dt)) \<union> set (map snd (dt_allRead dt))"

text \<open>Every point is in one of the maps and refers to points only.\<close>

definition dtam_ok :: "dtam \<Rightarrow> bool" where
  "dtam_ok dt \<longleftrightarrow> registered dt = {..<length (dt_points dt)} \<and> edges_ok (dt_points dt)"

definition seeds :: "string ordered_set \<Rightarrow> dtam_point list \<Rightarrow> nat set" where
  "seeds serial points = {p. p < length points \<and> dp_name (points ! p) \<in> set serial}"

lemma initTaint_runs:
  assumes "dtam_ok dt"
  shows "\<exists>points. initTaint serial dt = Inr (dt\<lparr>dt_points := points\<rparr>) \<and> same_graph (dt_points dt) points \<and>
    tainted points = (point_edges (dt_points dt))\<^sup>* `` seeds serial (dt_points dt)"
proof -
  let ?W = "map snd (dt_allWrite dt)" and ?R = "map snd (dt_allRead dt)"
  note ok = assms [unfolded dtam_ok_def]
  from ok have W: "set ?W \<subseteq> {..<length (dt_points dt)}" and R: "set ?R \<subseteq> {..<length (dt_points dt)}" by blast+
  from seed_points_run [OF W, of serial "[]"] obtain points1 remain1 where
    w: "fold_outcome (seed_point serial) ?W (dt_points dt, []) = Inr (points1, remain1)" "same_graph (dt_points dt) points1"
      "tainted points1 = (tainted (dt_points dt) - set ?W) \<union> {p \<in> set ?W. dp_name (dt_points dt ! p) \<in> set serial}"
      "set remain1 = {p \<in> set ?W. dp_name (dt_points dt ! p) \<in> set serial}" by auto
  have len: "length points1 = length (dt_points dt)" using w(2) by (rule same_graph_length)
  from seed_points_run [of ?R points1 serial remain1] R len obtain points2 remain2 where
    r: "fold_outcome (seed_point serial) ?R (points1, remain1) = Inr (points2, remain2)" "same_graph points1 points2"
      "tainted points2 = (tainted points1 - set ?R) \<union> {p \<in> set ?R. dp_name (points1 ! p) \<in> set serial}"
      "set remain2 = set remain1 \<union> {p \<in> set ?R. dp_name (points1 ! p) \<in> set serial}" by auto
  have names: "{p \<in> set ?R. dp_name (points1 ! p) \<in> set serial} = {p \<in> set ?R. dp_name (dt_points dt ! p) \<in> set serial}"
    using same_graph_nth(1) [OF w(2)] R by auto
  have all: "registered dt = {..<length (dt_points dt)}" using ok by blast
  have seeds: "seeds serial (dt_points dt) = {p \<in> registered dt. dp_name (dt_points dt ! p) \<in> set serial}"
    unfolding all by (auto simp: seeds_def)
  have "tainted (dt_points dt) \<subseteq> registered dt" unfolding all by (auto simp: tainted_def)
  then have t2: "set remain2 = seeds serial (dt_points dt)" "tainted points2 = seeds serial (dt_points dt) \<or>
      tainted points2 = seeds serial (dt_points dt) - set ?R \<union> (seeds serial (dt_points dt) \<inter> set ?R)"
    using w(3,4) r(3,4) names seeds by auto
  then have t2': "tainted points2 = seeds serial (dt_points dt)" by blast
  have g: "same_graph (dt_points dt) points2" using same_graph_trans [OF w(2) r(2)] .
  from taint_search_runs [of points2 remain2] t2(1) t2' ok same_graph_edges_ok [OF g] obtain points3 where
    s: "taint_search points2 remain2 = Inr points3" "same_graph points2 points3"
      "tainted points3 = (point_edges points2)\<^sup>* `` tainted points2" by auto
  have "initTaint serial dt = Inr (dt\<lparr>dt_points := points3\<rparr>)" using w(1) r(1) s(1) by (simp add: initTaint_def)
  with s t2' same_graph_edges [OF g] same_graph_trans [OF g s(2)] show ?thesis by auto
qed

lemma collect_taint_runs:
  assumes "set ps \<subseteq> {..<length points}"
  shows "\<exists>taint'. fold_outcome (collect_taint points) ps taint = Inr taint' \<and>
    set taint' = set taint \<union> (\<lambda>p. dp_name (points ! p)) ` (set ps \<inter> tainted points)"
  using assms
proof (induction ps arbitrary: taint)
  case (Cons p ps)
  let ?taint = "if dp_isTaint (points ! p) then set_insert (dp_name (points ! p)) taint else taint"
  have "collect_taint points p taint = Inr ?taint" using Cons.prems by (simp add: collect_taint_def at_index_def)
  moreover have "p \<in> tainted points \<longleftrightarrow> dp_isTaint (points ! p)" using Cons.prems by (simp add: tainted_def)
  ultimately show ?case using Cons.IH [of ?taint] Cons.prems by (cases "dp_isTaint (points ! p)") auto
qed simp

lemma getTaint_runs:
  assumes "registered dt = {..<length (dt_points dt)}"
  shows "\<exists>taint'. getTaint dt taint = Inr taint' \<and>
    set taint' = set taint \<union> (\<lambda>p. dp_name (dt_points dt ! p)) ` tainted (dt_points dt)"
proof -
  let ?name = "\<lambda>p. dp_name (dt_points dt ! p)" and ?T = "tainted (dt_points dt)"
  let ?W = "map snd (dt_allWrite dt)" and ?R = "map snd (dt_allRead dt)"
  have W: "set ?W \<subseteq> {..<length (dt_points dt)}" and R: "set ?R \<subseteq> {..<length (dt_points dt)}" using assms by blast+
  from collect_taint_runs [OF W, of taint] obtain t1 where
    t1: "fold_outcome (collect_taint (dt_points dt)) ?W taint = Inr t1" "set t1 = set taint \<union> ?name ` (set ?W \<inter> ?T)" by blast
  from collect_taint_runs [OF R, of t1] obtain t2 where
    t2: "fold_outcome (collect_taint (dt_points dt)) ?R t1 = Inr t2" "set t2 = set t1 \<union> ?name ` (set ?R \<inter> ?T)" by blast
  have "?T \<subseteq> registered dt" unfolding assms by (auto simp: tainted_def)
  then have "?T = (set ?W \<inter> ?T) \<union> (set ?R \<inter> ?T)" by blast
  then have "?name ` ?T = ?name ` (set ?W \<inter> ?T) \<union> ?name ` (set ?R \<inter> ?T)" by (metis image_Un)
  with t1(2) t2(2) have "set t2 = set taint \<union> ?name ` ?T" by (simp only: Un_assoc)
  with t1(1) t2(1) show ?thesis by (simp add: getTaint_def)
qed

definition taint_names :: "string ordered_set \<Rightarrow> dtam_point list \<Rightarrow> string set" where
  "taint_names serial points = (\<lambda>p. dp_name (points ! p)) ` ((point_edges points)\<^sup>* `` seeds serial points)"

lemma edges_reach_ok:
  assumes "edges_ok points" and "A \<subseteq> {..<length points}"
  shows "(point_edges points)\<^sup>* `` A \<subseteq> {..<length points}"
proof
  fix y assume "y \<in> (point_edges points)\<^sup>* `` A"
  then obtain x where "(x, y) \<in> (point_edges points)\<^sup>*" "x \<in> A" by blast
  then show "y \<in> {..<length points}"
    by (induction rule: rtrancl_induct) (use assms in \<open>auto simp: edges_ok_def\<close>)
qed

lemma init_and_get_taint:
  assumes "dtam_ok dt"
  shows "\<exists>points taint'. initTaint serial dt = Inr (dt\<lparr>dt_points := points\<rparr>) \<and> same_graph (dt_points dt) points \<and>
    getTaint (dt\<lparr>dt_points := points\<rparr>) taint = Inr taint' \<and>
    set taint' = set taint \<union> taint_names serial (dt_points dt)"
proof -
  from initTaint_runs [OF assms, of serial] obtain points where
    p: "initTaint serial dt = Inr (dt\<lparr>dt_points := points\<rparr>)" "same_graph (dt_points dt) points"
      "tainted points = (point_edges (dt_points dt))\<^sup>* `` seeds serial (dt_points dt)" by blast
  have "registered (dt\<lparr>dt_points := points\<rparr>) = {..<length points}"
    using assms same_graph_length [OF p(2)] by (simp add: dtam_ok_def)
  from getTaint_runs [of "dt\<lparr>dt_points := points\<rparr>" taint] this obtain taint' where
    t: "getTaint (dt\<lparr>dt_points := points\<rparr>) taint = Inr taint'"
      "set taint' = set taint \<union> (\<lambda>p. dp_name (points ! p)) ` tainted points" by auto
  have "seeds serial (dt_points dt) \<subseteq> {..<length (dt_points dt)}" by (auto simp: seeds_def)
  with assms have "tainted points \<subseteq> {..<length (dt_points dt)}"
    unfolding p(3) dtam_ok_def by (intro edges_reach_ok) auto
  then have "(\<lambda>p. dp_name (points ! p)) ` tainted points = (\<lambda>p. dp_name (dt_points dt ! p)) ` tainted points"
    using same_graph_nth(1) [OF p(2)] by (intro image_cong) auto
  with t p show ?thesis by (auto simp: taint_names_def)
qed



section \<open>Building the graph\<close>

abbreviation full_name :: "event_heap \<Rightarrow> event_ref \<Rightarrow> string" where
  "full_name h e \<equiv> ev_globalVarFullName (h e)"

definition point_names :: "dtam \<Rightarrow> string list" where
  "point_names dt = map dp_name (dt_points dt)"

text \<open>The edges with the names of their ends.\<close>

definition name_edges :: "dtam_point list \<Rightarrow> (string \<times> string) set" where
  "name_edges points = (\<lambda>(i, j). (dp_name (points ! i), dp_name (points ! j))) ` point_edges points"

lemma link_points_run:
  assumes "s < length (dt_points dt)" and "t < length (dt_points dt)"
  shows "\<exists>dt'. link_points s t dt = Inr dt' \<and> point_names dt' = point_names dt \<and>
    dt_allRead dt' = dt_allRead dt \<and> dt_allWrite dt' = dt_allWrite dt \<and>
    point_edges (dt_points dt') = insert (s, t) (point_edges (dt_points dt))"
proof -
  let ?p = "dt_points dt ! s"
  let ?points = "(dt_points dt)[s := ?p\<lparr>dp_affectingVariable := dp_affectingVariable ?p @ [t]\<rparr>]"
  let ?q = "?points ! t"
  let ?points' = "?points[t := ?q\<lparr>dp_affectedVariable := dp_affectedVariable ?q @ [s]\<rparr>]"
  have "link_points s t dt = Inr (dt\<lparr>dt_points := ?points'\<rparr>)"
    using assms by (simp add: link_points_def at_index_def Let_def)
  moreover have "map dp_name ?points' = map dp_name (dt_points dt)"
    using assms by (intro nth_equalityI) (auto simp: nth_list_update)
  moreover have "point_edges ?points' = insert (s, t) (point_edges (dt_points dt))"
    using assms by (auto simp: point_edges_def nth_list_update split: if_splits)
  ultimately show ?thesis by (auto simp: point_names_def)
qed

text \<open>The state while the points are made: the names so far, and where each read is.\<close>

definition reads_indexed :: "string list \<Rightarrow> dtam \<Rightarrow> bool" where
  "reads_indexed rs dt \<longleftrightarrow>
     om_ok (dt_allRead dt) \<and> take (length rs) (point_names dt) = rs \<and> distinct rs \<and>
     (\<forall>n i. om_find (dt_allRead dt) n = Some i \<longleftrightarrow> i < length rs \<and> rs ! i = n)"

lemma find_read_runs:
  assumes "reads_indexed rs dt" and "n \<in> set rs"
  shows "\<exists>i. find_read n dt = Inr i \<and> i < length (dt_points dt) \<and> point_names dt ! i = n"
proof -
  from assms(2) obtain i where i: "i < length rs" "rs ! i = n" by (auto simp: in_set_conv_nth)
  then have "om_find (dt_allRead dt) n = Some i" using assms(1) by (simp add: reads_indexed_def)
  moreover have "length rs \<le> length (point_names dt)"
    using assms(1) unfolding reads_indexed_def by (metis length_take min.cobounded1)
  moreover have "point_names dt ! i = n"
    using assms(1) i unfolding reads_indexed_def by (metis nth_take)
  ultimately show ?thesis using i by (auto simp: find_read_def point_names_def)
qed

definition grows :: "(string \<times> string) set \<Rightarrow> dtam \<Rightarrow> dtam \<Rightarrow> bool" where
  "grows E dt dt' \<longleftrightarrow>
     point_names dt' = point_names dt \<and> dt_allRead dt' = dt_allRead dt \<and> dt_allWrite dt' = dt_allWrite dt \<and>
     edges_ok (dt_points dt') \<and> name_edges (dt_points dt') = name_edges (dt_points dt) \<union> E"

lemma grows_trans: "grows E a b \<Longrightarrow> grows F b c \<Longrightarrow> grows (E \<union> F) a c"
  by (auto simp: grows_def)

lemma point_names_length: "length (point_names dt) = length (dt_points dt)"
  by (simp add: point_names_def)

lemma point_names_nth: "i < length (dt_points dt) \<Longrightarrow> point_names dt ! i = dp_name (dt_points dt ! i)"
  by (simp add: point_names_def)

lemma name_edges_names:
  "edges_ok (dt_points dt) \<Longrightarrow>
     name_edges (dt_points dt) = (\<lambda>(i, j). (point_names dt ! i, point_names dt ! j)) ` point_edges (dt_points dt)"
  unfolding name_edges_def by (intro image_cong) (auto simp: edges_ok_def point_names_nth)

lemma link_points_grows:
  assumes "edges_ok (dt_points dt)" and "s < length (dt_points dt)" and "t < length (dt_points dt)"
  shows "\<exists>dt'. link_points s t dt = Inr dt' \<and> grows {(point_names dt ! s, point_names dt ! t)} dt dt'"
proof -
  from link_points_run [OF assms(2,3)] obtain dt' where
    dt': "link_points s t dt = Inr dt'" "point_names dt' = point_names dt" "dt_allRead dt' = dt_allRead dt"
      "dt_allWrite dt' = dt_allWrite dt" "point_edges (dt_points dt') = insert (s, t) (point_edges (dt_points dt))" by blast
  have "length (dt_points dt') = length (dt_points dt)" using dt'(2) by (metis point_names_length)
  then have ok: "edges_ok (dt_points dt')" using assms dt'(5) by (auto simp: edges_ok_def)
  have "grows {(point_names dt ! s, point_names dt ! t)} dt dt'"
    unfolding grows_def name_edges_names [OF ok] name_edges_names [OF assms(1)] using dt'(2-5) ok by auto
  with dt'(1) show ?thesis by blast
qed

lemma grows_indexed: "grows E dt dt' \<Longrightarrow> reads_indexed rs dt \<Longrightarrow> reads_indexed rs dt'"
  by (simp add: grows_def reads_indexed_def)

lemma fold_grows:
  assumes "\<And>x dt. x \<in> set xs \<Longrightarrow> edges_ok (dt_points dt) \<Longrightarrow> reads_indexed rs dt \<Longrightarrow> length (dt_points dt) = n \<Longrightarrow>
      point_names dt = names \<Longrightarrow> \<exists>dt'. f x dt = Inr dt' \<and> grows (E x) dt dt'"
    and "edges_ok (dt_points dt)" and "reads_indexed rs dt" and "length (dt_points dt) = n" and "point_names dt = names"
  shows "\<exists>dt'. fold_outcome f xs dt = Inr dt' \<and> grows (\<Union> (E ` set xs)) dt dt'"
  using assms
proof (induction xs arbitrary: dt)
  case Nil
  then show ?case by (simp add: grows_def)
next
  case (Cons x xs)
  then obtain dt1 where dt1: "f x dt = Inr dt1" "grows (E x) dt dt1" by force
  then have "edges_ok (dt_points dt1)" "point_names dt1 = names" using Cons.prems(5) by (simp_all add: grows_def)
  moreover from this have "length (dt_points dt1) = n" using Cons.prems(4,5) by (metis point_names_length)
  ultimately obtain dt2 where "fold_outcome f xs dt1 = Inr dt2" "grows (\<Union> (E ` set xs)) dt1 dt2"
    using Cons.IH [of dt1] Cons.prems(1) grows_indexed [OF dt1(2) Cons.prems(3)] by auto
  with dt1 grows_trans [OF dt1(2)] show ?case by auto
qed


definition source_edges :: "event_heap \<Rightarrow> event_ref \<Rightarrow> expr \<Rightarrow> (string \<times> string) set" where
  "source_edges h w x = {(n, full_name h w) |n. getFullName x = Inr n}"

text \<open>The reads a write draws on affect it, and it affects the reads of its variable.\<close>

definition write_edges :: "event_heap \<Rightarrow> trace \<Rightarrow> event_ref \<Rightarrow> (string \<times> string) set" where
  "write_edges h tr w =
     (\<Union>x\<in>set (ev_relatedSymbolicExpr (h w)). source_edges h w x) \<union>
     {(full_name h w, full_name h r) |r. r \<in> set (reads_of tr (ev_varName (h w)))}"

definition built :: "event_heap \<Rightarrow> trace \<Rightarrow> event_ref list \<Rightarrow> event_ref list \<Rightarrow> dtam \<Rightarrow> bool" where
  "built h tr rs ws dt \<longleftrightarrow>
     point_names dt = map (full_name h) (rs @ ws) \<and> reads_indexed (map (full_name h) rs) dt \<and>
     edges_ok (dt_points dt) \<and> name_edges (dt_points dt) = (\<Union>w\<in>set ws. write_edges h tr w) \<and>
     om_ok (dt_allWrite dt) \<and>
     (\<forall>n i. om_find (dt_allWrite dt) n = Some i \<longleftrightarrow>
        length rs \<le> i \<and> i < length rs + length ws \<and> full_name h ((rs @ ws) ! i) = n)"

lemma point_edges_snoc:
  "dp_affectingVariable p = [] \<Longrightarrow> point_edges (points @ [p]) = point_edges points"
  by (auto simp: point_edges_def nth_append less_Suc_eq)

lemma add_point_run:
  assumes "edges_ok (dt_points dt)"
  shows "point_names (add_point e dt) = point_names dt @ [ev_globalVarFullName e]"
    "edges_ok (dt_points (add_point e dt))" "name_edges (dt_points (add_point e dt)) = name_edges (dt_points dt)"
    "dt_allRead (add_point e dt) = dt_allRead dt" "dt_allWrite (add_point e dt) = dt_allWrite dt"
proof -
  let ?p = "new_DTAMPoint (ev_globalVarFullName e) (ev_vectorClock e)"
  have edges: "point_edges (dt_points dt @ [?p]) = point_edges (dt_points dt)"
    by (rule point_edges_snoc) (simp add: new_DTAMPoint_def)
  show "point_names (add_point e dt) = point_names dt @ [ev_globalVarFullName e]"
    by (simp add: point_names_def add_point_def new_DTAMPoint_def)
  show "edges_ok (dt_points (add_point e dt))" using assms edges by (auto simp: edges_ok_def add_point_def)
  show "name_edges (dt_points (add_point e dt)) = name_edges (dt_points dt)"
    unfolding name_edges_def add_point_def using assms edges
    by (auto simp: edges_ok_def nth_append intro!: image_cong)
qed (simp_all add: add_point_def)

lemma add_reads_built:
  assumes "distinct (map (full_name h) rs)"
  shows "built h tr rs [] (fold (add_read h) rs new_DTAM)"
  using assms
proof (induction rs rule: rev_induct)
  case Nil
  then show ?case
    by (simp add: built_def new_DTAM_def point_names_def reads_indexed_def edges_ok_def point_edges_def name_edges_def)
next
  case (snoc r rs)
  let ?dt = "fold (add_read h) rs new_DTAM"
  from snoc have IH: "built h tr rs [] ?dt" by simp
  then have ok: "edges_ok (dt_points ?dt)" and names: "point_names ?dt = map (full_name h) rs"
    and idx: "reads_indexed (map (full_name h) rs) ?dt" by (simp_all add: built_def)
  have len: "length (dt_points ?dt) = length rs" using names by (metis length_map point_names_length)
  have fresh: "full_name h r \<notin> set (map (full_name h) rs)" using snoc.prems by simp
  have other: "full_name h (rs ! i) \<noteq> full_name h r" if "i < length rs" for i
    using fresh nth_mem [OF that] by (metis image_eqI list.set_map)
  note add = add_point_run [OF ok, of "h r"]
  have "reads_indexed (map (full_name h) (rs @ [r])) (add_read h r ?dt)"
    using idx add snoc.prems names len fresh other
    by (auto simp: reads_indexed_def add_read_def om_find_put point_names_def nth_append less_Suc_eq)
  with IH add names show ?case by (auto simp: built_def add_read_def [of h r] point_names_def)
qed

lemma add_write_built:
  assumes built: "built h tr rs ws dt" and fresh: "full_name h w \<notin> set (map (full_name h) (rs @ ws))"
    and sources: "\<forall>x\<in>set (ev_relatedSymbolicExpr (h w)). \<exists>n\<in>set (map (full_name h) rs). getFullName x = Inr n"
    and reads: "set (reads_of tr (ev_varName (h w))) \<subseteq> set rs"
  shows "\<exists>dt'. add_write h tr w dt = Inr dt' \<and> built h tr rs (ws @ [w]) dt'"
proof -
  let ?p = "length (dt_points dt)" and ?rs = "map (full_name h) rs" and ?dt = "add_point (h w) dt"
  let ?names = "map (full_name h) (rs @ ws @ [w])"
  note b = built [unfolded built_def]
  have len: "?p = length rs + length ws" using b by (metis length_append length_map point_names_length)
  note add = add_point_run [of dt "h w"]
  have dt0: "edges_ok (dt_points ?dt)" "reads_indexed ?rs ?dt" "point_names ?dt = ?names" "length (dt_points ?dt) = Suc ?p"
    using b add by (auto simp: reads_indexed_def add_point_def)
  have name_p: "?names ! ?p = full_name h w" using len by (simp add: nth_append)
  have src: "\<exists>dt'. link_source ?p x d = Inr dt' \<and> grows (source_edges h w x) d dt'"
    if "x \<in> set (ev_relatedSymbolicExpr (h w))" "edges_ok (dt_points d)" "reads_indexed ?rs d"
      "length (dt_points d) = Suc ?p" "point_names d = ?names" for x d
  proof -
    from sources that(1) obtain n where n: "n \<in> set ?rs" "getFullName x = Inr n" by blast
    from find_read_runs [OF that(3) n(1)] obtain i where
      i: "find_read n d = Inr i" "i < length (dt_points d)" "point_names d ! i = n" by blast
    have "source_edges h w x = {(n, full_name h w)}" using n(2) by (simp add: source_edges_def)
    with link_points_grows [OF that(2) i(2), of ?p] i n(2) that(4,5) name_p show ?thesis
      by (simp add: link_source_def)
  qed
  have rd: "\<exists>dt'. link_read h ?p r d = Inr dt' \<and> grows {(full_name h w, full_name h r)} d dt'"
    if "r \<in> set (reads_of tr (ev_varName (h w)))" "edges_ok (dt_points d)" "reads_indexed ?rs d"
      "length (dt_points d) = Suc ?p" "point_names d = ?names" for r d
  proof -
    from reads that(1) have "full_name h r \<in> set ?rs" by auto
    from find_read_runs [OF that(3) this] obtain i where
      i: "find_read (full_name h r) d = Inr i" "i < length (dt_points d)" "point_names d ! i = full_name h r" by blast
    with link_points_grows [OF that(2), of ?p i] that(4,5) name_p show ?thesis by (simp add: link_read_def)
  qed
  from fold_grows [of "ev_relatedSymbolicExpr (h w)" ?rs "Suc ?p" ?names "link_source ?p" "source_edges h w", OF src dt0(1,2,4,3)]
  obtain dt1 where dt1: "fold_outcome (link_source ?p) (ev_relatedSymbolicExpr (h w)) ?dt = Inr dt1"
    "grows (\<Union> (source_edges h w ` set (ev_relatedSymbolicExpr (h w)))) ?dt dt1" by blast
  then have dt1_ok: "edges_ok (dt_points dt1)" "reads_indexed ?rs dt1" "point_names dt1 = ?names" "length (dt_points dt1) = Suc ?p"
    using dt0 grows_indexed [OF dt1(2) dt0(2)] by (auto simp: grows_def) (metis dt0(4) point_names_length)
  from fold_grows [of "reads_of tr (ev_varName (h w))" ?rs "Suc ?p" ?names "link_read h ?p"
      "\<lambda>r. {(full_name h w, full_name h r)}", OF rd dt1_ok(1,2,4,3)]
  obtain dt2 where dt2: "fold_outcome (link_read h ?p) (reads_of tr (ev_varName (h w))) dt1 = Inr dt2"
    "grows (\<Union>r\<in>set (reads_of tr (ev_varName (h w))). {(full_name h w, full_name h r)}) dt1 dt2" by blast
  let ?dt2 = "dt2\<lparr>dt_allWrite := om_put (full_name h w) ?p (dt_allWrite dt2)\<rparr>"
  have run: "add_write h tr w dt = Inr ?dt2" using dt1(1) dt2(1) by (simp add: add_write_def Let_def)
  have g: "grows (write_edges h tr w) ?dt dt2"
    using grows_trans [OF dt1(2) dt2(2)] by (auto simp: write_edges_def grows_def)
  have aw: "dt_allWrite dt2 = dt_allWrite dt" using g add b by (simp add: grows_def)
  have other: "full_name h (ws ! i) \<noteq> full_name h w" if "i < length ws" for i
    using fresh nth_mem [OF that] by (metis Un_iff image_eqI list.set_map set_append)
  have "\<forall>n i. om_find (dt_allWrite ?dt2) n = Some i \<longleftrightarrow>
      length rs \<le> i \<and> i < length rs + length (ws @ [w]) \<and> full_name h ((rs @ ws @ [w]) ! i) = n"
    using b aw fresh len other by (auto simp: om_find_put nth_append less_Suc_eq)
  with run g grows_indexed [OF g dt0(2)] aw b add dt0(3) show ?thesis
    by (auto simp: built_def grows_def point_names_def reads_indexed_def)
qed


text \<open>
  A trace whose accesses have different full names and whose writes draw on recorded reads only.
\<close>

definition accesses_ok :: "event_heap \<Rightarrow> trace \<Rightarrow> bool" where
  "accesses_ok h tr \<longleftrightarrow>
     distinct (map (full_name h) (all_events (tr_allReadSet tr) @ all_events (tr_allWriteSet tr))) \<and>
     (\<forall>w\<in>set (all_events (tr_allWriteSet tr)). \<forall>x\<in>set (ev_relatedSymbolicExpr (h w)).
        \<exists>n\<in>set (map (full_name h) (all_events (tr_allReadSet tr))). getFullName x = Inr n)"

definition access_edges :: "event_heap \<Rightarrow> trace \<Rightarrow> (string \<times> string) set" where
  "access_edges h tr = (\<Union>w\<in>set (all_events (tr_allWriteSet tr)). write_edges h tr w)"

lemma reads_of_events: "set (reads_of tr v) \<subseteq> set (all_events (tr_allReadSet tr))"
proof (cases "om_find (tr_allReadSet tr) v")
  case (Some es)
  then have "(v, es) \<in> set (tr_allReadSet tr)" by (rule map_of_SomeD)
  with Some show ?thesis by (force simp: reads_of_def all_events_def)
qed (simp add: reads_of_def)

lemma add_writes_built:
  assumes "accesses_ok h tr" and "rs = all_events (tr_allReadSet tr)" and "set ws2 \<subseteq> set (all_events (tr_allWriteSet tr))"
    and "distinct (map (full_name h) (rs @ ws @ ws2))" and "built h tr rs ws dt"
  shows "\<exists>dt'. fold_outcome (add_write h tr) ws2 dt = Inr dt' \<and> built h tr rs (ws @ ws2) dt'"
  using assms(3-5)
proof (induction ws2 arbitrary: ws dt)
  case (Cons w ws2)
  have "\<forall>x\<in>set (ev_relatedSymbolicExpr (h w)). \<exists>n\<in>set (map (full_name h) rs). getFullName x = Inr n"
    using assms(1,2) Cons.prems(1) unfolding accesses_ok_def by (meson list.set_intros(1) subsetD)
  moreover have "full_name h w \<notin> set (map (full_name h) (rs @ ws))" using Cons.prems(2) by auto
  ultimately obtain dt1 where "add_write h tr w dt = Inr dt1" "built h tr rs (ws @ [w]) dt1"
    using add_write_built [OF Cons.prems(3)] reads_of_events [of tr] assms(2) by blast
  moreover have "set ws2 \<subseteq> set (all_events (tr_allWriteSet tr))" "distinct (map (full_name h) (rs @ (ws @ [w]) @ ws2))"
    using Cons.prems by auto
  ultimately show ?case using Cons.IH [of "ws @ [w]" dt1] by auto
qed simp

lemma DTAMParallel_built:
  assumes "accesses_ok h tr"
  shows "\<exists>dt. DTAMParallel h tr new_DTAM = Inr (dt, touch_reads h (all_events (tr_allWriteSet tr)) tr) \<and>
    built h tr (all_events (tr_allReadSet tr)) (all_events (tr_allWriteSet tr)) dt"
proof -
  let ?rs = "all_events (tr_allReadSet tr)" and ?ws = "all_events (tr_allWriteSet tr)"
  have "distinct (map (full_name h) ?rs)" using assms by (simp add: accesses_ok_def)
  from add_writes_built [OF assms refl _ _ add_reads_built [OF this, of tr], of ?ws] assms show ?thesis
    by (auto simp: accesses_ok_def DTAMParallel_def)
qed

lemma built_ok:
  assumes "built h tr rs ws dt"
  shows "dtam_ok dt"
proof -
  note b = assms [unfolded built_def]
  have len: "length (dt_points dt) = length rs + length ws" using b by (metis length_append length_map point_names_length)
  have "snd ` set (dt_allRead dt) = ran (om_find (dt_allRead dt))"
    using b by (simp add: reads_indexed_def om_ok_distinct ran_distinct)
  also have "\<dots> = {..<length rs}" using b by (auto simp: ran_def reads_indexed_def)
  finally have R: "snd ` set (dt_allRead dt) = {..<length rs}" .
  have "snd ` set (dt_allWrite dt) = ran (om_find (dt_allWrite dt))" using b by (simp add: om_ok_distinct ran_distinct)
  also have "\<dots> = {length rs..<length rs + length ws}" using b by (auto simp: ran_def)
  finally have W: "snd ` set (dt_allWrite dt) = {length rs..<length rs + length ws}" .
  have "{length rs..<length rs + length ws} \<union> {..<length rs} = {..<length rs + length ws}" by auto
  with R W b len show ?thesis by (simp add: dtam_ok_def)
qed

subsection \<open>Reaching by points and by names\<close>

lemma reach_names:
  assumes "edges_ok points" and "distinct (map dp_name points)" and S: "S \<subseteq> {..<length points}"
  shows "(\<lambda>p. dp_name (points ! p)) ` ((point_edges points)\<^sup>* `` S) =
    (name_edges points)\<^sup>* `` ((\<lambda>p. dp_name (points ! p)) ` S)"
proof (intro equalityI subsetI)
  fix n assume "n \<in> (\<lambda>p. dp_name (points ! p)) ` ((point_edges points)\<^sup>* `` S)"
  then obtain p q where "(p, q) \<in> (point_edges points)\<^sup>*" "p \<in> S" "n = dp_name (points ! q)" by blast
  moreover from this(1) have "(dp_name (points ! p), dp_name (points ! q)) \<in> (name_edges points)\<^sup>*"
    by (induction rule: rtrancl_induct) (auto simp: name_edges_def intro: rtrancl_into_rtrancl)
  ultimately show "n \<in> (name_edges points)\<^sup>* `` ((\<lambda>p. dp_name (points ! p)) ` S)" by blast
next
  fix n assume "n \<in> (name_edges points)\<^sup>* `` ((\<lambda>p. dp_name (points ! p)) ` S)"
  then obtain p where "(dp_name (points ! p), n) \<in> (name_edges points)\<^sup>*" "p \<in> S" by blast
  then show "n \<in> (\<lambda>p. dp_name (points ! p)) ` ((point_edges points)\<^sup>* `` S)"
  proof (induction rule: rtrancl_induct)
    case base
    then show ?case by blast
  next
    case (step n m)
    then obtain q where q: "n = dp_name (points ! q)" "q \<in> (point_edges points)\<^sup>* `` S" by blast
    from step(2) obtain i j where ij: "(i, j) \<in> point_edges points" "n = dp_name (points ! i)" "m = dp_name (points ! j)"
      by (auto simp: name_edges_def)
    have "q < length points" "i < length points"
      using edges_reach_ok [OF assms(1) S] q(2) ij(1) by (auto simp: point_edges_def)
    then have "q = i" using assms(2) q(1) ij(2) by (metis distinct_conv_nth length_map nth_map)
    with q(2) ij show ?case by (blast intro: rtrancl_into_rtrancl)
  qed
qed

lemma seeds_names:
  "(\<lambda>p. dp_name (points ! p)) ` seeds serial points = set (map dp_name points) \<inter> set serial"
proof
  show "set (map dp_name points) \<inter> set serial \<subseteq> (\<lambda>p. dp_name (points ! p)) ` seeds serial points"
  proof
    fix n assume n: "n \<in> set (map dp_name points) \<inter> set serial"
    then obtain p where "p < length points" "n = dp_name (points ! p)"
      by (metis IntD1 in_set_conv_nth length_map nth_map)
    with n show "n \<in> (\<lambda>p. dp_name (points ! p)) ` seeds serial points" by (auto simp: seeds_def)
  qed
qed (auto simp: seeds_def)

lemma built_taint_names:
  assumes "accesses_ok h tr"
    and "built h tr (all_events (tr_allReadSet tr)) (all_events (tr_allWriteSet tr)) dt"
  shows "taint_names serial (dt_points dt) = (access_edges h tr)\<^sup>* ``
    (set (map (full_name h) (all_events (tr_allReadSet tr) @ all_events (tr_allWriteSet tr))) \<inter> set serial)"
proof -
  note b = assms(2) [unfolded built_def]
  have names: "map dp_name (dt_points dt) = map (full_name h) (all_events (tr_allReadSet tr) @ all_events (tr_allWriteSet tr))"
    using b by (simp add: point_names_def)
  have "seeds serial (dt_points dt) \<subseteq> {..<length (dt_points dt)}" by (auto simp: seeds_def)
  moreover have "distinct (map dp_name (dt_points dt))" using assms(1) unfolding names accesses_ok_def by blast
  ultimately show ?thesis
    using b reach_names [of "dt_points dt" "seeds serial (dt_points dt)"] names
    by (simp add: taint_names_def seeds_names access_edges_def)
qed



section \<open>The clocks\<close>

lemma count_clock_counts:
  "length cs \<le> length ds \<Longrightarrow> count_clock cs ds before after =
     Inr (before + of_nat (length (filter (\<lambda>(c, d). c < d) (zip cs ds))),
          after + of_nat (length (filter (\<lambda>(c, d). d < c) (zip cs ds))))"
  by (induction cs ds before after rule: count_clock.induct) (auto simp: ac_simps)

text \<open>Every entry is at least as large and some entry is larger.\<close>

definition strictly_after :: "uint list \<Rightarrow> uint list \<Rightarrow> bool" where
  "strictly_after cs ds \<longleftrightarrow> list_all2 (\<lambda>c d. d \<le> c) cs ds \<and> cs \<noteq> ds"

lemma strictly_after_counts:
  assumes "length cs = length ds"
  shows "strictly_after cs ds \<longleftrightarrow>
    filter (\<lambda>(c, d). c < d) (zip cs ds) = [] \<and> filter (\<lambda>(c, d). d < c) (zip cs ds) \<noteq> []"
  using assms
proof (induction cs ds rule: list_induct2)
  case (Cons c cs d ds)
  have "list_all2 (\<lambda>c d. d \<le> c) cs ds \<longleftrightarrow> filter (\<lambda>(c, d). c < d) (zip cs ds) = []"
    using Cons.hyps by (auto simp: list_all2_iff filter_empty_conv not_less)
  with Cons.IH show ?case by (auto simp: strictly_after_def not_less)
qed (simp add: strictly_after_def)

lemma of_nat_zero_iff: "k < 2 ^ 32 \<Longrightarrow> (of_nat k :: uint) = 0 \<longleftrightarrow> k = 0"
  by (simp add: word_of_nat_eq_0_iff dvd_eq_mod_eq_0)

lemma isBefore_clocks:
  assumes "length (dp_vectorClock p) = length (dp_vectorClock q)" and "length (dp_vectorClock p) < 2 ^ 32"
  shows "isBefore p q = Inr (\<not> strictly_after (dp_vectorClock p) (dp_vectorClock q))"
proof -
  let ?z = "zip (dp_vectorClock p) (dp_vectorClock q)"
  have "length (filter P ?z) < 2 ^ 32" for P
    using assms(2) length_filter_le [of P ?z] by simp
  then show ?thesis
    using assms(1)
    by (simp add: isBefore_def count_clock_counts strictly_after_counts of_nat_zero_iff word_gt_0)
qed

lemma hybrid_scan_keeps:
  "hybrid_scan points p rs = Inr kept \<Longrightarrow> kept = filter (\<lambda>r. isBefore (points ! p) (points ! r) = Inr True) rs"
  by (induction points p rs arbitrary: kept rule: hybrid_scan.induct) (auto simp: outcome_simps split: if_splits)

lemma hybrid_scan_removed:
  "hybrid_scan points p rs = Inr kept \<Longrightarrow> r \<in> set rs \<Longrightarrow> isBefore (points ! p) (points ! r) = Inr False \<Longrightarrow>
     p \<notin> set (dp_affectingVariable (points ! r))"
  by (induction rs arbitrary: kept) (auto simp: outcome_simps split: if_splits)

text \<open>The edges that remain when the writes \<open>W\<close> were checked.\<close>

definition clock_edges :: "nat set \<Rightarrow> dtam_point list \<Rightarrow> (nat \<times> nat) set" where
  "clock_edges W points =
     {(i, j) \<in> point_edges points. i \<in> W \<longrightarrow> isBefore (points ! i) (points ! j) = Inr True}"

definition same_clocks :: "dtam_point list \<Rightarrow> dtam_point list \<Rightarrow> bool" where
  "same_clocks points points' \<longleftrightarrow>
     map dp_name points' = map dp_name points \<and> map dp_vectorClock points' = map dp_vectorClock points"

lemma same_clocks_length: "same_clocks a b \<Longrightarrow> length b = length a"
  unfolding same_clocks_def by (metis length_map)

lemma same_clocks_nth:
  "same_clocks a b \<Longrightarrow> i < length a \<Longrightarrow> dp_name (b ! i) = dp_name (a ! i) \<and> dp_vectorClock (b ! i) = dp_vectorClock (a ! i)"
  unfolding same_clocks_def by (metis length_map nth_map)

lemma same_clocks_isBefore:
  "same_clocks a b \<Longrightarrow> i < length a \<Longrightarrow> j < length a \<Longrightarrow> isBefore (b ! i) (b ! j) = isBefore (a ! i) (a ! j)"
  by (simp add: isBefore_def same_clocks_nth)

lemma hybrid_point_result:
  assumes "hybrid_point p dt = Inr dt'" and "edges_ok (dt_points dt)"
  shows "same_clocks (dt_points dt) (dt_points dt') \<and> dt_allRead dt' = dt_allRead dt \<and> dt_allWrite dt' = dt_allWrite dt \<and>
    edges_ok (dt_points dt') \<and> point_edges (dt_points dt') = clock_edges {p} (dt_points dt)"
proof -
  let ?q = "dt_points dt ! p"
  from assms(1) obtain kept where
    p: "p < length (dt_points dt)" "hybrid_scan (dt_points dt) p (dp_affectingVariable ?q) = Inr kept"
      "dt' = dt\<lparr>dt_points := (dt_points dt)[p := ?q\<lparr>dp_affectingVariable := kept\<rparr>]\<rparr>"
    by (auto simp: hybrid_point_def outcome_simps)
  have clocks: "same_clocks (dt_points dt) (dt_points dt')"
    using p(1,3) by (auto simp: same_clocks_def nth_list_update intro!: nth_equalityI)
  have edges: "point_edges (dt_points dt') = clock_edges {p} (dt_points dt)"
    using p hybrid_scan_keeps [OF p(2)]
    by (auto simp: point_edges_def clock_edges_def nth_list_update split: if_splits)
  then have "edges_ok (dt_points dt')"
    using assms(2) same_clocks_length [OF clocks] by (auto simp: edges_ok_def clock_edges_def)
  with clocks edges p(3) show ?thesis by simp
qed

lemma hybrid_points_result:
  assumes "fold_outcome hybrid_point ps dt = Inr dt'" and "edges_ok (dt_points dt)"
  shows "same_clocks (dt_points dt) (dt_points dt') \<and> dt_allRead dt' = dt_allRead dt \<and> dt_allWrite dt' = dt_allWrite dt \<and>
    edges_ok (dt_points dt') \<and> point_edges (dt_points dt') = clock_edges (set ps) (dt_points dt)"
  using assms
proof (induction ps arbitrary: dt)
  case Nil
  then show ?case by (auto simp: same_clocks_def clock_edges_def)
next
  case (Cons p ps)
  then obtain dt1 where dt1: "hybrid_point p dt = Inr dt1" "fold_outcome hybrid_point ps dt1 = Inr dt'"
    by (auto simp: outcome_simps)
  note one = hybrid_point_result [OF dt1(1) Cons.prems(2)]
  then have ok1: "edges_ok (dt_points dt1)" by blast
  note rest = Cons.IH [OF dt1(2) ok1]
  have "clock_edges (set ps) (dt_points dt1) = clock_edges (set (p # ps)) (dt_points dt)"
    using one Cons.prems(2) same_clocks_isBefore [of "dt_points dt" "dt_points dt1"]
    by (auto simp: clock_edges_def edges_ok_def)
  with one rest show ?case by (auto simp: same_clocks_def)
qed

lemma DTAMhybrid_result:
  assumes "DTAMhybrid dt = Inr dt'" and "dtam_ok dt"
  shows "dtam_ok dt' \<and> same_clocks (dt_points dt) (dt_points dt') \<and>
    point_edges (dt_points dt') = clock_edges (set (map snd (dt_allWrite dt))) (dt_points dt)"
  using hybrid_points_result [of "map snd (dt_allWrite dt)" dt dt'] assms
  by (auto simp: DTAMhybrid_def dtam_ok_def same_clocks_length)

lemma taint_names_mono:
  assumes "same_clocks a b" and "point_edges b \<subseteq> point_edges a" and "edges_ok a"
  shows "taint_names serial b \<subseteq> taint_names serial a"
proof -
  have seeds: "seeds serial b = seeds serial a"
    using same_clocks_length [OF assms(1)] same_clocks_nth [OF assms(1)] by (auto simp: seeds_def)
  have reach: "(point_edges b)\<^sup>* `` seeds serial a \<subseteq> (point_edges a)\<^sup>* `` seeds serial a"
    using rtrancl_mono [OF assms(2)] by blast
  have lt: "(point_edges a)\<^sup>* `` seeds serial a \<subseteq> {..<length a}"
    using assms(3) by (intro edges_reach_ok) (auto simp: seeds_def)
  show ?thesis
  proof
    fix n assume "n \<in> taint_names serial b"
    then obtain p where p: "p \<in> (point_edges b)\<^sup>* `` seeds serial a" "n = dp_name (b ! p)"
      by (auto simp: taint_names_def seeds)
    with reach lt have "p \<in> (point_edges a)\<^sup>* `` seeds serial a" "p < length a" by blast+
    with p(2) same_clocks_nth [OF assms(1)] show "n \<in> taint_names serial a" by (auto simp: taint_names_def)
  qed
qed

lemma taint_names_seeds:
  assumes "same_clocks a b"
  shows "set (map dp_name a) \<inter> set serial \<subseteq> taint_names serial b"
proof -
  have "set (map dp_name b) = set (map dp_name a)" using assms unfolding same_clocks_def by metis
  moreover have "(\<lambda>p. dp_name (b ! p)) ` seeds serial b \<subseteq> taint_names serial b"
    unfolding taint_names_def by (rule image_mono) blast
  ultimately show ?thesis by (simp add: seeds_names)
qed



section \<open>Properties\<close>

text \<open>
  (C3) On a trace whose accesses have distinct names and whose writes draw on recorded reads, the parallel analysis
  returns and taints exactly the accesses reachable from the serially tainted ones in the graph of the
  trace: from a write to the reads of its variable and from a read to the writes that use it.
\<close>

theorem DTAMParallel_taints_reachable:
  assumes "accesses_ok h tr"
  shows "\<exists>dt tr' dt' taint. DTAMParallel h tr new_DTAM = Inr (dt, tr') \<and> initTaint serial dt = Inr dt' \<and>
    getTaint dt' [] = Inr taint \<and>
    set taint = (access_edges h tr)\<^sup>* ``
      (set (map (full_name h) (all_events (tr_allReadSet tr) @ all_events (tr_allWriteSet tr))) \<inter> set serial)"
proof -
  from DTAMParallel_built [OF assms] obtain dt tr' where
    dt: "DTAMParallel h tr new_DTAM = Inr (dt, tr')"
      "built h tr (all_events (tr_allReadSet tr)) (all_events (tr_allWriteSet tr)) dt" by blast
  from init_and_get_taint [OF built_ok [OF dt(2)], of serial "[]"] built_taint_names [OF assms dt(2), of serial] dt(1)
  show ?thesis by auto
qed

definition sample_access :: "string \<Rightarrow> string \<Rightarrow> uint list \<Rightarrow> expr list \<Rightarrow> event" where
  "sample_access var full clock related =
     (Event 0 0 0 [] 0 var full NORMAL)\<lparr>ev_vectorClock := clock, ev_relatedSymbolicExpr := related\<rparr>"

text \<open>\<open>y = x\<close>: the write of \<open>G2\<close> draws on the read of \<open>G1\<close>, and \<open>G2\<close> is read later.\<close>

definition copy_heap :: event_heap where
  "copy_heap e =
     (if e = 0 then sample_access ''G1'' ''G1L1'' [1] []
      else if e = 1 then sample_access ''G2'' ''G2L1'' [3] []
      else sample_access ''G2'' ''G2S1'' [2] [sample_read ''G1L1''])"

definition copy_trace :: trace where
  "copy_trace = new_Trace\<lparr>tr_allReadSet := [(''G1'', [0]), (''G2'', [1])], tr_allWriteSet := [(''G2'', [2])]\<rparr>"

theorem DTAMParallel_taints_reachable_witness:
  "\<exists>dt tr' dt' taint. DTAMParallel copy_heap copy_trace new_DTAM = Inr (dt, tr') \<and> initTaint [''G1L1''] dt = Inr dt' \<and>
     getTaint dt' [] = Inr taint \<and> {''G1L1'', ''G2S1'', ''G2L1''} \<subseteq> set taint"
proof -
  have "accesses_ok copy_heap copy_trace"
    by (simp add: accesses_ok_def copy_heap_def copy_trace_def all_events_def sample_access_def Event_def getFullName_def sample_read_def)
  moreover have "(''G1L1'', ''G2S1'') \<in> access_edges copy_heap copy_trace" "(''G2S1'', ''G2L1'') \<in> access_edges copy_heap copy_trace"
    by (simp_all add: access_edges_def write_edges_def source_edges_def copy_heap_def copy_trace_def all_events_def reads_of_def
        sample_access_def Event_def getFullName_def sample_read_def)
  moreover from this have "{''G1L1'', ''G2S1'', ''G2L1''} \<subseteq> (access_edges copy_heap copy_trace)\<^sup>* `` {''G1L1''}"
    by (auto intro: rtrancl_into_rtrancl)
  moreover have "set (map (full_name copy_heap) (all_events (tr_allReadSet copy_trace) @ all_events (tr_allWriteSet copy_trace)))
      \<inter> set [''G1L1''] = {''G1L1''}"
    by (auto simp: copy_heap_def copy_trace_def all_events_def sample_access_def Event_def)
  ultimately show ?thesis
    using DTAMParallel_taints_reachable [of copy_heap copy_trace "[''G1L1'']"] by auto
qed

text \<open>
  (C11) The hybrid analysis keeps exactly the pairs of a write and a read whose clocks do not place the
  write strictly after the read; what it taints contains the serially tainted accesses and lies within what the
  parallel analysis taints.
\<close>

theorem DTAMhybrid_within_parallel:
  assumes "dtam_ok dt" and "DTAMhybrid dt = Inr dt'"
    and "\<forall>p\<in>set (dt_points dt). length (dp_vectorClock p) = n" and "n < 2 ^ 32"
  shows "(\<forall>i j. (i, j) \<in> point_edges (dt_points dt') \<longleftrightarrow> (i, j) \<in> point_edges (dt_points dt) \<and>
      (i \<in> set (map snd (dt_allWrite dt)) \<longrightarrow>
        \<not> strictly_after (dp_vectorClock (dt_points dt ! i)) (dp_vectorClock (dt_points dt ! j)))) \<and>
    (\<exists>dt1 dt2 parallel hybrid. initTaint serial dt = Inr dt1 \<and> getTaint dt1 [] = Inr parallel \<and>
       initTaint serial dt' = Inr dt2 \<and> getTaint dt2 [] = Inr hybrid \<and>
       set (map dp_name (dt_points dt)) \<inter> set serial \<subseteq> set hybrid \<and> set hybrid \<subseteq> set parallel)"
proof
  from DTAMhybrid_result [OF assms(2,1)] have
    r: "dtam_ok dt'" "same_clocks (dt_points dt) (dt_points dt')"
      "point_edges (dt_points dt') = clock_edges (set (map snd (dt_allWrite dt))) (dt_points dt)" by blast+
  have "isBefore (dt_points dt ! i) (dt_points dt ! j) =
      Inr (\<not> strictly_after (dp_vectorClock (dt_points dt ! i)) (dp_vectorClock (dt_points dt ! j)))"
    if "(i, j) \<in> point_edges (dt_points dt)" for i j
  proof -
    from that assms(1) have "i < length (dt_points dt)" "j < length (dt_points dt)"
      by (auto simp: dtam_ok_def edges_ok_def)
    with assms(3,4) show ?thesis by (intro isBefore_clocks) (simp_all add: nth_mem)
  qed
  then show "\<forall>i j. (i, j) \<in> point_edges (dt_points dt') \<longleftrightarrow> (i, j) \<in> point_edges (dt_points dt) \<and>
      (i \<in> set (map snd (dt_allWrite dt)) \<longrightarrow>
        \<not> strictly_after (dp_vectorClock (dt_points dt ! i)) (dp_vectorClock (dt_points dt ! j)))"
    unfolding r(3) clock_edges_def by auto
  have "point_edges (dt_points dt') \<subseteq> point_edges (dt_points dt)" unfolding r(3) clock_edges_def by auto
  with taint_names_mono [OF r(2)] assms(1) have "taint_names serial (dt_points dt') \<subseteq> taint_names serial (dt_points dt)"
    by (simp add: dtam_ok_def)
  with init_and_get_taint [OF assms(1), of serial "[]"] init_and_get_taint [OF r(1), of serial "[]"] taint_names_seeds [OF r(2), of serial]
  show "\<exists>dt1 dt2 parallel hybrid. initTaint serial dt = Inr dt1 \<and> getTaint dt1 [] = Inr parallel \<and>
       initTaint serial dt' = Inr dt2 \<and> getTaint dt2 [] = Inr hybrid \<and>
       set (map dp_name (dt_points dt)) \<inter> set serial \<subseteq> set hybrid \<and> set hybrid \<subseteq> set parallel"
    by fastforce
qed


lemma copy_accesses_ok: "accesses_ok copy_heap copy_trace"
  by (simp add: accesses_ok_def copy_heap_def copy_trace_def all_events_def sample_access_def Event_def getFullName_def sample_read_def)

theorem DTAMhybrid_within_parallel_witness:
  "\<exists>dt tr' dt' dt2 hybrid. DTAMParallel copy_heap copy_trace new_DTAM = Inr (dt, tr') \<and> DTAMhybrid dt = Inr dt' \<and>
     initTaint [''G1L1''] dt' = Inr dt2 \<and> getTaint dt2 [] = Inr hybrid \<and> ''G1L1'' \<in> set hybrid"
proof -
  from DTAMParallel_built [OF copy_accesses_ok] obtain dt tr' where
    dt: "DTAMParallel copy_heap copy_trace new_DTAM = Inr (dt, tr')"
      "built copy_heap copy_trace (all_events (tr_allReadSet copy_trace)) (all_events (tr_allWriteSet copy_trace)) dt" by blast
  have "case DTAMParallel copy_heap copy_trace new_DTAM of
      Inr (dt, _) \<Rightarrow> (case DTAMhybrid dt of Inr _ \<Rightarrow> True | Inl _ \<Rightarrow> False) \<and>
        list_all (\<lambda>p. length (dp_vectorClock p) = 1) (dt_points dt) \<and> ''G1L1'' \<in> set (map dp_name (dt_points dt))
    | Inl _ \<Rightarrow> False"
    by code_simp
  with dt(1) obtain dt' where dt': "DTAMhybrid dt = Inr dt'" "\<forall>p\<in>set (dt_points dt). length (dp_vectorClock p) = 1"
    "''G1L1'' \<in> set (map dp_name (dt_points dt))"
    by (auto simp: list_all_iff split: sum.splits)
  from DTAMhybrid_within_parallel [OF built_ok [OF dt(2)] dt'(1,2), of "[''G1L1'']"] dt'(3) dt(1) dt'(1)
  show ?thesis by fastforce
qed

text \<open>
  (C37) The hybrid analysis is undefined on every program with an update like \<open>x = x + 1\<close>: when a write both
  draws on a read of its own variable and lies after it, the code erases an element of one vector
  through an iterator of another.
\<close>

theorem DTAMhybrid_update_undefined:
  assumes "dtam_ok dt" and "w \<in> set (map snd (dt_allWrite dt))"
    and "(w, r) \<in> point_edges (dt_points dt)" and "(r, w) \<in> point_edges (dt_points dt)"
    and "r \<notin> set (map snd (dt_allWrite dt))" and "isBefore (dt_points dt ! w) (dt_points dt ! r) = Inr False"
  shows "\<exists>failure. DTAMhybrid dt = Inl failure"
proof (cases "DTAMhybrid dt")
  case (Inr dt')
  from assms(2) obtain ps qs where split: "map snd (dt_allWrite dt) = ps @ w # qs" "w \<notin> set ps"
    by (meson split_list_first)
  with Inr obtain dt1 dt2 where
    dt: "fold_outcome hybrid_point ps dt = Inr dt1" "hybrid_point w dt1 = Inr dt2"
    by (auto simp: DTAMhybrid_def fold_outcome_append outcome_simps)
  have ok: "edges_ok (dt_points dt)" using assms(1) by (simp add: dtam_ok_def)
  note one = hybrid_points_result [OF dt(1) ok]
  have "r \<notin> set ps" using assms(5) split(1) by (metis UnI1 set_append)
  then have edges: "(w, r) \<in> point_edges (dt_points dt1)" "(r, w) \<in> point_edges (dt_points dt1)"
    using one assms(3,4) split(2) by (auto simp: clock_edges_def)
  have "isBefore (dt_points dt1 ! w) (dt_points dt1 ! r) = Inr False"
    using assms(3,6) ok one by (subst same_clocks_isBefore [of "dt_points dt"]) (auto simp: edges_ok_def)
  moreover from dt(2) obtain kept where "hybrid_scan (dt_points dt1) w (dp_affectingVariable (dt_points dt1 ! w)) = Inr kept"
    by (auto simp: hybrid_point_def outcome_simps)
  ultimately have "w \<notin> set (dp_affectingVariable (dt_points dt1 ! r))"
    using edges(1) by (intro hybrid_scan_removed) (auto simp: point_edges_def)
  with edges(2) show ?thesis by (simp add: point_edges_def)
qed simp

text \<open>\<open>x = x + 1\<close>.\<close>

definition update_heap :: event_heap where
  "update_heap e =
     (if e = 0 then sample_access ''G1'' ''G1L1'' [1] [] else sample_access ''G1'' ''G1S1'' [2] [sample_read ''G1L1''])"

definition update_trace :: trace where
  "update_trace = new_Trace\<lparr>tr_allReadSet := [(''G1'', [0])], tr_allWriteSet := [(''G1'', [1])]\<rparr>"

theorem DTAMhybrid_update_undefined_witness:
  "\<exists>dt tr' failure. DTAMParallel update_heap update_trace new_DTAM = Inr (dt, tr') \<and> DTAMhybrid dt = Inl failure"
proof -
  have "accesses_ok update_heap update_trace"
    by (simp add: accesses_ok_def update_heap_def update_trace_def all_events_def sample_access_def Event_def getFullName_def sample_read_def)
  from DTAMParallel_built [OF this] obtain dt tr' where
    dt: "DTAMParallel update_heap update_trace new_DTAM = Inr (dt, tr')" "dtam_ok dt" using built_ok by blast
  have "case DTAMParallel update_heap update_trace new_DTAM of
      Inr (dt, _) \<Rightarrow> map snd (dt_allWrite dt) = [1] \<and> length (dt_points dt) = 2 \<and> 0 \<in> set (dp_affectingVariable (dt_points dt ! 1)) \<and>
        1 \<in> set (dp_affectingVariable (dt_points dt ! 0)) \<and> isBefore (dt_points dt ! 1) (dt_points dt ! 0) = Inr False
    | Inl _ \<Rightarrow> False"
    by code_simp
  with dt(1) have "map snd (dt_allWrite dt) = [1]" "(1, 0) \<in> point_edges (dt_points dt)" "(0, 1) \<in> point_edges (dt_points dt)"
    "isBefore (dt_points dt ! 1) (dt_points dt ! 0) = Inr False"
    by (auto simp: point_edges_def)
  with dt(1) DTAMhybrid_update_undefined [OF dt(2), of 1 0] show ?thesis by simp
qed

end
