(* ===== verification/Bit_Array.thy ===== *)
theory Bit_Array
  imports Prelude
begin

text \<open>
  \<^verbatim>\<open>src/include/klee/util/BitArray.h\<close>: a set of indices as bits of 32-bit words. The contract \<open>bit_map\<close> is what a client
  relies on: inside the bounds the operations return, and change the bit they name only.
  The shift of the signed \<open>1\<close> by 31 places is taken to give the top bit.
\<close>

unbundle bit_operations_syntax

section \<open>The array\<close>

type_synonym bit_array = "uint list"

definition ba_length :: "uint \<Rightarrow> uint" where
  "ba_length sz = (sz + 31) div 32"

definition BitArray :: "uint \<Rightarrow> bool \<Rightarrow> bit_array" where
  "BitArray sz v = replicate (unat (ba_length sz)) (if v then - 1 else 0)"

definition ba_get :: "bit_array \<Rightarrow> uint \<Rightarrow> bool outcome" where
  "ba_get bits idx =
     bind_outcome (at_index bits (unat (idx div 32)))
       (\<lambda>w. Inr (drop_bit (unat (idx AND 31)) w AND 1 \<noteq> 0))"

definition ba_set :: "bit_array \<Rightarrow> uint \<Rightarrow> bit_array outcome" where
  "ba_set bits idx =
     bind_outcome (at_index bits (unat (idx div 32)))
       (\<lambda>w. set_index bits (unat (idx div 32)) (w OR push_bit (unat (idx AND 31)) 1))"

definition ba_unset :: "bit_array \<Rightarrow> uint \<Rightarrow> bit_array outcome" where
  "ba_unset bits idx =
     bind_outcome (at_index bits (unat (idx div 32)))
       (\<lambda>w. set_index bits (unat (idx div 32)) (w AND NOT (push_bit (unat (idx AND 31)) 1)))"


section \<open>The contract\<close>

locale bit_map =
  fixes ok :: "nat \<Rightarrow> 'b \<Rightarrow> bool" and member :: "'b \<Rightarrow> nat \<Rightarrow> bool"
    and get :: "'b \<Rightarrow> uint \<Rightarrow> bool outcome" and sett :: "'b \<Rightarrow> uint \<Rightarrow> 'b outcome" and unset :: "'b \<Rightarrow> uint \<Rightarrow> 'b outcome"
  assumes get_runs: "ok n b \<Longrightarrow> unat i < n \<Longrightarrow> get b i = Inr (member b (unat i))"
    and set_runs: "ok n b \<Longrightarrow> unat i < n \<Longrightarrow>
      \<exists>b'. sett b i = Inr b' \<and> ok n b' \<and> (\<forall>j. member b' j \<longleftrightarrow> j = unat i \<or> member b j)"
    and unset_runs: "ok n b \<Longrightarrow> unat i < n \<Longrightarrow>
      \<exists>b'. unset b i = Inr b' \<and> ok n b' \<and> (\<forall>j. member b' j \<longleftrightarrow> j \<noteq> unat i \<and> member b j)"
begin

text \<open>Marking a list of indices, as the flushing loops do.\<close>

lemma unset_all:
  "ok n b \<Longrightarrow> \<forall>i\<in>List.set is. unat i < n \<Longrightarrow>
     \<exists>b'. fold_outcome (\<lambda>i b. unset b i) is b = Inr b' \<and> ok n b' \<and>
       (\<forall>j. member b' j \<longleftrightarrow> j \<notin> unat ` List.set is \<and> member b j)"
proof (induction "is" arbitrary: b)
  case (Cons i "is")
  then obtain b1 where b1: "unset b i = Inr b1" "ok n b1" "\<forall>j. member b1 j \<longleftrightarrow> j \<noteq> unat i \<and> member b j"
    using unset_runs by (metis list.set_intros(1))
  with Cons.IH [of b1] Cons.prems obtain b2 where
    "fold_outcome (\<lambda>i b. unset b i) is b1 = Inr b2" "ok n b2"
    "\<forall>j. member b2 j \<longleftrightarrow> j \<notin> unat ` List.set is \<and> member b1 j" by auto
  with b1 show ?case by auto
qed simp

end


section \<open>The array meets it\<close>

definition ba_ok :: "nat \<Rightarrow> bit_array \<Rightarrow> bool" where
  "ba_ok n b \<longleftrightarrow> n \<le> 32 * length b"

definition ba_bit :: "bit_array \<Rightarrow> nat \<Rightarrow> bool" where
  "ba_bit b i = bit (b ! (i div 32)) (i mod 32)"

lemma word_position:
  "unat (i div 32 :: uint) = unat i div 32" "unat (i AND 31 :: uint) = unat i mod 32"
proof -
  show "unat (i div 32 :: uint) = unat i div 32" by (simp add: unat_div)
  have "(31 :: uint) = mask 5" by (simp add: mask_eq_exp_minus_1)
  then have "i AND 31 = take_bit 5 i" by (simp add: take_bit_eq_mask)
  then show "unat (i AND 31 :: uint) = unat i mod 32" by (simp add: take_bit_eq_mod unat_mod)
qed

lemma in_words: "n \<le> 32 * length b \<Longrightarrow> i < n \<Longrightarrow> i div 32 < length b"
  by (simp add: less_mult_imp_div_less mult.commute)

lemma low_bit: "drop_bit k (w :: uint) AND 1 \<noteq> 0 \<longleftrightarrow> bit w k"
  by (simp add: and_one_eq bit_iff_odd_drop_bit odd_iff_mod_2_eq_one)

lemma ba_bit_update:
  assumes "unat i div 32 < length b"
  shows "ba_bit (b[unat i div 32 := w]) j =
    (if j div 32 = unat i div 32 then bit w (j mod 32) else ba_bit b j)"
  using assms by (auto simp: ba_bit_def)

lemma same_position: "j div 32 = i div 32 \<Longrightarrow> j mod 32 = i mod 32 \<longleftrightarrow> j = (i :: nat)"
  by (metis div_mod_decomp)

interpretation ba: bit_map ba_ok ba_bit ba_get ba_set ba_unset
proof unfold_locales
  fix n b and i :: uint
  assume n: "ba_ok n b" "unat i < n"
  then have lt: "unat i div 32 < length b" by (auto simp: ba_ok_def intro: in_words)
  show "ba_get b i = Inr (ba_bit b (unat i))"
    using lt by (simp add: ba_get_def word_position at_index_def low_bit ba_bit_def)
  let ?w = "b ! (unat i div 32)"
  have pos: "unat i mod 32 < 32" by simp
  let ?s = "b[unat i div 32 := ?w OR push_bit (unat i mod 32) 1]"
  have "ba_set b i = Inr ?s" using lt by (simp add: ba_set_def word_position at_index_def set_index_def)
  moreover have "ba_bit ?s j \<longleftrightarrow> j = unat i \<or> ba_bit b j" for j
    unfolding ba_bit_update [OF lt] using same_position [of j "unat i"]
    by (cases "j div 32 = unat i div 32") (auto simp: bit_or_iff bit_exp_iff ba_bit_def)
  ultimately show "\<exists>b'. ba_set b i = Inr b' \<and> ba_ok n b' \<and> (\<forall>j. ba_bit b' j \<longleftrightarrow> j = unat i \<or> ba_bit b j)"
    using n by (auto simp: ba_ok_def)
  let ?u = "b[unat i div 32 := ?w AND NOT (push_bit (unat i mod 32) 1)]"
  have "ba_unset b i = Inr ?u" using lt by (simp add: ba_unset_def word_position at_index_def set_index_def)
  moreover have "ba_bit ?u j \<longleftrightarrow> j \<noteq> unat i \<and> ba_bit b j" for j
    unfolding ba_bit_update [OF lt] using same_position [of j "unat i"]
    by (cases "j div 32 = unat i div 32") (auto simp: bit_and_iff bit_not_iff bit_exp_iff ba_bit_def)
  ultimately show "\<exists>b'. ba_unset b i = Inr b' \<and> ba_ok n b' \<and> (\<forall>j. ba_bit b' j \<longleftrightarrow> j \<noteq> unat i \<and> ba_bit b j)"
    using n by (auto simp: ba_ok_def)
qed

lemma BitArray_ok:
  assumes "unat sz + 31 < 2 ^ 32"
  shows "ba_ok (unat sz) (BitArray sz v)" and "i < unat sz \<Longrightarrow> ba_bit (BitArray sz v) i = v"
proof -
  have "unat (sz + 31) = unat sz + 31" using assms by (simp add: unat_word_ariths)
  then have len: "unat (ba_length sz) = (unat sz + 31) div 32" by (simp add: ba_length_def unat_div)
  then show ok: "ba_ok (unat sz) (BitArray sz v)" by (simp add: ba_ok_def BitArray_def)
  assume "i < unat sz"
  with ok have "i div 32 < length (BitArray sz v)" by (auto simp: ba_ok_def intro: in_words)
  then show "ba_bit (BitArray sz v) i = v" by (simp add: ba_bit_def BitArray_def)
qed

end
