(* ===== verification/Object_State.thy ===== *)
theory Object_State
  imports Bit_Array Expr_Structure Decimal_Names
begin

text \<open>
  The contents of a memory object, \<open>ObjectState\<close> of \<^verbatim>\<open>src/lib/Core/Memory.cpp\<close> and \<^verbatim>\<open>Memory.h\<close>: bytes
  that are concrete, bytes with a cached expression, and bytes that live in the update list of an
  array only. This theory holds the operations; \<open>Object_Correct\<close> shows that they implement an array of bytes.

  The members \<open>object\<close>, \<open>refCount\<close> and \<open>copyOnWriteOwner\<close> serve memory management and the address space and
  are left out; so is the warning for objects of more than 4096 bytes. A \<open>const\<close> operation that
  changes a \<open>mutable\<close> member returns the new state. An access past the end of an array is undefined.
\<close>

unbundle bit_operations_syntax

section \<open>The state of an object\<close>

record object_state =
  concreteStore :: "8 word list"
  concreteMask :: "bit_array option"
  flushMask :: "bit_array option"
  knownSymbolics :: "expr option list option"
  upd_root :: "array option"
  upd_head :: updates
  os_size :: uint
  readOnly :: bool
  os_isTaint :: "expr set"

definition setReadOnly :: "bool \<Rightarrow> object_state \<Rightarrow> object_state" where
  "setReadOnly ro os = os\<lparr>readOnly := ro\<rparr>"

definition insertTaint :: "expr \<Rightarrow> object_state \<Rightarrow> object_state" where
  "insertTaint address os = os\<lparr>os_isTaint := insert address (os_isTaint os)\<rparr>"

definition eraseTaint :: "expr \<Rightarrow> object_state \<Rightarrow> object_state" where
  "eraseTaint address os = os\<lparr>os_isTaint := os_isTaint os - {address}\<rparr>"

text \<open>\<open>UpdateList::extend\<close> of a list that may have no root yet checks no width.\<close>

definition extend_updates :: "expr \<Rightarrow> expr \<Rightarrow> object_state \<Rightarrow> object_state outcome" where
  "extend_updates index v os =
     (case upd_root os of
        None \<Rightarrow> Inr (os\<lparr>upd_head := UpdateNode index v (upd_head os)\<rparr>)
      | Some root \<Rightarrow> bind_outcome (Klee_Expr.extend root (upd_head os) index v) (\<lambda>h. Inr (os\<lparr>upd_head := h\<rparr>)))"


section \<open>The caches\<close>

definition isByteConcrete :: "uint \<Rightarrow> object_state \<Rightarrow> bool outcome" where
  "isByteConcrete offset os = (case concreteMask os of None \<Rightarrow> Inr True | Some m \<Rightarrow> ba_get m offset)"

definition isByteFlushed :: "uint \<Rightarrow> object_state \<Rightarrow> bool outcome" where
  "isByteFlushed offset os =
     (case flushMask os of None \<Rightarrow> Inr False | Some m \<Rightarrow> bind_outcome (ba_get m offset) (\<lambda>b. Inr (\<not> b)))"

definition isByteKnownSymbolic :: "uint \<Rightarrow> object_state \<Rightarrow> bool outcome" where
  "isByteKnownSymbolic offset os =
     (case knownSymbolics os of
        None \<Rightarrow> Inr False
      | Some ks \<Rightarrow> bind_outcome (at_index ks (unat offset)) (\<lambda>k. Inr (k \<noteq> None)))"

text \<open>The cached expression of a byte, which the code reads where it is known to be there.\<close>

definition knownSymbolic :: "uint \<Rightarrow> object_state \<Rightarrow> expr outcome" where
  "knownSymbolic offset os =
     (case knownSymbolics os of
        None \<Rightarrow> Inl (Undefined ''null knownSymbolics'')
      | Some ks \<Rightarrow> bind_outcome (at_index ks (unat offset))
          (\<lambda>k. case k of None \<Rightarrow> Inl (Undefined ''null expression'') | Some e \<Rightarrow> Inr e))"

definition markByteConcrete :: "uint \<Rightarrow> object_state \<Rightarrow> object_state outcome" where
  "markByteConcrete offset os =
     (case concreteMask os of
        None \<Rightarrow> Inr os
      | Some m \<Rightarrow> bind_outcome (ba_set m offset) (\<lambda>m'. Inr (os\<lparr>concreteMask := Some m'\<rparr>)))"

definition markByteSymbolic :: "uint \<Rightarrow> object_state \<Rightarrow> object_state outcome" where
  "markByteSymbolic offset os =
     bind_outcome
       (ba_unset (case concreteMask os of None \<Rightarrow> BitArray (os_size os) True | Some m \<Rightarrow> m) offset)
       (\<lambda>m'. Inr (os\<lparr>concreteMask := Some m'\<rparr>))"

definition markByteUnflushed :: "uint \<Rightarrow> object_state \<Rightarrow> object_state outcome" where
  "markByteUnflushed offset os =
     (case flushMask os of
        None \<Rightarrow> Inr os
      | Some m \<Rightarrow> bind_outcome (ba_set m offset) (\<lambda>m'. Inr (os\<lparr>flushMask := Some m'\<rparr>)))"

definition markByteFlushed :: "uint \<Rightarrow> object_state \<Rightarrow> object_state outcome" where
  "markByteFlushed offset os =
     (case flushMask os of
        None \<Rightarrow> Inr (os\<lparr>flushMask := Some (BitArray (os_size os) False)\<rparr>)
      | Some m \<Rightarrow> bind_outcome (ba_unset m offset) (\<lambda>m'. Inr (os\<lparr>flushMask := Some m'\<rparr>)))"

definition setKnownSymbolic :: "uint \<Rightarrow> expr option \<Rightarrow> object_state \<Rightarrow> object_state outcome" where
  "setKnownSymbolic offset v os =
     (case knownSymbolics os of
        Some ks \<Rightarrow> bind_outcome (set_index ks (unat offset) v) (\<lambda>ks'. Inr (os\<lparr>knownSymbolics := Some ks'\<rparr>))
      | None \<Rightarrow>
          (if v \<noteq> None then
             bind_outcome (set_index (replicate (unat (os_size os)) None) (unat offset) v)
               (\<lambda>ks'. Inr (os\<lparr>knownSymbolics := Some ks'\<rparr>))
           else Inr os))"

definition makeConcrete :: "object_state \<Rightarrow> object_state" where
  "makeConcrete os = os\<lparr>concreteMask := None, flushMask := None, knownSymbolics := None\<rparr>"

text \<open>The values of an unsigned loop variable that counts from \<open>base\<close> while it is below \<open>base + n\<close>.\<close>

definition offsets :: "uint \<Rightarrow> uint \<Rightarrow> uint list" where
  "offsets base n = map of_nat [unat base..<unat (base + n)]"

definition makeSymbolic_byte :: "uint \<Rightarrow> object_state \<Rightarrow> object_state outcome" where
  "makeSymbolic_byte i os =
     bind_outcome (markByteSymbolic i os)
       (\<lambda>os. bind_outcome (setKnownSymbolic i None os) (markByteFlushed i))"

definition makeSymbolic :: "object_state \<Rightarrow> object_state outcome" where
  "makeSymbolic os =
     bind_outcome
       (assert_that (upd_head os = No_Update) ''XXX makeSymbolic of objects with symbolic values is unsupported'')
       (\<lambda>_. fold_outcome makeSymbolic_byte (offsets 0 (os_size os)) os)"

definition initializeToZero :: "object_state \<Rightarrow> object_state" where
  "initializeToZero os = (makeConcrete os)\<lparr>concreteStore := replicate (unat (os_size os)) 0\<rparr>"

definition initializeToRandom :: "object_state \<Rightarrow> object_state" where
  "initializeToRandom os = (makeConcrete os)\<lparr>concreteStore := replicate (unat (os_size os)) 0xAB\<rparr>"


section \<open>Constructors\<close>

text \<open>
  A new array with \<open>isFloat\<close> and the range of its constant values, given by two pointers into the
  vector \<open>contents\<close>: \<open>None\<close> is the null pointer, \<open>Some i\<close> the address of element \<open>i\<close>. The vector of the array is
  constructed from that range, which is undefined unless both pointers bound a range. The
  domain is 32 and the range 8 bits in every call.
\<close>

definition pointer_range :: "'a list \<Rightarrow> nat option \<Rightarrow> nat option \<Rightarrow> 'a list outcome" where
  "pointer_range contents b e =
     (case (b, e) of
        (None, None) \<Rightarrow> Inr []
      | (Some i, Some j) \<Rightarrow>
          (if i \<le> j \<and> j \<le> length contents then Inr (take (j - i) (drop i contents))
           else Inl (Undefined ''invalid range''))
      | _ \<Rightarrow> Inl (Undefined ''invalid range''))"

definition new_Array ::
  "nat \<Rightarrow> string \<Rightarrow> uint \<Rightarrow> bool \<Rightarrow> int list \<Rightarrow> nat option \<Rightarrow> nat option \<Rightarrow> array outcome" where
  "new_Array address name n isFloat contents b e =
     bind_outcome (pointer_range contents b e)
       (\<lambda>vs. bind_outcome (assert_that (vs = [] \<or> length vs = unat n) ''Invalid size for constant array!'')
          (\<lambda>_. bind_outcome (assert_that (\<forall>v\<in>set vs. in_width 8 v) ''Invalid initial constant value!'')
             (\<lambda>_. Inr (Array address name (unat n) vs 32 8))))"

definition blank_state :: "uint \<Rightarrow> array option \<Rightarrow> object_state" where
  "blank_state n root =
     \<lparr>concreteStore = replicate (unat n) 0, concreteMask = None, flushMask = None, knownSymbolics = None,
      upd_root = root, upd_head = No_Update, os_size = n, readOnly = False, os_isTaint = {}\<rparr>"

text \<open>
  \<open>ObjectState(mo)\<close>, with the option \<open>use-constant-arrays\<close>, the address of the array it allocates if that
  option is off and the value of its counter \<open>id\<close>; \<open>ObjectState(mo, array)\<close> and \<open>ObjectState(size, array)\<close>.
\<close>

definition ObjectState_concrete :: "bool \<Rightarrow> nat \<Rightarrow> nat \<Rightarrow> uint \<Rightarrow> object_state outcome" where
  "ObjectState_concrete UseConstantArrays address counter n =
     (if UseConstantArrays then Inr (blank_state n None)
      else bind_outcome (new_Array address (''tmp_arr'' @ dec_of_nat (counter + 1)) n False [] None None)
             (\<lambda>a. Inr (blank_state n (Some a))))"

definition ObjectState_symbolic :: "uint \<Rightarrow> array \<Rightarrow> object_state outcome" where
  "ObjectState_symbolic n a =
     bind_outcome (makeSymbolic (blank_state n (Some a)))
       (\<lambda>os. Inr (os\<lparr>concreteStore := replicate (unat n) 0\<rparr>))"

definition ObjectState_copy :: "object_state \<Rightarrow> object_state outcome" where
  "ObjectState_copy os =
     bind_outcome (assert_that (\<not> readOnly os) ''no need to copy read only object?'')
       (\<lambda>_. Inr (os\<lparr>
          concreteMask := map_option (take (unat (ba_length (os_size os)))) (concreteMask os),
          flushMask := map_option (take (unat (ba_length (os_size os)))) (flushMask os),
          readOnly := False\<rparr>))"


section \<open>Flushing to the update list\<close>

text \<open>
  What an access depends on beside the object: the byte order of the target, the option
  \<open>const-array-opt\<close> of the expression constructors, and the address and counter of the array that \<open>getUpdates\<close>
  allocates.
\<close>

record access_config =
  isLittleEndian :: bool
  constArrayOpt :: bool
  new_address :: nat
  const_arr_id :: nat

text \<open>The writes of an update list, the oldest first.\<close>

fun oldest_first :: "updates \<Rightarrow> (expr \<times> expr) list" where
  "oldest_first No_Update = []"
| "oldest_first (UpdateNode i v next) = oldest_first next @ [(i, v)]"

text \<open>The constant writes at the start go to \<open>Contents\<close>; the result has the writes that remain.\<close>

fun pull_constants :: "(expr \<times> expr) list \<Rightarrow> int list \<Rightarrow> ((expr \<times> expr) list \<times> int list) outcome" where
  "pull_constants ((ConstantExpr w i, ConstantExpr w' v) # ws) contents =
     bind_outcome (assert_that (w \<le> 64) ''Value may be out of range!'')
       (\<lambda>_. bind_outcome (set_index contents (nat i) v) (pull_constants ws))"
| "pull_constants ws contents = Inr (ws, contents)"

text \<open>
  \<open>getUpdates\<close> builds the array of a list without root. The third argument of the constructor of \<open>Array\<close>
  is \<open>isFloat\<close>, so the pointer to the first of the contents is converted to a truth value, the
  pointer behind the last one is the begin of the range, and the end of the range is null.
\<close>

definition getUpdates :: "access_config \<Rightarrow> object_state \<Rightarrow> object_state outcome" where
  "getUpdates cfg os =
     (case upd_root os of
        Some a \<Rightarrow> Inr os
      | None \<Rightarrow>
          bind_outcome (pull_constants (oldest_first (upd_head os)) (replicate (unat (os_size os)) 0))
            (\<lambda>(rest, contents).
               bind_outcome
                 (new_Array (new_address cfg) (''const_arr'' @ dec_of_nat (const_arr_id cfg + 1)) (os_size os)
                    True contents (Some (length contents)) None)
                 (\<lambda>a. fold_outcome (\<lambda>(i, v). extend_updates i v) rest
                        (os\<lparr>upd_root := Some a, upd_head := No_Update\<rparr>))))"

definition fastRangeCheckOffset :: "object_state \<Rightarrow> uint \<times> uint" where
  "fastRangeCheckOffset os = (0, os_size os)"

definition const32 :: "uint \<Rightarrow> expr" where
  "const32 offset = ConstantExpr 32 (uint offset)"

definition const8 :: "8 word \<Rightarrow> expr" where
  "const8 v = ConstantExpr 8 (uint v)"

text \<open>The mask a flush starts with: no byte is flushed.\<close>

definition ensure_flushMask :: "object_state \<Rightarrow> object_state" where
  "ensure_flushMask os =
     (case flushMask os of None \<Rightarrow> os\<lparr>flushMask := Some (BitArray (os_size os) True)\<rparr> | Some m \<Rightarrow> os)"

definition flushMask_unset :: "uint \<Rightarrow> object_state \<Rightarrow> object_state outcome" where
  "flushMask_unset offset os =
     (case flushMask os of
        None \<Rightarrow> Inl (Undefined ''null flushMask'')
      | Some m \<Rightarrow> bind_outcome (ba_unset m offset) (\<lambda>m'. Inr (os\<lparr>flushMask := Some m'\<rparr>)))"

text \<open>The write that puts an unflushed byte into the list, shared by both flushes.\<close>

definition flush_byte :: "uint \<Rightarrow> object_state \<Rightarrow> (bool \<times> object_state) outcome" where
  "flush_byte offset os =
     bind_outcome (isByteConcrete offset os)
       (\<lambda>c. if c then
              bind_outcome (at_index (concreteStore os) (unat offset))
                (\<lambda>v. bind_outcome (extend_updates (const32 offset) (const8 v) os) (\<lambda>os'. Inr (True, os')))
            else
              bind_outcome (isByteKnownSymbolic offset os)
                (\<lambda>k. bind_outcome (assert_that k ''invalid bit set in flushMask'')
                   (\<lambda>_. bind_outcome (knownSymbolic offset os)
                      (\<lambda>e. bind_outcome (extend_updates (const32 offset) e os) (\<lambda>os'. Inr (False, os'))))))"

definition flushRead_byte :: "uint \<Rightarrow> object_state \<Rightarrow> object_state outcome" where
  "flushRead_byte offset os =
     bind_outcome (isByteFlushed offset os)
       (\<lambda>f. if f then Inr os
            else bind_outcome (flush_byte offset os) (\<lambda>(_, os'). flushMask_unset offset os'))"

definition flushRangeForRead :: "uint \<Rightarrow> uint \<Rightarrow> object_state \<Rightarrow> object_state outcome" where
  "flushRangeForRead rangeBase rangeSize os =
     fold_outcome flushRead_byte (offsets rangeBase rangeSize) (ensure_flushMask os)"

definition flushWrite_byte :: "uint \<Rightarrow> object_state \<Rightarrow> object_state outcome" where
  "flushWrite_byte offset os =
     bind_outcome (isByteFlushed offset os)
       (\<lambda>f. if \<not> f then
              bind_outcome (flush_byte offset os)
                (\<lambda>(c, os'). bind_outcome
                   (if c then markByteSymbolic offset os' else setKnownSymbolic offset None os')
                   (flushMask_unset offset))
            else
              bind_outcome (isByteConcrete offset os)
                (\<lambda>c. if c then markByteSymbolic offset os
                     else bind_outcome (isByteKnownSymbolic offset os)
                            (\<lambda>k. if k then setKnownSymbolic offset None os else Inr os)))"

definition flushRangeForWrite :: "uint \<Rightarrow> uint \<Rightarrow> object_state \<Rightarrow> object_state outcome" where
  "flushRangeForWrite rangeBase rangeSize os =
     fold_outcome flushWrite_byte (offsets rangeBase rangeSize) (ensure_flushMask os)"


section \<open>Access to one byte\<close>

definition read_array :: "access_config \<Rightarrow> expr \<Rightarrow> object_state \<Rightarrow> (object_state \<times> expr) outcome" where
  "read_array cfg index os =
     bind_outcome (getUpdates cfg os)
       (\<lambda>os'. case upd_root os' of
                None \<Rightarrow> Inl (Undefined ''null root'')
              | Some a \<Rightarrow> bind_outcome (create_ReadExpr (constArrayOpt cfg) a (upd_head os') index) (\<lambda>e. Inr (os', e)))"

definition read8 :: "access_config \<Rightarrow> uint \<Rightarrow> object_state \<Rightarrow> (object_state \<times> expr) outcome" where
  "read8 cfg offset os =
     bind_outcome (isByteConcrete offset os)
       (\<lambda>c. if c then bind_outcome (at_index (concreteStore os) (unat offset)) (\<lambda>v. Inr (os, const8 v))
            else
              bind_outcome (isByteKnownSymbolic offset os)
                (\<lambda>k. if k then bind_outcome (knownSymbolic offset os) (\<lambda>e. Inr (os, e))
                     else
                       bind_outcome (isByteFlushed offset os)
                         (\<lambda>f. bind_outcome (assert_that f ''unflushed byte without cache value'')
                            (\<lambda>_. read_array cfg (const32 offset) os))))"

definition read8_symbolic :: "access_config \<Rightarrow> expr \<Rightarrow> object_state \<Rightarrow> (object_state \<times> expr) outcome" where
  "read8_symbolic cfg offset os =
     bind_outcome (assert_that (\<not> isConstant offset) ''constant offset passed to symbolic read8'')
       (\<lambda>_. case fastRangeCheckOffset os of (base, n) \<Rightarrow>
          bind_outcome (flushRangeForRead base n os)
            (\<lambda>os'. bind_outcome (create_ZExtExpr offset 32) (\<lambda>index. read_array cfg index os')))"

definition write8 :: "uint \<Rightarrow> 8 word \<Rightarrow> object_state \<Rightarrow> object_state outcome" where
  "write8 offset v os =
     bind_outcome (set_index (concreteStore os) (unat offset) v)
       (\<lambda>cs. bind_outcome (setKnownSymbolic offset None (os\<lparr>concreteStore := cs\<rparr>))
          (\<lambda>os. bind_outcome (markByteConcrete offset os) (markByteUnflushed offset)))"

definition write8_expr :: "uint \<Rightarrow> expr \<Rightarrow> object_state \<Rightarrow> object_state outcome" where
  "write8_expr offset v os =
     (case v of
        ConstantExpr w c \<Rightarrow>
          bind_outcome (assert_that (w \<le> 8) ''Value may be out of range!'') (\<lambda>_. write8 offset (of_int c) os)
      | _ \<Rightarrow>
          bind_outcome (setKnownSymbolic offset (Some v) os)
            (\<lambda>os. bind_outcome (markByteSymbolic offset os) (markByteUnflushed offset)))"

definition write8_symbolic :: "expr \<Rightarrow> expr \<Rightarrow> object_state \<Rightarrow> object_state outcome" where
  "write8_symbolic offset v os =
     bind_outcome (assert_that (\<not> isConstant offset) ''constant offset passed to symbolic write8'')
       (\<lambda>_. case fastRangeCheckOffset os of (base, n) \<Rightarrow>
          bind_outcome (flushRangeForWrite base n os)
            (\<lambda>os'. bind_outcome (create_ZExtExpr offset 32) (\<lambda>index. extend_updates index v os')))"


section \<open>Access to several bytes\<close>

text \<open>The byte that iteration \<open>i\<close> of a loop over \<open>n\<close> bytes accesses.\<close>

definition byte_index :: "bool \<Rightarrow> nat \<Rightarrow> nat \<Rightarrow> nat" where
  "byte_index little n i = (if little then i else n - i - 1)"

text \<open>
  The loops of \<open>read\<close> and \<open>write\<close>, over the access \<open>rd\<close> or \<open>wr\<close> to the byte at an index. \<open>None\<close> is the null
  expression \<open>Res\<close> starts with.
\<close>

fun read_loop ::
  "(nat \<Rightarrow> 's \<Rightarrow> ('s \<times> expr) outcome) \<Rightarrow> nat list \<Rightarrow> expr option \<Rightarrow> 's \<Rightarrow> ('s \<times> expr option) outcome" where
  "read_loop rd [] res s = Inr (s, res)"
| "read_loop rd (idx # idxs) res s =
     bind_outcome (rd idx s)
       (\<lambda>(s', b). bind_outcome (case res of None \<Rightarrow> Inr b | Some r \<Rightarrow> create_ConcatExpr b r)
          (\<lambda>r'. read_loop rd idxs (Some r') s'))"

definition write_loop :: "(nat \<Rightarrow> expr \<Rightarrow> 's \<Rightarrow> 's outcome) \<Rightarrow> bool \<Rightarrow> expr \<Rightarrow> nat \<Rightarrow> 's \<Rightarrow> 's outcome" where
  "write_loop wr little v n =
     fold_outcome (\<lambda>i s. bind_outcome (create_ExtractExpr v (8 * i) 8) (\<lambda>b. wr (byte_index little n i) b s)) [0..<n]"

definition offset_plus :: "access_config \<Rightarrow> expr \<Rightarrow> nat \<Rightarrow> expr outcome" where
  "offset_plus cfg offset idx = create_AddExpr (constArrayOpt cfg) offset (ConstantExpr 32 (int idx))"

text \<open>\<open>read(unsigned, width)\<close> and \<open>read(ref, width)\<close>.\<close>

definition read_bool :: "(object_state \<times> expr) outcome \<Rightarrow> (object_state \<times> expr option) outcome" where
  "read_bool r =
     bind_outcome r (\<lambda>(os, b). bind_outcome (create_ExtractExpr b 0 Bool) (\<lambda>e. Inr (os, Some e)))"

definition read_const :: "access_config \<Rightarrow> uint \<Rightarrow> nat \<Rightarrow> object_state \<Rightarrow> (object_state \<times> expr option) outcome" where
  "read_const cfg offset width os =
     (if width = Bool then read_bool (read8 cfg offset os)
      else
        let n = width div 8 in
        bind_outcome (assert_that (width = n * 8) ''Invalid write size!'')
          (\<lambda>_. read_loop (\<lambda>idx. read8 cfg (offset + of_nat idx)) (map (byte_index (isLittleEndian cfg) n) [0..<n]) None os))"

definition read_expr :: "access_config \<Rightarrow> expr \<Rightarrow> nat \<Rightarrow> object_state \<Rightarrow> (object_state \<times> expr option) outcome" where
  "read_expr cfg off width os =
     bind_outcome (create_ZExtExpr off 32)
       (\<lambda>offset. case offset of
          ConstantExpr w c \<Rightarrow>
            bind_outcome (assert_that (w \<le> 32) ''Value may be out of range!'') (\<lambda>_. read_const cfg (of_int c) width os)
        | _ \<Rightarrow>
            if width = Bool then read_bool (read8_symbolic cfg offset os)
            else
              let n = width div 8 in
              bind_outcome (assert_that (width = n * 8) ''Invalid write size!'')
                (\<lambda>_. read_loop (\<lambda>idx os. bind_outcome (offset_plus cfg offset idx) (\<lambda>o'. read8_symbolic cfg o' os))
                       (map (byte_index (isLittleEndian cfg) n) [0..<n]) None os))"

text \<open>\<open>write16\<close>, \<open>write32\<close> and \<open>write64\<close> split a word into bytes.\<close>

definition write_word :: "bool \<Rightarrow> nat \<Rightarrow> uint \<Rightarrow> 'w::len word \<Rightarrow> object_state \<Rightarrow> object_state outcome" where
  "write_word little n offset v =
     fold_outcome (\<lambda>i. write8 (offset + of_nat (byte_index little n i)) (ucast (drop_bit (8 * i) v))) [0..<n]"

definition write16 :: "bool \<Rightarrow> uint \<Rightarrow> 16 word \<Rightarrow> object_state \<Rightarrow> object_state outcome" where
  "write16 little offset v os = write_word little 2 offset v os"

definition write32 :: "bool \<Rightarrow> uint \<Rightarrow> 32 word \<Rightarrow> object_state \<Rightarrow> object_state outcome" where
  "write32 little offset v os = write_word little 4 offset v os"

definition write64 :: "bool \<Rightarrow> uint \<Rightarrow> 64 word \<Rightarrow> object_state \<Rightarrow> object_state outcome" where
  "write64 little offset v os = write_word little 8 offset v os"

text \<open>The writes of a constant, by its width, and the general case.\<close>

definition write_small :: "access_config \<Rightarrow> uint \<Rightarrow> nat \<Rightarrow> int \<Rightarrow> object_state \<Rightarrow> object_state outcome" where
  "write_small cfg offset w c os =
     (if w = Bool \<or> w = 8 then write8 offset (of_int c) os
      else if w = 16 then write16 (isLittleEndian cfg) offset (of_int c) os
      else if w = 32 then write32 (isLittleEndian cfg) offset (of_int c) os
      else if w = 64 then write64 (isLittleEndian cfg) offset (of_int c) os
      else Inl (Assertion ''Invalid write size!''))"

definition write_slow :: "access_config \<Rightarrow> uint \<Rightarrow> expr \<Rightarrow> object_state \<Rightarrow> object_state outcome" where
  "write_slow cfg offset v os =
     (if getWidth v = Bool then bind_outcome (create_ZExtExpr v 8) (\<lambda>b. write8_expr offset b os)
      else
        let n = getWidth v div 8 in
        bind_outcome (assert_that (getWidth v = n * 8) ''Invalid write size!'')
          (\<lambda>_. write_loop (\<lambda>idx. write8_expr (offset + of_nat idx)) (isLittleEndian cfg) v n os))"

definition write_const :: "access_config \<Rightarrow> uint \<Rightarrow> expr \<Rightarrow> object_state \<Rightarrow> object_state outcome" where
  "write_const cfg offset v os =
     (case v of
        ConstantExpr w c \<Rightarrow> if w \<le> 64 then write_small cfg offset w c os else write_slow cfg offset v os
      | _ \<Rightarrow> write_slow cfg offset v os)"

definition write_expr :: "access_config \<Rightarrow> expr \<Rightarrow> expr \<Rightarrow> object_state \<Rightarrow> object_state outcome" where
  "write_expr cfg off v os =
     bind_outcome (create_ZExtExpr off 32)
       (\<lambda>offset. case offset of
          ConstantExpr w c \<Rightarrow>
            bind_outcome (assert_that (w \<le> 32) ''Value may be out of range!'') (\<lambda>_. write_const cfg (of_int c) v os)
        | _ \<Rightarrow>
            if getWidth v = Bool then bind_outcome (create_ZExtExpr v 8) (\<lambda>b. write8_symbolic offset b os)
            else
              let n = getWidth v div 8 in
              bind_outcome (assert_that (getWidth v = n * 8) ''Invalid write size!'')
                (\<lambda>_. write_loop (\<lambda>idx b os. bind_outcome (offset_plus cfg offset idx) (\<lambda>o'. write8_symbolic o' b os))
                       (isLittleEndian cfg) v n os))"

text \<open>
  \<open>SymbolicListener::manualMakeSymbolic\<close> and \<open>TaintListener::manualMakeTaintSymbolic\<close>: a new array of \<open>n\<close> bytes,
  read at offset \<open>0\<close> with \<open>n\<close> bits. \<open>BIT_WIDTH\<close> is 64.
\<close>

definition manualMakeSymbolic :: "access_config \<Rightarrow> nat \<Rightarrow> string \<Rightarrow> uint \<Rightarrow> bool \<Rightarrow> expr option outcome" where
  "manualMakeSymbolic cfg address name n isFloat =
     bind_outcome (new_Array address name n isFloat [] None None)
       (\<lambda>a. bind_outcome (ObjectState_symbolic n a)
          (\<lambda>os. bind_outcome (read_expr cfg (ConstantExpr 64 0) (unat n) os) (\<lambda>(_, r). Inr r)))"

end
