(* ===== verification/Byte_Store.thy ===== *)
theory Byte_Store
  imports Object_State
begin

text \<open>
  What \<open>ObjectState\<close> promises: an array of bytes, indexed by 32-bit positions. The functions \<open>load\<close> and
  \<open>store\<close> are the abstract specification of \<open>read\<close> and \<open>write\<close>. The locale \<open>byte_store\<close> states what the access
  to one byte has to do, and shows that the loops over several bytes then implement \<open>load\<close> and \<open>store\<close>.
\<close>

section \<open>The specification\<close>

definition byte_position :: "bool \<Rightarrow> nat \<Rightarrow> int \<Rightarrow> nat \<Rightarrow> int" where
  "byte_position little n p i = take_bit 32 (p + int (byte_index little n i))"

definition byte_at :: "int \<Rightarrow> nat \<Rightarrow> int" where
  "byte_at v i = take_bit 8 (drop_bit (8 * i) v)"

definition load :: "bool \<Rightarrow> nat \<Rightarrow> int \<Rightarrow> (int \<Rightarrow> int) \<Rightarrow> int" where
  "load little n p c = little_endian (map (\<lambda>i. c (byte_position little n p i)) [0..<n])"

definition store_upto :: "nat \<Rightarrow> bool \<Rightarrow> nat \<Rightarrow> int \<Rightarrow> int \<Rightarrow> (int \<Rightarrow> int) \<Rightarrow> int \<Rightarrow> int" where
  "store_upto m little n p v c = fold (\<lambda>i c. c(byte_position little n p i := byte_at v i)) [0..<m] c"

abbreviation store :: "bool \<Rightarrow> nat \<Rightarrow> int \<Rightarrow> int \<Rightarrow> (int \<Rightarrow> int) \<Rightarrow> int \<Rightarrow> int" where
  "store little n \<equiv> store_upto n little n"

lemma store_upto_0 [simp]: "store_upto 0 little n p v c = c"
  by (simp add: store_upto_def)

lemma store_upto_Suc:
  "store_upto (Suc m) little n p v c = (store_upto m little n p v c)(byte_position little n p m := byte_at v m)"
  by (simp add: store_upto_def)

lemma byte_index_less: "i < n \<Longrightarrow> byte_index little n i < n"
  by (auto simp: byte_index_def)

lemma byte_position_inject:
  assumes "i < n" and "j < n" and "n \<le> 2 ^ 32" and "byte_position little n p i = byte_position little n p j"
  shows "i = j"
proof -
  let ?k = "\<lambda>i. int (byte_index little n i)"
  have "(p + ?k i) mod 2 ^ 32 = (p + ?k j) mod 2 ^ 32"
    using assms(4) by (simp add: byte_position_def take_bit_eq_mod)
  then have "?k i mod 2 ^ 32 = ?k j mod 2 ^ 32" by (simp add: mod_eq_dvd_iff)
  moreover have "?k i < 2 ^ 32" "?k j < 2 ^ 32"
    using assms(1-3) byte_index_less [of i n little] byte_index_less [of j n little] by simp_all
  ultimately have "byte_index little n i = byte_index little n j" by simp
  then show ?thesis using assms(1,2) by (auto simp: byte_index_def split: if_splits)
qed

lemma store_upto_hit:
  assumes "n \<le> 2 ^ 32" and "m \<le> n" and "i < m"
  shows "store_upto m little n p v c (byte_position little n p i) = byte_at v i"
  using assms(2,3)
proof (induction m)
  case (Suc m)
  show ?case
  proof (cases "i = m")
    case False
    with Suc.prems byte_position_inject [of i n m little p] assms(1) Suc show ?thesis
      by (auto simp: store_upto_Suc)
  qed (simp add: store_upto_Suc)
qed simp

lemma store_upto_miss:
  "\<forall>i<m. q \<noteq> byte_position little n p i \<Longrightarrow> store_upto m little n p v c q = c q"
  by (induction m) (auto simp: store_upto_Suc)

lemma in_width_byte_at [simp]: "in_width 8 (byte_at v i)"
  by (simp add: byte_at_def)

lemma little_endian_bytes: "little_endian (map (byte_at v) [0..<n]) = take_bit (8 * n) v"
proof (induction n)
  case (Suc n)
  have "concat_bit (8 * n) (take_bit (8 * n) v) (byte_at v n) = take_bit (8 * Suc n) v"
    by (rule bit_eqI) (auto simp: bit_concat_bit_iff bit_take_bit_iff byte_at_def bit_drop_bit_eq)
  with Suc show ?case by (simp add: little_endian_append)
qed simp

lemma load_store:
  assumes "n \<le> 2 ^ 32"
  shows "load little n p (store little n p v c) = take_bit (8 * n) v"
proof -
  have eq: "map (\<lambda>i. store little n p v c (byte_position little n p i)) [0..<n] = map (byte_at v) [0..<n]"
    using store_upto_hit [OF assms] by simp
  show ?thesis unfolding load_def eq by (rule little_endian_bytes)
qed


section \<open>The contract of the access to a byte\<close>

text \<open>
  \<open>sz\<close> is the size of a state, \<open>at_pos x\<close> the position an offset \<open>x\<close> denotes, \<open>pos\<close> and \<open>range\<close> say which
  offsets can be accessed, for one byte and for several.
\<close>

locale byte_store =
  fixes ok :: "'s \<Rightarrow> bool" and content :: "env \<Rightarrow> 's \<Rightarrow> int \<Rightarrow> int" and sz :: "'s \<Rightarrow> uint"
    and at_pos :: "'x \<Rightarrow> env \<Rightarrow> int" and pos :: "uint \<Rightarrow> 'x \<Rightarrow> bool" and range :: "uint \<Rightarrow> 'x \<Rightarrow> nat \<Rightarrow> bool"
    and plus :: "'x \<Rightarrow> nat \<Rightarrow> 'x outcome"
    and rd :: "'x \<Rightarrow> 's \<Rightarrow> ('s \<times> expr) outcome" and wr :: "'x \<Rightarrow> expr \<Rightarrow> 's \<Rightarrow> 's outcome"
  assumes plus_runs: "range n x m \<Longrightarrow> k < m \<Longrightarrow>
      \<exists>x'. plus x k = Inr x' \<and> pos n x' \<and> (\<forall>env. at_pos x' env = take_bit 32 (at_pos x env + int k))"
    and rd_runs: "ok s \<Longrightarrow> pos (sz s) x \<Longrightarrow>
      \<exists>s' e. rd x s = Inr (s', e) \<and> ok s' \<and> sz s' = sz s \<and> (\<forall>env. content env s' = content env s) \<and>
        byte e \<and> (\<forall>env. eval env e = content env s (at_pos x env))"
    and wr_runs: "ok s \<Longrightarrow> pos (sz s) x \<Longrightarrow> byte e \<Longrightarrow>
      \<exists>s'. wr x e s = Inr s' \<and> ok s' \<and> sz s' = sz s \<and>
        (\<forall>env. content env s' = (content env s)(at_pos x env := eval env e))"
begin

abbreviation rd_at :: "'x \<Rightarrow> nat \<Rightarrow> 's \<Rightarrow> ('s \<times> expr) outcome" where
  "rd_at x \<equiv> (\<lambda>k s. bind_outcome (plus x k) (\<lambda>x'. rd x' s))"

abbreviation wr_at :: "'x \<Rightarrow> nat \<Rightarrow> expr \<Rightarrow> 's \<Rightarrow> 's outcome" where
  "wr_at x \<equiv> (\<lambda>k e s. bind_outcome (plus x k) (\<lambda>x'. wr x' e s))"

definition same :: "'s \<Rightarrow> 's \<Rightarrow> bool" where
  "same s s' \<longleftrightarrow> ok s' \<and> sz s' = sz s \<and> (\<forall>env. content env s' = content env s)"

lemma rd_at_runs:
  assumes "ok s" and "range (sz s) x n" and "k < n"
  shows "\<exists>s' e. rd_at x k s = Inr (s', e) \<and> same s s' \<and> byte e \<and>
    (\<forall>env. eval env e = content env s (take_bit 32 (at_pos x env + int k)))"
proof -
  obtain x' where x': "plus x k = Inr x'" "pos (sz s) x'" "\<And>env. at_pos x' env = take_bit 32 (at_pos x env + int k)"
    using plus_runs [OF assms(2,3)] by blast
  with rd_runs [OF assms(1) x'(2)] show ?thesis by (auto simp: same_def)
qed

lemma read_loop_runs:
  assumes "ok s" and "range (sz s) x n" and "\<forall>k\<in>set ks. k < n" and "bytes (Inr r) es"
  shows "\<exists>s' r' es'. read_loop (rd_at x) ks (Some r) s = Inr (s', Some r') \<and> same s s' \<and> bytes (Inr r') (es @ es') \<and>
    length es' = length ks \<and>
    (\<forall>env. map (eval env) es' = map (\<lambda>k. content env s (take_bit 32 (at_pos x env + int k))) ks)"
  using assms
proof (induction ks arbitrary: s r es)
  case Nil
  then show ?case by (auto simp: same_def intro!: exI [of _ "[]"])
next
  case (Cons k ks)
  then obtain s1 e where e: "rd_at x k s = Inr (s1, e)" "same s s1" "byte e"
    "\<And>env. eval env e = content env s (take_bit 32 (at_pos x env + int k))"
    using rd_at_runs [of s x n k] by auto
  from bytes_more [OF Cons.prems(4) e(3)] obtain r1 where r1: "create_ConcatExpr e r = Inr r1"
    "bytes (Inr r1) (es @ [e])" by (auto simp: computes_def)
  have s1: "ok s1" "range (sz s1) x n" "\<And>env. content env s1 = content env s"
    using e(2) Cons.prems(2) by (simp_all add: same_def)
  obtain s' r' es' where rec: "read_loop (rd_at x) ks (Some r1) s1 = Inr (s', Some r')" "same s1 s'"
    "bytes (Inr r') ((es @ [e]) @ es')" "length es' = length ks"
    "\<And>env. map (eval env) es' = map (\<lambda>k. content env s1 (take_bit 32 (at_pos x env + int k))) ks"
    using Cons.IH [OF s1(1,2) _ r1(2)] Cons.prems(3) by auto
  have "read_loop (rd_at x) (k # ks) (Some r) s = Inr (s', Some r')" using e(1) r1(1) rec(1) by simp
  moreover have "same s s'" using e(2) rec(2) by (simp add: same_def)
  ultimately show ?case using rec(3-5) e(4) s1(3) by (intro exI [of _ s'] exI [of _ r'] exI [of _ "e # es'"]) simp
qed

lemma read_refines:
  assumes "ok s" and "range (sz s) x n" and "0 < n"
  shows "\<exists>s' e. read_loop (rd_at x) (map (byte_index little n) [0..<n]) None s = Inr (s', Some e) \<and> same s s' \<and>
    welltyped e \<and> getWidth e = 8 * n \<and> (\<forall>env. eval env e = load little n (at_pos x env) (content env s))"
proof -
  let ?ks = "map (byte_index little n) [0..<n]"
  obtain k ks where ks: "?ks = k # ks" using assms(3) by (cases ?ks) auto
  have in_range: "\<forall>k\<in>set ?ks. k < n" using byte_index_less by auto
  then obtain s1 e1 where e1: "rd_at x k s = Inr (s1, e1)" "same s s1" "byte e1"
    "\<And>env. eval env e1 = content env s (take_bit 32 (at_pos x env + int k))"
    using rd_at_runs [OF assms(1,2), of k] ks by auto
  have s1: "ok s1" "range (sz s1) x n" using e1(2) assms(2) by (simp_all add: same_def)
  obtain s' e es where e: "read_loop (rd_at x) ks (Some e1) s1 = Inr (s', Some e)" "same s1 s'" "bytes (Inr e) ([e1] @ es)"
    "length es = length ks" "\<And>env. map (eval env) es = map (\<lambda>k. content env s1 (take_bit 32 (at_pos x env + int k))) ks"
    using read_loop_runs [OF s1 _ bytes_one [OF e1(3)], of ks] in_range ks by auto
  have "read_loop (rd_at x) ?ks None s = Inr (s', Some e)" unfolding ks using e1(1) e(1) by simp
  moreover have "same s s'" using e1(2) e(2) by (simp add: same_def)
  moreover have "Suc (length ks) = n" using ks by (metis length_Cons length_map length_upt minus_nat.diff_0)
  then have "welltyped e" "getWidth e = 8 * n" using e(3,4) by auto
  moreover have "eval env e = load little n (at_pos x env) (content env s)" for env
  proof -
    have "map (\<lambda>i. content env s (byte_position little n (at_pos x env) i)) [0..<n] =
        map (\<lambda>k. content env s (take_bit 32 (at_pos x env + int k))) ?ks" by (simp add: byte_position_def)
    also have "\<dots> = map (eval env) ([e1] @ es)" unfolding ks using e1(2,4) e(5) by (simp add: same_def)
    finally show ?thesis using e(3) by (simp add: load_def)
  qed
  ultimately show ?thesis by blast
qed

lemma write_loop_runs:
  assumes "ok s" and "range (sz s) x n" and "welltyped v" and "getWidth v = 8 * n" and "m \<le> n"
  shows "\<exists>s'. fold_outcome (\<lambda>i s. bind_outcome (create_ExtractExpr v (8 * i) 8) (\<lambda>b. wr_at x (byte_index little n i) b s))
      [0..<m] s = Inr s' \<and> ok s' \<and> sz s' = sz s \<and>
    (\<forall>env. content env s' = store_upto m little n (at_pos x env) (eval env v) (content env s))"
  using assms(5)
proof (induction m)
  case 0
  then show ?case using assms(1) by simp
next
  case (Suc m)
  then obtain s1 where s1: "fold_outcome (\<lambda>i s. bind_outcome (create_ExtractExpr v (8 * i) 8)
      (\<lambda>b. wr_at x (byte_index little n i) b s)) [0..<m] s = Inr s1" "ok s1" "sz s1 = sz s"
    "\<And>env. content env s1 = store_upto m little n (at_pos x env) (eval env v) (content env s)" by auto
  have m: "m < n" using Suc.prems by simp
  obtain b where b: "create_ExtractExpr v (8 * m) 8 = Inr b" "byte b" "\<And>env. eval env b = byte_at (eval env v) m"
    using create_ExtractExpr_computes [OF assms(3), of 8 "8 * m"] m assms(4)
    by (auto simp: computes_def byte_def byte_at_def)
  obtain x' where x': "plus x (byte_index little n m) = Inr x'" "pos (sz s1) x'"
    "\<And>env. at_pos x' env = byte_position little n (at_pos x env) m"
    using plus_runs [OF assms(2) byte_index_less [OF m]] s1(3) by (auto simp: byte_position_def)
  obtain s' where "wr x' b s1 = Inr s'" "ok s'" "sz s' = sz s1"
    "\<And>env. content env s' = (content env s1)(at_pos x' env := eval env b)"
    using wr_runs [OF s1(2) x'(2) b(2)] by blast
  with s1 b x' show ?case by (simp add: fold_outcome_append store_upto_Suc fun_eq_iff)
qed

lemma write_refines:
  assumes "ok s" and "range (sz s) x n" and "welltyped v" and "getWidth v = 8 * n"
  shows "\<exists>s'. write_loop (wr_at x) little v n s = Inr s' \<and> ok s' \<and> sz s' = sz s \<and>
    (\<forall>env. content env s' = store little n (at_pos x env) (eval env v) (content env s))"
  unfolding write_loop_def using write_loop_runs [OF assms order_refl] by simp

end

end
