(* ===== verification/Object_Correct.thy ===== *)
theory Object_Correct
  imports Byte_Store
begin

text \<open>
  \<open>ObjectState\<close> implements an array of bytes. The invariant \<open>os_ok\<close> has the cache invariants that
  \<^verbatim>\<open>src/lib/Core/Memory.cpp\<close> lists in a comment, and that a flushed byte has the same value in the cache and
  in the update list. Every operation keeps it, and both kinds of access, at a constant and at a
  symbolic offset, meet the contract \<open>byte_store\<close>.
\<close>

section \<open>The caches as functions of the offset\<close>

abbreviation nbytes :: "object_state \<Rightarrow> nat" where
  "nbytes os \<equiv> unat (os_size os)"

definition conc_in :: "bit_array option \<Rightarrow> nat \<Rightarrow> bool" where
  "conc_in m i = (case m of None \<Rightarrow> True | Some b \<Rightarrow> ba_bit b i)"

definition flushed_in :: "bit_array option \<Rightarrow> nat \<Rightarrow> bool" where
  "flushed_in m i = (case m of None \<Rightarrow> False | Some b \<Rightarrow> \<not> ba_bit b i)"

definition known_in :: "expr option list option \<Rightarrow> nat \<Rightarrow> expr option" where
  "known_in ks i = (case ks of None \<Rightarrow> None | Some l \<Rightarrow> l ! i)"

abbreviation conc :: "object_state \<Rightarrow> nat \<Rightarrow> bool" where
  "conc os \<equiv> conc_in (concreteMask os)"

abbreviation flushed :: "object_state \<Rightarrow> nat \<Rightarrow> bool" where
  "flushed os \<equiv> flushed_in (flushMask os)"

abbreviation known :: "object_state \<Rightarrow> nat \<Rightarrow> expr option" where
  "known os \<equiv> known_in (knownSymbolics os)"

definition mask_ok :: "nat \<Rightarrow> bit_array option \<Rightarrow> bool" where
  "mask_ok n m = (case m of None \<Rightarrow> True | Some b \<Rightarrow> ba_ok n b)"

definition known_ok :: "nat \<Rightarrow> expr option list option \<Rightarrow> bool" where
  "known_ok n ks = (case ks of None \<Rightarrow> True | Some l \<Rightarrow> length l = n)"

definition os_shape :: "object_state \<Rightarrow> bool" where
  "os_shape os \<longleftrightarrow> nbytes os + 31 < 2 ^ 32 \<and> length (concreteStore os) = nbytes os \<and>
     mask_ok (nbytes os) (concreteMask os) \<and> mask_ok (nbytes os) (flushMask os) \<and> known_ok (nbytes os) (knownSymbolics os)"

named_theorems cache_runs \<open>runs of the operations on the caches\<close>

lemma isByteConcrete_runs [cache_runs]:
  "os_shape os \<Longrightarrow> unat x < nbytes os \<Longrightarrow> isByteConcrete x os = Inr (conc os (unat x))"
  by (auto simp: os_shape_def mask_ok_def isByteConcrete_def conc_in_def ba.get_runs split: option.splits)

lemma isByteFlushed_runs [cache_runs]:
  "os_shape os \<Longrightarrow> unat x < nbytes os \<Longrightarrow> isByteFlushed x os = Inr (flushed os (unat x))"
  by (auto simp: os_shape_def mask_ok_def isByteFlushed_def flushed_in_def ba.get_runs split: option.splits)

lemma isByteKnownSymbolic_runs [cache_runs]:
  "os_shape os \<Longrightarrow> unat x < nbytes os \<Longrightarrow> isByteKnownSymbolic x os = Inr (known os (unat x) \<noteq> None)"
  by (auto simp: os_shape_def known_ok_def isByteKnownSymbolic_def known_in_def at_index_def split: option.splits)

lemma knownSymbolic_runs [cache_runs]:
  "os_shape os \<Longrightarrow> unat x < nbytes os \<Longrightarrow> known os (unat x) = Some e \<Longrightarrow> knownSymbolic x os = Inr e"
  by (auto simp: os_shape_def known_ok_def knownSymbolic_def known_in_def at_index_def split: option.splits)

lemma markByteConcrete_runs:
  assumes "os_shape os" and "unat x < nbytes os"
  obtains m where "markByteConcrete x os = Inr (os\<lparr>concreteMask := m\<rparr>)" "mask_ok (nbytes os) m"
    "\<And>i. conc_in m i \<longleftrightarrow> i = unat x \<or> conc os i"
proof (cases "concreteMask os")
  case None
  then show ?thesis using that [of None] by (auto simp: markByteConcrete_def mask_ok_def conc_in_def)
next
  case (Some b)
  then show ?thesis
    using that ba.set_runs [of "nbytes os" b x] assms
    by (fastforce simp: markByteConcrete_def mask_ok_def conc_in_def os_shape_def)
qed

lemma markByteSymbolic_runs:
  assumes "os_shape os" and "unat x < nbytes os"
  obtains b where "markByteSymbolic x os = Inr (os\<lparr>concreteMask := Some b\<rparr>)" "ba_ok (nbytes os) b"
    "\<And>i. i < nbytes os \<Longrightarrow> ba_bit b i \<longleftrightarrow> i \<noteq> unat x \<and> conc os i"
proof -
  let ?b = "case concreteMask os of None \<Rightarrow> BitArray (os_size os) True | Some m \<Rightarrow> m"
  have "ba_ok (nbytes os) ?b" "\<And>i. i < nbytes os \<Longrightarrow> ba_bit ?b i = conc os i"
    using assms(1) BitArray_ok [where sz = "os_size os" and v = True]
    by (auto simp: os_shape_def mask_ok_def conc_in_def split: option.splits)
  with ba.unset_runs [OF _ assms(2), of ?b] that show ?thesis by (auto simp: markByteSymbolic_def)
qed

lemma markByteUnflushed_runs:
  assumes "os_shape os" and "unat x < nbytes os"
  obtains m where "markByteUnflushed x os = Inr (os\<lparr>flushMask := m\<rparr>)" "mask_ok (nbytes os) m"
    "\<And>i. flushed_in m i \<longleftrightarrow> i \<noteq> unat x \<and> flushed os i"
proof (cases "flushMask os")
  case None
  then show ?thesis using that [of None] by (auto simp: markByteUnflushed_def mask_ok_def flushed_in_def)
next
  case (Some b)
  then show ?thesis
    using that ba.set_runs [of "nbytes os" b x] assms
    by (fastforce simp: markByteUnflushed_def mask_ok_def flushed_in_def os_shape_def)
qed

lemma setKnownSymbolic_runs:
  assumes "os_shape os" and "unat x < nbytes os"
  obtains ks where "setKnownSymbolic x v os = Inr (os\<lparr>knownSymbolics := ks\<rparr>)" "known_ok (nbytes os) ks"
    "\<And>i. i < nbytes os \<Longrightarrow> known_in ks i = (if i = unat x then v else known os i)"
proof (cases "knownSymbolics os")
  case None
  show ?thesis
  proof (cases v)
    case v: None
    with None that [of None] show ?thesis by (simp add: setKnownSymbolic_def known_ok_def known_in_def)
  next
    case (Some e)
    with None assms that [of "Some ((replicate (nbytes os) None)[unat x := v])"] show ?thesis
      by (auto simp: setKnownSymbolic_def known_ok_def known_in_def set_index_def nth_list_update)
  qed
next
  case (Some l)
  with assms that [of "Some (l[unat x := v])"] show ?thesis
    by (auto simp: setKnownSymbolic_def known_ok_def known_in_def set_index_def os_shape_def nth_list_update)
qed

lemma flushMask_unset_runs:
  assumes "os_shape os" and "unat x < nbytes os" and "flushMask os = Some b"
  obtains b' where "flushMask_unset x os = Inr (os\<lparr>flushMask := Some b'\<rparr>)" "ba_ok (nbytes os) b'"
    "\<And>i. flushed_in (Some b') i \<longleftrightarrow> i = unat x \<or> flushed os i"
  using assms that ba.unset_runs [of "nbytes os" b x]
  by (fastforce simp: flushMask_unset_def mask_ok_def flushed_in_def os_shape_def)

lemma unat_of_nat_below: "k < unat (n :: uint) \<Longrightarrow> unat (of_nat k :: uint) = k"
proof -
  assume "k < unat n"
  moreover have "unat n < 2 ^ 32" using unsigned_less [of n] by simp
  ultimately show ?thesis by (simp add: unat_of_nat)
qed

lemma offsets_0: "x \<in> set (offsets 0 n) \<longleftrightarrow> unat x < unat n"
proof -
  have "of_nat (unat x) = x" by simp
  then show ?thesis using unat_of_nat_below [of _ n] by (force simp: offsets_def image_iff)
qed

section \<open>The contents and the invariant\<close>

text \<open>The array that \<open>getUpdates\<close> means to create for a list without root has zeros at first.\<close>

definition root_array :: "object_state \<Rightarrow> array" where
  "root_array os =
     (case upd_root os of Some a \<Rightarrow> a | None \<Rightarrow> Array 0 [] (nbytes os) (replicate (nbytes os) 0) 32 8)"

definition listed :: "env \<Rightarrow> object_state \<Rightarrow> int \<Rightarrow> int" where
  "listed env os p = evalRead env (root_array os) p (upd_head os)"

definition cached :: "env \<Rightarrow> object_state \<Rightarrow> nat \<Rightarrow> int" where
  "cached env os i =
     (if conc os i then uint (concreteStore os ! i)
      else case known os i of Some e \<Rightarrow> eval env e | None \<Rightarrow> listed env os (int i))"

definition content :: "env \<Rightarrow> object_state \<Rightarrow> int \<Rightarrow> int" where
  "content env os p = (if 0 \<le> p \<and> p < uint (os_size os) then cached env os (nat p) else listed env os p)"

definition byte_ok :: "object_state \<Rightarrow> nat \<Rightarrow> bool" where
  "byte_ok os i \<longleftrightarrow>
     (known os i \<noteq> None \<longrightarrow> \<not> conc os i) \<and>
     (\<not> flushed os i \<longrightarrow> conc os i \<or> known os i \<noteq> None) \<and>
     (\<forall>e. known os i = Some e \<longrightarrow> byte e) \<and>
     (flushed os i \<longrightarrow> (\<forall>env. cached env os i = listed env os (int i)))"

definition list_ok :: "object_state \<Rightarrow> bool" where
  "list_ok os \<longleftrightarrow> array_ok (root_array os) \<and> ar_domain (root_array os) = 32 \<and> ar_range (root_array os) = 8 \<and>
     updates_ok (root_array os) (upd_head os)"

definition os_ok :: "object_state \<Rightarrow> bool" where
  "os_ok os \<longleftrightarrow> os_shape os \<and> list_ok os \<and> (\<forall>i<nbytes os. byte_ok os i)"

lemma os_ok_shape: "os_ok os \<Longrightarrow> os_shape os"
  by (simp add: os_ok_def)

definition same_list :: "object_state \<Rightarrow> object_state \<Rightarrow> bool" where
  "same_list os os' \<longleftrightarrow> os_size os' = os_size os \<and> upd_root os' = upd_root os \<and> upd_head os' = upd_head os"

definition same_byte :: "object_state \<Rightarrow> object_state \<Rightarrow> nat \<Rightarrow> bool" where
  "same_byte os os' i \<longleftrightarrow> conc os' i = conc os i \<and> known os' i = known os i \<and>
     flushed os' i = flushed os i \<and> concreteStore os' ! i = concreteStore os ! i"

lemma same_list_listed: "same_list os os' \<Longrightarrow> listed env os' = listed env os \<and> root_array os' = root_array os"
  by (simp add: same_list_def listed_def root_array_def fun_eq_iff split: option.split)

lemma same_byte_cached: "same_list os os' \<Longrightarrow> same_byte os os' i \<Longrightarrow> cached env os' i = cached env os i"
  by (simp add: same_byte_def cached_def same_list_listed split: option.split)

lemma same_byte_ok: "same_list os os' \<Longrightarrow> same_byte os os' i \<Longrightarrow> byte_ok os' i = byte_ok os i"
  by (simp add: byte_ok_def same_list_listed same_byte_cached) (simp add: same_byte_def)

lemma nat_less_unat: "0 \<le> p \<Longrightarrow> nat p < unat w \<longleftrightarrow> p < uint w"
  by (metis int_nat_eq of_nat_less_iff uint_nat)

text \<open>An operation that changes the cache of one byte only.\<close>

lemma one_byte:
  assumes "os_ok os" and "os_shape os'" and "same_list os os'" and "x < nbytes os"
    and "\<And>i. i < nbytes os \<Longrightarrow> i \<noteq> x \<Longrightarrow> same_byte os os' i" and "byte_ok os' x"
  shows "os_ok os'" and "content env os' = (content env os)(int x := cached env os' x)"
proof -
  have sz: "os_size os' = os_size os" using assms(3) by (simp add: same_list_def)
  have x: "int x < uint (os_size os)" using assms(4) nat_less_unat [of "int x" "os_size os"] by simp
  have "byte_ok os' i" if "i < nbytes os" for i
    using that assms same_byte_ok [OF assms(3), of i] by (cases "i = x") (auto simp: os_ok_def)
  moreover have "list_ok os'"
    using assms(1,3) by (simp add: os_ok_def list_ok_def same_list_listed) (simp add: same_list_def)
  ultimately show "os_ok os'" using assms(2) sz by (simp add: os_ok_def)
  show "content env os' = (content env os)(int x := cached env os' x)"
  proof
    fix p
    have "cached env os' (nat p) = cached env os (nat p)" if "0 \<le> p" "p < uint (os_size os)" "p \<noteq> int x"
      using that assms(3) assms(5) [of "nat p"] by (intro same_byte_cached) (auto simp: nat_less_unat)
    then show "content env os' p = ((content env os)(int x := cached env os' x)) p"
      using sz x by (auto simp: content_def same_list_listed [OF assms(3)])
  qed
qed


section \<open>Writes to one byte\<close>

lemma write8_runs:
  assumes "os_ok os" and x: "unat x < nbytes os"
  shows "\<exists>os'. write8 x v os = Inr os' \<and> os_ok os' \<and> same_list os os' \<and> conc os' (unat x) \<and>
    (\<forall>i<nbytes os. i \<noteq> unat x \<longrightarrow> same_byte os os' i) \<and>
    (\<forall>env. content env os' = (content env os)(uint x := uint v))"
proof -
  have sh: "os_shape os" using assms(1) by (rule os_ok_shape)
  let ?os0 = "os\<lparr>concreteStore := (concreteStore os)[unat x := v]\<rparr>"
  have store: "set_index (concreteStore os) (unat x) v = Inr ((concreteStore os)[unat x := v])"
    using sh x by (simp add: set_index_def os_shape_def)
  have "os_shape ?os0" "unat x < nbytes ?os0" using sh x by (simp_all add: os_shape_def)
  then obtain ks where ks: "setKnownSymbolic x None ?os0 = Inr (?os0\<lparr>knownSymbolics := ks\<rparr>)" "known_ok (nbytes os) ks"
    "\<And>i. i < nbytes os \<Longrightarrow> known_in ks i = (if i = unat x then None else known os i)"
    by (rule setKnownSymbolic_runs [where v = None]) auto
  let ?os1 = "?os0\<lparr>knownSymbolics := ks\<rparr>"
  have "os_shape ?os1" "unat x < nbytes ?os1" using sh x ks(2) by (simp_all add: os_shape_def)
  then obtain cm where cm: "markByteConcrete x ?os1 = Inr (?os1\<lparr>concreteMask := cm\<rparr>)" "mask_ok (nbytes os) cm"
    "\<And>i. conc_in cm i \<longleftrightarrow> i = unat x \<or> conc os i" by (rule markByteConcrete_runs) auto
  let ?os2 = "?os1\<lparr>concreteMask := cm\<rparr>"
  have "os_shape ?os2" "unat x < nbytes ?os2" using sh x ks(2) cm(2) by (simp_all add: os_shape_def)
  then obtain fm where fm: "markByteUnflushed x ?os2 = Inr (?os2\<lparr>flushMask := fm\<rparr>)" "mask_ok (nbytes os) fm"
    "\<And>i. flushed_in fm i \<longleftrightarrow> i \<noteq> unat x \<and> flushed os i" by (rule markByteUnflushed_runs) auto
  let ?os' = "?os2\<lparr>flushMask := fm\<rparr>"
  have run: "write8 x v os = Inr ?os'" using store ks(1) cm(1) fm(1) by (simp add: write8_def)
  have shape': "os_shape ?os'" using sh ks(2) cm(2) fm(2) by (simp add: os_shape_def)
  have list': "same_list os ?os'" by (simp add: same_list_def)
  have other: "same_byte os ?os' i" if "i < nbytes os" "i \<noteq> unat x" for i
    using that ks(3) [of i] cm(3) [of i] fm(3) [of i] by (simp add: same_byte_def)
  have here: "conc ?os' (unat x)" "byte_ok ?os' (unat x)" "\<And>env. cached env ?os' (unat x) = uint v"
    using ks(3) [OF x] cm(3) [of "unat x"] fm(3) [of "unat x"] sh x by (auto simp: byte_ok_def cached_def os_shape_def)
  note one = one_byte [OF assms(1) shape' list' x other here(2)]
  have "\<forall>env. content env ?os' = (content env os)(uint x := uint v)" using one(2) here(3) by simp
  with run one(1) list' here(1) other show ?thesis by blast
qed

lemma write8_expr_runs:
  assumes "os_ok os" and x: "unat x < nbytes os" and "byte v"
  shows "\<exists>os'. write8_expr x v os = Inr os' \<and> os_ok os' \<and> same_list os os' \<and>
    (conc os' (unat x) \<or> known os' (unat x) \<noteq> None) \<and>
    (\<forall>i<nbytes os. i \<noteq> unat x \<longrightarrow> same_byte os os' i) \<and>
    (\<forall>env. content env os' = (content env os)(uint x := eval env v))"
proof (cases "isConstant v")
  case True
  then obtain w c where v: "v = ConstantExpr w c" by (cases v) auto
  with assms(3) have w: "w = 8" "in_width 8 c" by (auto simp: byte_def)
  then have "uint (of_int c :: 8 word) = c" using in_width_def [of 8 c] by (simp add: unsigned_of_int take_bit_in_width)
  with write8_runs [OF assms(1,2), of "of_int c"] v w show ?thesis by (auto simp: write8_expr_def)
next
  case False
  have sh: "os_shape os" using assms(1) by (rule os_ok_shape)
  obtain ks where ks: "setKnownSymbolic x (Some v) os = Inr (os\<lparr>knownSymbolics := ks\<rparr>)" "known_ok (nbytes os) ks"
    "\<And>i. i < nbytes os \<Longrightarrow> known_in ks i = (if i = unat x then Some v else known os i)"
    using setKnownSymbolic_runs [OF sh x, of "Some v"] by metis
  let ?os1 = "os\<lparr>knownSymbolics := ks\<rparr>"
  have "os_shape ?os1" "unat x < nbytes ?os1" using sh x ks(2) by (simp_all add: os_shape_def)
  then obtain cm where cm: "markByteSymbolic x ?os1 = Inr (?os1\<lparr>concreteMask := Some cm\<rparr>)" "ba_ok (nbytes os) cm"
    "\<And>i. i < nbytes os \<Longrightarrow> ba_bit cm i \<longleftrightarrow> i \<noteq> unat x \<and> conc os i" by (rule markByteSymbolic_runs) auto
  let ?os2 = "?os1\<lparr>concreteMask := Some cm\<rparr>"
  have "os_shape ?os2" "unat x < nbytes ?os2" using sh x ks(2) cm(2) by (simp_all add: os_shape_def mask_ok_def)
  then obtain fm where fm: "markByteUnflushed x ?os2 = Inr (?os2\<lparr>flushMask := fm\<rparr>)" "mask_ok (nbytes os) fm"
    "\<And>i. flushed_in fm i \<longleftrightarrow> i \<noteq> unat x \<and> flushed os i" by (rule markByteUnflushed_runs) auto
  let ?os' = "?os2\<lparr>flushMask := fm\<rparr>"
  have run: "write8_expr x v os = Inr ?os'" using False ks(1) cm(1) fm(1) by (cases v) (simp_all add: write8_expr_def)
  have shape': "os_shape ?os'" using sh ks(2) cm(2) fm(2) by (simp add: os_shape_def mask_ok_def)
  have list': "same_list os ?os'" by (simp add: same_list_def)
  have conc': "conc_in (Some cm) i \<longleftrightarrow> i \<noteq> unat x \<and> conc os i" if "i < nbytes os" for i
    using cm(3) [OF that] by (simp add: conc_in_def)
  have other: "same_byte os ?os' i" if "i < nbytes os" "i \<noteq> unat x" for i
    using that ks(3) [of i] conc' [of i] fm(3) [of i] by (simp add: same_byte_def)
  have here: "known ?os' (unat x) \<noteq> None" "byte_ok ?os' (unat x)" "\<And>env. cached env ?os' (unat x) = eval env v"
    using ks(3) [OF x] conc' [OF x] fm(3) [of "unat x"] assms(3) by (auto simp: byte_ok_def cached_def)
  note one = one_byte [OF assms(1) shape' list' x other here(2)]
  have "\<forall>env. content env ?os' = (content env os)(uint x := eval env v)" using one(2) here(3) by simp
  with run one(1) list' here(1) other show ?thesis by blast
qed


section \<open>Reads of one byte\<close>

text \<open>
  A list without root can only be read through the cache: every byte has to be there. A list with
  a root can always be read.
\<close>

definition all_cached :: "object_state \<Rightarrow> bool" where
  "all_cached os \<longleftrightarrow> (\<forall>i<nbytes os. conc os i \<or> known os i \<noteq> None)"

definition readable :: "object_state \<Rightarrow> bool" where
  "readable os \<longleftrightarrow> os_ok os \<and> (upd_root os \<noteq> None \<or> all_cached os)"

lemma getUpdates_root: "upd_root os = Some a \<Longrightarrow> getUpdates cfg os = Inr os"
  by (simp add: getUpdates_def)

lemma read_array_runs:
  assumes "list_ok os" and "upd_root os \<noteq> None" and "welltyped index" and "getWidth index = 32" and "\<not> constArrayOpt cfg"
  shows "\<exists>e. read_array cfg index os = Inr (os, e) \<and> byte e \<and> (\<forall>env. eval env e = listed env os (eval env index))"
proof -
  obtain a where a: "upd_root os = Some a" using assms(2) by auto
  then have "root_array os = a" by (simp add: root_array_def)
  with assms create_ReadExpr_computes [of a "upd_head os" index] a show ?thesis
    by (auto simp: list_ok_def read_array_def getUpdates_root computes_def byte_def listed_def)
qed

lemma const32_ok [simp]: "welltyped (const32 x)" "getWidth (const32 x) = 32" "eval env (const32 x) = uint x"
  using unsigned_less [of x] by (simp_all add: const32_def in_width_def)

lemma const8_ok [simp]: "byte (const8 v)" "eval env (const8 v) = uint v"
  using unsigned_less [of v] by (simp_all add: const8_def in_width_def byte_def)

lemma content_byte: "unat x < nbytes os \<Longrightarrow> content env os (uint x) = cached env os (unat x)"
  using nat_less_unat [of "uint x" "os_size os"] by (simp add: content_def)

lemma read8_runs:
  assumes "readable os" and x: "unat x < nbytes os" and "\<not> constArrayOpt cfg"
  shows "\<exists>e. read8 cfg x os = Inr (os, e) \<and> byte e \<and> (\<forall>env. eval env e = content env os (uint x))"
proof -
  have ok: "os_ok os" and sh: "os_shape os" using assms(1) os_ok_shape by (simp_all add: readable_def)
  then have b: "byte_ok os (unat x)" using x by (simp add: os_ok_def)
  note run = read8_def isByteConcrete_runs [OF sh x] isByteKnownSymbolic_runs [OF sh x] isByteFlushed_runs [OF sh x]
    knownSymbolic_runs [OF sh x] content_byte [OF x] cached_def
  consider "conc os (unat x)" | e where "\<not> conc os (unat x)" "known os (unat x) = Some e"
    | "\<not> conc os (unat x)" "known os (unat x) = None" by blast
  then show ?thesis
  proof cases
    case 1
    with sh x show ?thesis by (auto simp: run at_index_def os_shape_def)
  next
    case 2
    with b show ?thesis by (auto simp: run byte_ok_def)
  next
    case 3
    with b have "flushed os (unat x)" by (simp add: byte_ok_def)
    moreover have "upd_root os \<noteq> None" using assms(1) 3 x by (auto simp: readable_def all_cached_def)
    with ok read_array_runs [of os "const32 x" cfg] assms(3) obtain e where
      "read_array cfg (const32 x) os = Inr (os, e)" "byte e" "\<forall>env. eval env e = listed env os (uint x)"
      by (auto simp: os_ok_def)
    ultimately show ?thesis using 3 by (simp add: run)
  qed
qed

section \<open>Flushing\<close>

lemma root_array_updates [simp]:
  "root_array (os\<lparr>upd_head := h\<rparr>) = root_array os" "root_array (os\<lparr>flushMask := fm\<rparr>) = root_array os"
  "root_array (os\<lparr>concreteMask := cm\<rparr>) = root_array os" "root_array (os\<lparr>knownSymbolics := ks\<rparr>) = root_array os"
  "root_array (os\<lparr>concreteStore := cs\<rparr>) = root_array os"
  by (simp_all add: root_array_def split: option.split)

lemma extend_updates_runs:
  assumes "list_ok os" and "getWidth i = 32" and "byte v"
  shows "extend_updates i v os = Inr (os\<lparr>upd_head := UpdateNode i v (upd_head os)\<rparr>)"
proof (cases "upd_root os")
  case (Some a)
  with assms show ?thesis by (simp add: extend_updates_def list_ok_def root_array_def Klee_Expr.extend_def byte_def)
qed (simp add: extend_updates_def)

lemma flush_byte_runs:
  assumes "os_ok os" and x: "unat x < nbytes os" and "\<not> flushed os (unat x)"
  shows "\<exists>e. flush_byte x os = Inr (conc os (unat x), os\<lparr>upd_head := UpdateNode (const32 x) e (upd_head os)\<rparr>) \<and> byte e \<and>
    (\<forall>env. eval env e = cached env os (unat x))"
proof -
  have sh: "os_shape os" and l: "list_ok os" and b: "byte_ok os (unat x)" using assms by (simp_all add: os_ok_def)
  note run = flush_byte_def isByteConcrete_runs [OF sh x] isByteKnownSymbolic_runs [OF sh x] knownSymbolic_runs [OF sh x]
    cached_def extend_updates_runs [OF l]
  consider "conc os (unat x)" | e where "\<not> conc os (unat x)" "known os (unat x) = Some e" "byte e"
    using b assms(3) by (auto simp: byte_ok_def)
  then show ?thesis
  proof cases
    case 1
    with sh x show ?thesis
      by (intro exI [of _ "const8 (concreteStore os ! unat x)"]) (simp add: run at_index_def os_shape_def)
  next
    case (2 e)
    then show ?thesis by (intro exI [of _ e]) (simp add: run)
  qed
qed

text \<open>After a byte has been put into the list, the list has its value, and the cache still has it.\<close>

lemma push_byte:
  assumes "os_ok os" and x: "unat x < nbytes os" and "\<not> flushed os (unat x)" and "byte e"
    and e: "\<And>env. eval env e = cached env os (unat x)" and "ba_ok (nbytes os) b"
    and fl: "\<And>i. flushed_in (Some b) i \<longleftrightarrow> i = unat x \<or> flushed os i"
  defines "os' \<equiv> os\<lparr>upd_head := UpdateNode (const32 x) e (upd_head os), flushMask := Some b\<rparr>"
  shows "os_ok os'" and "content env os' = content env os"
proof -
  have listed: "listed env os' p = (if p = uint x then cached env os (unat x) else listed env os p)" for env p
    using e by (auto simp: os'_def listed_def)
  have at_x: "int i = uint x \<longleftrightarrow> i = unat x" for i by (metis of_nat_eq_iff uint_nat)
  have bx: "byte_ok os (unat x)" using assms(1) x by (simp add: os_ok_def)
  have cached: "cached env os' i = cached env os i" for env i
  proof (cases "i = unat x")
    case True
    with bx assms(3) show ?thesis by (auto simp: byte_ok_def cached_def os'_def)
  next
    case False
    with at_x listed [of env "int i"] show ?thesis
      by (auto simp: cached_def os'_def split: option.split)
  qed
  have fl': "flushed os' i \<longleftrightarrow> i = unat x \<or> flushed os i" for i using fl by (simp add: os'_def)
  have "byte_ok os' i" if "i < nbytes os" for i
  proof -
    have "byte_ok os i" using assms(1) that by (simp add: os_ok_def)
    then show ?thesis
      using fl' [of i] at_x [of i] by (auto simp: byte_ok_def cached listed) (simp_all add: os'_def)
  qed
  moreover have "os_shape os'" "list_ok os'"
    using assms(1,4,6) by (simp_all add: os'_def os_ok_def os_shape_def list_ok_def mask_ok_def byte_def)
  ultimately show "os_ok os'" by (simp add: os_ok_def os'_def)
  have "uint x < uint (os_size os)" using x nat_less_unat [of "uint x" "os_size os"] by simp
  then show "content env os' = content env os"
    by (auto simp: content_def fun_eq_iff cached listed) (simp_all add: os'_def)
qed

text \<open>A flushed byte may leave the cache.\<close>

lemma uncache_byte:
  assumes "os_ok os" and "os_shape os'" and "same_list os os'" and "x < nbytes os" and "flushed os x" and "flushed os' x"
    and "\<And>i. i < nbytes os \<Longrightarrow> i \<noteq> x \<Longrightarrow> same_byte os os' i" and "\<not> conc os' x" and "known os' x = None"
  shows "os_ok os'" and "content env os' = content env os"
proof -
  have l: "cached env os' x = listed env os (int x)" for env
    using assms(8,9) by (simp add: cached_def same_list_listed [OF assms(3)])
  moreover have "byte_ok os x" using assms(1,4) by (simp add: os_ok_def)
  ultimately have c: "cached env os' x = cached env os x" for env using assms(5) by (simp add: byte_ok_def)
  have b': "byte_ok os' x" using assms(6,8,9) l by (simp add: byte_ok_def same_list_listed [OF assms(3)])
  note one = one_byte [OF assms(1-4) assms(7) b']
  show "os_ok os'" by (rule one(1))
  have "int x < uint (os_size os)" using assms(4) nat_less_unat [of "int x" "os_size os"] by simp
  then show "content env os' = content env os" using one(2) [of env] c by (auto simp: fun_eq_iff content_def)
qed

text \<open>The loops reach every byte.\<close>

lemma fold_outcome_each:
  assumes "\<And>x s. x \<in> set xs \<Longrightarrow> I s \<Longrightarrow> \<exists>s'. f x s = Inr s' \<and> I s' \<and> Q x s' \<and> (\<forall>y. Q y s \<longrightarrow> Q y s')" and "I s"
  shows "\<exists>s'. fold_outcome f xs s = Inr s' \<and> I s' \<and> (\<forall>x\<in>set xs. Q x s') \<and> (\<forall>y. Q y s \<longrightarrow> Q y s')"
  using assms
proof (induction xs arbitrary: s)
  case (Cons x xs)
  from Cons.prems(1) [of x s] Cons.prems(2) obtain s1 where s1: "f x s = Inr s1" "I s1" "Q x s1" "\<forall>y. Q y s \<longrightarrow> Q y s1" by auto
  obtain s2 where "fold_outcome f xs s1 = Inr s2" "I s2" "\<forall>x\<in>set xs. Q x s2" "\<forall>y. Q y s1 \<longrightarrow> Q y s2"
    using Cons.IH [OF Cons.prems(1) s1(2)] by auto
  with s1 show ?case by auto
qed simp

definition kept :: "object_state \<Rightarrow> object_state \<Rightarrow> bool" where
  "kept os os' \<longleftrightarrow> os_ok os' \<and> os_size os' = os_size os \<and> upd_root os' = upd_root os \<and>
     (\<forall>env. content env os' = content env os)"

lemma kept_trans: "kept os os' \<Longrightarrow> kept os' os'' \<Longrightarrow> kept os os''"
  by (simp add: kept_def)

lemma push_runs:
  assumes "os_ok os" and x: "unat x < nbytes os" and "\<not> flushed os (unat x)" and "flushMask os = Some b"
  shows "\<exists>e b'. flush_byte x os = Inr (conc os (unat x), os\<lparr>upd_head := UpdateNode (const32 x) e (upd_head os)\<rparr>) \<and>
    ba_ok (nbytes os) b' \<and> (\<forall>i. flushed_in (Some b') i \<longleftrightarrow> i = unat x \<or> flushed os i) \<and>
    ba_unset b x = Inr b' \<and>
    kept os (os\<lparr>upd_head := UpdateNode (const32 x) e (upd_head os), flushMask := Some b'\<rparr>)"
proof -
  obtain e where e: "flush_byte x os = Inr (conc os (unat x), os\<lparr>upd_head := UpdateNode (const32 x) e (upd_head os)\<rparr>)"
    "byte e" "\<And>env. eval env e = cached env os (unat x)" using flush_byte_runs [OF assms(1-3)] by blast
  have sh: "os_shape os" using assms(1) by (rule os_ok_shape)
  obtain b' where b': "ba_unset b x = Inr b'" "ba_ok (nbytes os) b'" "\<And>i. flushed_in (Some b') i \<longleftrightarrow> i = unat x \<or> flushed os i"
    using ba.unset_runs [OF _ x, of b] sh assms(4) by (auto simp: os_shape_def mask_ok_def flushed_in_def)
  have "kept os (os\<lparr>upd_head := UpdateNode (const32 x) e (upd_head os), flushMask := Some b'\<rparr>)"
    using push_byte [OF assms(1-3) e(2,3) b'(2,3)] by (simp add: kept_def)
  with e b' show ?thesis by blast
qed

lemma flushRead_byte_runs:
  assumes "os_ok os" and x: "unat x < nbytes os" and "flushMask os = Some b"
  shows "\<exists>os'. flushRead_byte x os = Inr os' \<and> kept os os' \<and> flushMask os' \<noteq> None \<and> flushed os' (unat x) \<and>
    (\<forall>i. flushed os i \<longrightarrow> flushed os' i)"
proof (cases "flushed os (unat x)")
  case True
  with assms show ?thesis by (simp add: flushRead_byte_def isByteFlushed_runs os_ok_shape kept_def)
next
  case False
  from push_runs [OF assms(1,2) False assms(3)] obtain e b' where
    p: "flush_byte x os = Inr (conc os (unat x), os\<lparr>upd_head := UpdateNode (const32 x) e (upd_head os)\<rparr>)"
      "\<And>i. flushed_in (Some b') i \<longleftrightarrow> i = unat x \<or> flushed os i" "ba_unset b x = Inr b'"
      "kept os (os\<lparr>upd_head := UpdateNode (const32 x) e (upd_head os), flushMask := Some b'\<rparr>)" by blast
  have "flushRead_byte x os = Inr (os\<lparr>upd_head := UpdateNode (const32 x) e (upd_head os), flushMask := Some b'\<rparr>)"
    using False p(1,3) assms by (simp add: flushRead_byte_def isByteFlushed_runs os_ok_shape flushMask_unset_def)
  with p(2,4) show ?thesis by auto
qed

text \<open>A byte that lives in the list only, and the step that makes a flushed byte one.\<close>

definition only_listed :: "object_state \<Rightarrow> nat \<Rightarrow> bool" where
  "only_listed os i \<longleftrightarrow> flushed os i \<and> \<not> conc os i \<and> known os i = None"

lemma uncache_runs:
  assumes "os_ok os" and x: "unat x < nbytes os" and "flushed os (unat x)" and "c = conc os (unat x)"
  shows "\<exists>os'. (if c then markByteSymbolic x os else setKnownSymbolic x None os) = Inr os' \<and> kept os os' \<and>
    flushMask os' = flushMask os \<and> only_listed os' (unat x) \<and> (\<forall>i<nbytes os. only_listed os i \<longrightarrow> only_listed os' i)"
proof -
  have sh: "os_shape os" using assms(1) by (rule os_ok_shape)
  have b: "byte_ok os (unat x)" using assms(1) x by (simp add: os_ok_def)
  have *: ?thesis if run: "(if c then markByteSymbolic x os else setKnownSymbolic x None os) = Inr os'"
    and p: "os_shape os'" "same_list os os'" "flushMask os' = flushMask os" "\<not> conc os' (unat x)" "known os' (unat x) = None"
    and same: "\<And>i. i < nbytes os \<Longrightarrow> i \<noteq> unat x \<Longrightarrow> same_byte os os' i" for os'
  proof -
    have f': "flushed os' (unat x)" using assms(3) p(3) by simp
    note u = uncache_byte [OF assms(1) p(1,2) x assms(3) f' same p(4,5)]
    then have "kept os os'" using p(2) by (simp add: kept_def same_list_def)
    moreover have "only_listed os' (unat x)" using f' p(4,5) by (simp add: only_listed_def)
    moreover have "only_listed os' i" if "i < nbytes os" "only_listed os i" for i
      using that same [of i] calculation(2) by (cases "i = unat x") (auto simp: only_listed_def same_byte_def)
    ultimately show ?thesis using run p(3) by blast
  qed
  show ?thesis
  proof (cases c)
    case True
    obtain cm where cm: "markByteSymbolic x os = Inr (os\<lparr>concreteMask := Some cm\<rparr>)" "ba_ok (nbytes os) cm"
      "\<And>i. i < nbytes os \<Longrightarrow> ba_bit cm i \<longleftrightarrow> i \<noteq> unat x \<and> conc os i" using markByteSymbolic_runs [OF sh x] by metis
    show ?thesis
      by (rule * [of "os\<lparr>concreteMask := Some cm\<rparr>"])
        (use cm sh True x b assms(4) in \<open>auto simp: os_shape_def mask_ok_def same_list_def conc_in_def same_byte_def byte_ok_def\<close>)
  next
    case False
    obtain ks where ks: "setKnownSymbolic x None os = Inr (os\<lparr>knownSymbolics := ks\<rparr>)" "known_ok (nbytes os) ks"
      "\<And>i. i < nbytes os \<Longrightarrow> known_in ks i = (if i = unat x then None else known os i)"
      using setKnownSymbolic_runs [OF sh x, of None] by metis
    show ?thesis
      by (rule * [of "os\<lparr>knownSymbolics := ks\<rparr>"])
        (use ks sh False x assms(4) in \<open>auto simp: os_shape_def same_list_def same_byte_def\<close>)
  qed
qed

lemma mark_then_unset:
  assumes "flushMask os = Some b" and "ba_unset b x = Inr b'"
  shows "bind_outcome (if c then markByteSymbolic x os else setKnownSymbolic x None os) (flushMask_unset x) =
    (if c then markByteSymbolic x (os\<lparr>flushMask := Some b'\<rparr>) else setKnownSymbolic x None (os\<lparr>flushMask := Some b'\<rparr>))"
  using assms
  by (auto simp: markByteSymbolic_def setKnownSymbolic_def flushMask_unset_def bind_outcome_def split: option.split sum.split)

lemma flushWrite_byte_runs:
  assumes "os_ok os" and x: "unat x < nbytes os" and fm: "flushMask os = Some b"
  shows "\<exists>os'. flushWrite_byte x os = Inr os' \<and> kept os os' \<and> flushMask os' \<noteq> None \<and>
    only_listed os' (unat x) \<and> (\<forall>i<nbytes os. only_listed os i \<longrightarrow> only_listed os' i)"
proof -
  have sh: "os_shape os" using assms(1) by (rule os_ok_shape)
  note run = flushWrite_byte_def isByteFlushed_runs [OF sh x] isByteConcrete_runs [OF sh x] isByteKnownSymbolic_runs [OF sh x]
  show ?thesis
  proof (cases "flushed os (unat x)")
    case True
    show ?thesis
    proof (cases "conc os (unat x) \<or> known os (unat x) \<noteq> None")
      case cached: True
      then have "flushWrite_byte x os =
          (if conc os (unat x) then markByteSymbolic x os else setKnownSymbolic x None os)"
        using True by (auto simp: run)
      with uncache_runs [OF assms(1,2) True refl] fm show ?thesis by auto
    next
      case False
      then have "flushWrite_byte x os = Inr os" using True by (auto simp: run)
      with False True assms(1) fm show ?thesis by (auto simp: kept_def only_listed_def)
    qed
  next
    case False
    from push_runs [OF assms(1,2) False fm] obtain e b' where
      p: "flush_byte x os = Inr (conc os (unat x), os\<lparr>upd_head := UpdateNode (const32 x) e (upd_head os)\<rparr>)"
        "\<And>i. flushed_in (Some b') i \<longleftrightarrow> i = unat x \<or> flushed os i" "ba_unset b x = Inr b'"
        "kept os (os\<lparr>upd_head := UpdateNode (const32 x) e (upd_head os), flushMask := Some b'\<rparr>)" by blast
    let ?os1 = "os\<lparr>upd_head := UpdateNode (const32 x) e (upd_head os), flushMask := Some b'\<rparr>"
    have "flushWrite_byte x os = (if conc os (unat x) then markByteSymbolic x ?os1 else setKnownSymbolic x None ?os1)"
      using False p(1) mark_then_unset [of "os\<lparr>upd_head := UpdateNode (const32 x) e (upd_head os)\<rparr>" b x b' "conc os (unat x)"]
        fm p(3) by (simp add: run)
    moreover have "os_ok ?os1" "unat x < nbytes ?os1" "flushed ?os1 (unat x)" using p(2,4) x by (simp_all add: kept_def)
    note uncache_runs [OF this, of "conc os (unat x)"]
    moreover have "only_listed ?os1 i" if "only_listed os i" for i using that p(2) by (simp add: only_listed_def)
    ultimately show ?thesis using p(4) kept_trans [OF p(4)] by auto
  qed
qed

lemma ensure_flushMask_runs:
  assumes "os_ok os"
  shows "kept os (ensure_flushMask os) \<and> flushMask (ensure_flushMask os) \<noteq> None"
proof (cases "flushMask os")
  case None
  let ?os' = "os\<lparr>flushMask := Some (BitArray (os_size os) True)\<rparr>"
  have l: "same_list os ?os'" by (simp add: same_list_def)
  have lt: "nbytes os + 31 < 2 ^ 32" using assms by (simp add: os_ok_def os_shape_def)
  have m: "ba_ok (nbytes os) (BitArray (os_size os) True)"
    "\<And>i. i < nbytes os \<Longrightarrow> ba_bit (BitArray (os_size os) True) i" using BitArray_ok [OF lt] by auto
  have same: "same_byte os ?os' i" if "i < nbytes os" for i
    using m(2) [OF that] None by (simp add: same_byte_def flushed_in_def)
  have "byte_ok ?os' i" if "i < nbytes os" for i
    using same_byte_ok [OF l same [OF that]] assms that by (simp add: os_ok_def)
  then have "os_ok ?os'" using assms m(1) by (simp add: os_ok_def os_shape_def list_ok_def mask_ok_def)
  moreover have "content env ?os' = content env os" for env
    using same_byte_cached [OF l same] same_list_listed [OF l] by (auto simp: content_def fun_eq_iff nat_less_unat)
  ultimately show ?thesis using None by (simp add: ensure_flushMask_def kept_def)
next
  case (Some b)
  with assms show ?thesis by (simp add: ensure_flushMask_def kept_def)
qed

lemma flushRangeForRead_runs:
  assumes "os_ok os"
  shows "\<exists>os'. flushRangeForRead 0 (os_size os) os = Inr os' \<and> kept os os' \<and> (\<forall>i<nbytes os. flushed os' i)"
proof -
  let ?I = "\<lambda>os'. kept os os' \<and> flushMask os' \<noteq> None" and ?Q = "\<lambda>x os'. flushed os' (unat (x :: uint))"
  have step: "\<exists>os''. flushRead_byte x os' = Inr os'' \<and> ?I os'' \<and> ?Q x os'' \<and> (\<forall>y. ?Q y os' \<longrightarrow> ?Q y os'')"
    if x: "x \<in> set (offsets 0 (os_size os))" and I: "?I os'" for x os'
  proof -
    obtain b where k: "kept os os'" "flushMask os' = Some b" using I by auto
    then have "os_ok os'" "unat x < nbytes os'" using x by (simp_all add: kept_def offsets_0)
    from flushRead_byte_runs [OF this k(2)] kept_trans [OF k(1)] show ?thesis by blast
  qed
  obtain os' where "fold_outcome flushRead_byte (offsets 0 (os_size os)) (ensure_flushMask os) = Inr os'" "?I os'"
    "\<forall>x\<in>set (offsets 0 (os_size os)). ?Q x os'"
    using fold_outcome_each [where I = ?I and Q = ?Q, OF step ensure_flushMask_runs [OF assms]] by blast
  moreover have "flushed os' i" if "i < nbytes os" for i
  proof -
    have "unat (of_nat i :: uint) = i" using that by (rule unat_of_nat_below)
    with calculation(3) that show ?thesis by (metis offsets_0)
  qed
  ultimately show ?thesis by (auto simp: flushRangeForRead_def)
qed

lemma flushRangeForWrite_runs:
  assumes "os_ok os"
  shows "\<exists>os'. flushRangeForWrite 0 (os_size os) os = Inr os' \<and> kept os os' \<and> (\<forall>i<nbytes os. only_listed os' i)"
proof -
  let ?I = "\<lambda>os'. kept os os' \<and> flushMask os' \<noteq> None"
  and ?Q = "\<lambda>x os'. unat (x :: uint) < nbytes os \<and> only_listed os' (unat x)"
  have step: "\<exists>os''. flushWrite_byte x os' = Inr os'' \<and> ?I os'' \<and> ?Q x os'' \<and> (\<forall>y. ?Q y os' \<longrightarrow> ?Q y os'')"
    if x: "x \<in> set (offsets 0 (os_size os))" and I: "?I os'" for x os'
  proof -
    obtain b where k: "kept os os'" "flushMask os' = Some b" using I by auto
    then have ok: "os_ok os'" "unat x < nbytes os'" "os_size os' = os_size os" using x by (simp_all add: kept_def offsets_0)
    from flushWrite_byte_runs [OF ok(1,2) k(2)] kept_trans [OF k(1)] ok show ?thesis by auto
  qed
  obtain os' where "fold_outcome flushWrite_byte (offsets 0 (os_size os)) (ensure_flushMask os) = Inr os'" "?I os'"
    "\<forall>x\<in>set (offsets 0 (os_size os)). ?Q x os'"
    using fold_outcome_each [where I = ?I and Q = ?Q, OF step ensure_flushMask_runs [OF assms]] by blast
  moreover have "only_listed os' i" if "i < nbytes os" for i
  proof -
    have "unat (of_nat i :: uint) = i" using that by (rule unat_of_nat_below)
    with calculation(3) that show ?thesis by (metis offsets_0)
  qed
  ultimately show ?thesis by (auto simp: flushRangeForWrite_def)
qed


section \<open>Access at a symbolic offset\<close>

text \<open>The value of a symbolic offset depends on the assignment of the arrays.\<close>

definition varies :: "expr \<Rightarrow> bool" where
  "varies e \<longleftrightarrow> (\<exists>env env'. eval env e \<noteq> eval env' e)"

lemma varies_not_constant: "varies e \<Longrightarrow> \<not> isConstant e"
  by (cases e) (auto simp: varies_def)

definition symbolic_offset :: "expr \<Rightarrow> bool" where
  "symbolic_offset e \<longleftrightarrow> welltyped e \<and> getWidth e = 32 \<and> varies e"

lemma content_flushed: "os_ok os \<Longrightarrow> \<forall>i<nbytes os. flushed os i \<Longrightarrow> content env os p = listed env os p"
  using nat_less_unat [of p "os_size os"] by (auto simp: content_def os_ok_def byte_ok_def)

lemma read8_symbolic_runs:
  assumes "os_ok os" and "upd_root os \<noteq> None" and "symbolic_offset x" and "\<not> constArrayOpt cfg"
  shows "\<exists>os' e. read8_symbolic cfg x os = Inr (os', e) \<and> kept os os' \<and> byte e \<and>
    (\<forall>env. eval env e = content env os (eval env x))"
proof -
  have x: "welltyped x" "getWidth x = 32" "\<not> isConstant x"
    using assms(3) varies_not_constant by (simp_all add: symbolic_offset_def)
  obtain os' where os': "flushRangeForRead 0 (os_size os) os = Inr os'" "kept os os'" "\<forall>i<nbytes os. flushed os' i"
    using flushRangeForRead_runs [OF assms(1)] by blast
  then have k: "os_ok os'" "upd_root os' \<noteq> None" "nbytes os' = nbytes os" "\<And>env. content env os' = content env os"
    using assms(2) by (simp_all add: kept_def)
  obtain e where e: "read_array cfg x os' = Inr (os', e)" "byte e" "\<forall>env. eval env e = listed env os' (eval env x)"
    using read_array_runs [OF _ k(2) x(1,2) assms(4)] k(1) by (auto simp: os_ok_def)
  have "listed env os' p = content env os p" for env p
    using content_flushed [OF k(1), of env p] os'(3) k(3,4) by simp
  moreover have "read8_symbolic cfg x os = Inr (os', e)"
    using x os'(1) e(1) by (simp add: read8_symbolic_def fastRangeCheckOffset_def create_ZExtExpr_def)
  ultimately show ?thesis using os'(2) e by auto
qed

lemma write8_symbolic_runs:
  assumes "os_ok os" and "symbolic_offset x" and "byte v"
  shows "\<exists>os'. write8_symbolic x v os = Inr os' \<and> os_ok os' \<and> os_size os' = os_size os \<and> upd_root os' = upd_root os \<and>
    (\<forall>env. content env os' = (content env os)(eval env x := eval env v))"
proof -
  have x: "welltyped x" "getWidth x = 32" "\<not> isConstant x"
    using assms(2) varies_not_constant by (simp_all add: symbolic_offset_def)
  obtain os1 where os1: "flushRangeForWrite 0 (os_size os) os = Inr os1" "kept os os1" "\<forall>i<nbytes os. only_listed os1 i"
    using flushRangeForWrite_runs [OF assms(1)] by blast
  then have k: "os_ok os1" "os_size os1 = os_size os" "\<And>env. content env os1 = content env os"
    by (simp_all add: kept_def)
  let ?os' = "os1\<lparr>upd_head := UpdateNode x v (upd_head os1)\<rparr>"
  have run: "write8_symbolic x v os = Inr ?os'"
    using x os1(1) k(1) extend_updates_runs [OF _ x(2) assms(3), of os1]
    by (simp add: write8_symbolic_def fastRangeCheckOffset_def create_ZExtExpr_def os_ok_def)
  have cached: "cached env ?os' i = listed env ?os' (int i)" if "i < nbytes os" for env i
    using os1(3) that by (simp add: only_listed_def cached_def)
  then have "byte_ok ?os' i" if "i < nbytes os" for i
    using os1(3) that by (simp add: byte_ok_def only_listed_def)
  moreover have "list_ok ?os'" using k(1) x assms(3) by (simp add: os_ok_def list_ok_def byte_def)
  ultimately have ok: "os_ok ?os'" using k(1,2) by (simp add: os_ok_def os_shape_def)
  have "content env ?os' p = ((content env os)(eval env x := eval env v)) p" for env p
    using content_flushed [OF ok, of env p] content_flushed [OF k(1), of env p] os1(3) k(2,3)
    by (simp add: only_listed_def) (simp add: listed_def)
  with run ok k(2) os1(2) show ?thesis by (auto simp: kept_def fun_eq_iff)
qed

lemma offset_plus_runs:
  assumes "symbolic_offset x" and "int k < 2 ^ 32" and "\<not> constArrayOpt cfg"
  shows "\<exists>x'. offset_plus cfg x k = Inr x' \<and> symbolic_offset x' \<and> (\<forall>env. eval env x' = take_bit 32 (eval env x + int k))"
proof -
  have x: "welltyped x" "getWidth x = 32" "varies x" using assms(1) by (simp_all add: symbolic_offset_def)
  have k: "welltyped (ConstantExpr 32 (int k))" using assms(2) by (simp add: in_width_def)
  obtain x' where x': "offset_plus cfg x k = Inr x'" "welltyped x'" "getWidth x' = 32"
    "\<And>env. eval env x' = take_bit 32 (eval env x + int k)"
    using create_AddExpr_SubExpr_computes [OF x(1) k x(2)] assms(3) by (auto simp: sums_def computes_def offset_plus_def)
  have "take_bit 32 (a + c) = take_bit 32 (b + c) \<Longrightarrow> in_width 32 a \<Longrightarrow> in_width 32 b \<Longrightarrow> a = b" for a b c :: int
    by (metis add_diff_cancel_right' take_bit_diff take_bit_in_width)
  then have "varies x'" using x(3) x'(4) eval_in_width [OF x(1)] x(2) unfolding varies_def by metis
  with x' show ?thesis by (auto simp: symbolic_offset_def)
qed

end
