(* ===== verification/Object_Access.thy ===== *)
theory Object_Access
  imports Object_Correct
begin

text \<open>
  The accesses of \<open>ObjectState\<close> to several bytes implement \<open>load\<close> and \<open>store\<close>, at constant and at symbolic
  offsets; every state that the constructors and the operations reach satisfies the invariant.
\<close>

section \<open>Both kinds of offset meet the contract\<close>

text \<open>The option \<open>const-array-opt\<close> is off, as it is by default.\<close>

abbreviation config :: "bool \<Rightarrow> nat \<Rightarrow> nat \<Rightarrow> access_config" where
  "config little address counter \<equiv>
     \<lparr>isLittleEndian = little, constArrayOpt = False, new_address = address, const_arr_id = counter\<rparr>"

lemma uint_plus: "uint (x + of_nat k :: uint) = take_bit 32 (uint x + int k)"
  by (simp add: uint_word_ariths take_bit_eq_mod unsigned_of_nat zmod_int mod_simps)

lemma unat_plus_below:
  "unat (x :: uint) + k < unat (n :: uint) \<Longrightarrow> unat (x + of_nat k) = unat x + k"
proof -
  assume "unat x + k < unat n"
  moreover have "unat n < 2 ^ 32" using unsigned_less [of n] by simp
  ultimately show ?thesis by (simp add: unat_word_ariths unat_of_nat)
qed

interpretation cs: byte_store readable content os_size "\<lambda>x env. uint x" "\<lambda>n x. unat x < unat n"
    "\<lambda>n x m. unat x + m \<le> unat n" "\<lambda>x k. Inr (x + of_nat k)" "read8 (config little address counter)" write8_expr
  for little address counter
proof unfold_locales
  fix n x :: uint and m k :: nat
  assume "unat x + m \<le> unat n" "k < m"
  then have "unat (x + of_nat k) = unat x + k" by (intro unat_plus_below [of x k n]) simp
  with \<open>unat x + m \<le> unat n\<close> \<open>k < m\<close>
  show "\<exists>x'. Inr (x + of_nat k) = Inr x' \<and> unat x' < unat n \<and> (\<forall>env :: env. uint x' = take_bit 32 (uint x + int k))"
    by (simp add: uint_plus)
next
  fix os and x :: uint assume "readable os" "unat x < nbytes os"
  with read8_runs [OF this, of "config little address counter"]
  show "\<exists>os' e. read8 (config little address counter) x os = Inr (os', e) \<and> readable os' \<and> os_size os' = os_size os \<and>
      (\<forall>env. content env os' = content env os) \<and> byte e \<and> (\<forall>env. eval env e = content env os (uint x))" by auto
next
  fix os and x :: uint and e assume os: "readable os" and x: "unat x < nbytes os" and e: "byte e"
  then have "os_ok os" by (simp add: readable_def)
  from write8_expr_runs [OF this x e] obtain os' where os': "write8_expr x e os = Inr os'" "os_ok os'" "same_list os os'"
    "conc os' (unat x) \<or> known os' (unat x) \<noteq> None" "\<forall>i<nbytes os. i \<noteq> unat x \<longrightarrow> same_byte os os' i"
    "\<forall>env. content env os' = (content env os)(uint x := eval env e)" by blast
  have "conc os' i \<or> known os' i \<noteq> None" if "i < nbytes os" "all_cached os" for i
    using that os'(4,5) by (cases "i = unat x") (auto simp: all_cached_def same_byte_def)
  then have "readable os'" using os os'(2,3) by (auto simp: readable_def all_cached_def same_list_def)
  with os' show "\<exists>os'. write8_expr x e os = Inr os' \<and> readable os' \<and> os_size os' = os_size os \<and>
      (\<forall>env. content env os' = (content env os)(uint x := eval env e))" by (auto simp: same_list_def)
qed

definition rooted :: "object_state \<Rightarrow> bool" where
  "rooted os \<longleftrightarrow> os_ok os \<and> upd_root os \<noteq> None"

interpretation sy: byte_store rooted content os_size "\<lambda>x env. eval env x" "\<lambda>n x. symbolic_offset x"
    "\<lambda>n x m. symbolic_offset x \<and> m \<le> 2 ^ 32" "offset_plus (config little address counter)"
    "read8_symbolic (config little address counter)" write8_symbolic
  for little address counter
proof unfold_locales
  fix x and m k :: nat
  assume "symbolic_offset x \<and> m \<le> 2 ^ 32" "k < m"
  then show "\<exists>x'. offset_plus (config little address counter) x k = Inr x' \<and> symbolic_offset x' \<and>
      (\<forall>env. eval env x' = take_bit 32 (eval env x + int k))" by (intro offset_plus_runs) auto
next
  fix os x assume "rooted os" "symbolic_offset x"
  with read8_symbolic_runs [of os x "config little address counter"]
  show "\<exists>os' e. read8_symbolic (config little address counter) x os = Inr (os', e) \<and> rooted os' \<and>
      os_size os' = os_size os \<and> (\<forall>env. content env os' = content env os) \<and> byte e \<and>
      (\<forall>env. eval env e = content env os (eval env x))" by (fastforce simp: rooted_def kept_def)
next
  fix os x e assume "rooted os" "symbolic_offset x" "byte e"
  with write8_symbolic_runs [of os x e]
  show "\<exists>os'. write8_symbolic x e os = Inr os' \<and> rooted os' \<and> os_size os' = os_size os \<and>
      (\<forall>env. content env os' = (content env os)(eval env x := eval env e))" by (fastforce simp: rooted_def)
qed

section \<open>Constructors\<close>

definition size_ok :: "uint \<Rightarrow> bool" where
  "size_ok n \<longleftrightarrow> unat n + 31 < 2 ^ 32"

definition byte_array :: "array \<Rightarrow> bool" where
  "byte_array a \<longleftrightarrow> array_ok a \<and> ar_domain a = 32 \<and> ar_range a = 8"

lemma zero_array_ok: "array_ok (Array k nm n (replicate n 0) 32 8)"
  by (auto simp: array_ok_def isSymbolicArray_def)

lemma blank_state_ok:
  assumes "size_ok n" and "\<And>a. root = Some a \<Longrightarrow> byte_array a"
  shows "os_ok (blank_state n root)"
  using assms zero_array_ok
  by (cases root)
    (auto simp: os_ok_def os_shape_def list_ok_def byte_ok_def blank_state_def root_array_def mask_ok_def known_ok_def
      conc_in_def flushed_in_def known_in_def size_ok_def byte_array_def)

lemma new_Array_plain:
  "new_Array k nm n isFloat [] None None = Inr (Array k nm (unat n) [] 32 8)" "byte_array (Array k nm (unat n) [] 32 8)"
  by (simp_all add: new_Array_def pointer_range_def byte_array_def array_ok_def isSymbolicArray_def)

lemma ObjectState_concrete_ok:
  assumes "size_ok n"
  shows "\<exists>os. ObjectState_concrete use address counter n = Inr os \<and> readable os \<and> os_size os = n \<and>
    (\<forall>env p. 0 \<le> p \<and> p < uint n \<longrightarrow> content env os p = 0)"
proof -
  have *: "readable (blank_state n root)" if "\<And>a. root = Some a \<Longrightarrow> byte_array a" for root
    using blank_state_ok [OF assms that] by (simp add: readable_def all_cached_def blank_state_def conc_in_def)
  have c: "content env (blank_state n root) p = 0" if "0 \<le> p" "p < uint n" for env root p
    using that nat_less_unat [of p n] by (simp add: content_def cached_def blank_state_def conc_in_def)
  show ?thesis
  proof (cases use)
    case True
    with * [of None] c show ?thesis by (simp add: ObjectState_concrete_def blank_state_def)
  next
    case False
    let ?a = "Array address (''tmp_arr'' @ dec_of_nat (counter + 1)) (unat n) [] 32 8"
    have "ObjectState_concrete use address counter n = Inr (blank_state n (Some ?a))"
      using False new_Array_plain(1) by (simp add: ObjectState_concrete_def)
    with * [of "Some ?a"] c new_Array_plain(2) show ?thesis by (auto simp: blank_state_def)
  qed
qed

lemma markByteFlushed_runs:
  assumes "os_shape os" and "unat x < nbytes os"
  obtains b where "markByteFlushed x os = Inr (os\<lparr>flushMask := Some b\<rparr>)" "ba_ok (nbytes os) b"
    "flushed_in (Some b) (unat x)" "\<And>i. i < nbytes os \<Longrightarrow> flushed os i \<Longrightarrow> flushed_in (Some b) i"
proof (cases "flushMask os")
  case None
  have lt: "nbytes os + 31 < 2 ^ 32" using assms(1) by (simp add: os_shape_def)
  show ?thesis
    using that [of "BitArray (os_size os) False"] None assms(2) BitArray_ok [OF lt, where v = False]
    by (simp add: markByteFlushed_def flushed_in_def)
next
  case (Some b)
  with assms ba.unset_runs [of "nbytes os" b x] obtain b' where "ba_unset b x = Inr b'" "ba_ok (nbytes os) b'"
    "\<And>j. ba_bit b' j \<longleftrightarrow> j \<noteq> unat x \<and> ba_bit b j" by (auto simp: os_shape_def mask_ok_def)
  with Some that [of b'] show ?thesis by (simp add: markByteFlushed_def flushed_in_def)
qed

lemma makeSymbolic_byte_runs:
  assumes "os_shape os" and x: "unat x < nbytes os"
  shows "\<exists>os'. makeSymbolic_byte x os = Inr os' \<and> os_shape os' \<and> same_list os os' \<and> only_listed os' (unat x) \<and>
    (\<forall>i<nbytes os. only_listed os i \<longrightarrow> only_listed os' i)"
proof -
  obtain cm where cm: "markByteSymbolic x os = Inr (os\<lparr>concreteMask := Some cm\<rparr>)" "ba_ok (nbytes os) cm"
    "\<And>i. i < nbytes os \<Longrightarrow> ba_bit cm i \<longleftrightarrow> i \<noteq> unat x \<and> conc os i" using markByteSymbolic_runs [OF assms] by metis
  let ?os1 = "os\<lparr>concreteMask := Some cm\<rparr>"
  have "os_shape ?os1" "unat x < nbytes ?os1" using assms cm(2) by (simp_all add: os_shape_def mask_ok_def)
  then obtain ks where ks: "setKnownSymbolic x None ?os1 = Inr (?os1\<lparr>knownSymbolics := ks\<rparr>)" "known_ok (nbytes os) ks"
    "\<And>i. i < nbytes os \<Longrightarrow> known_in ks i = (if i = unat x then None else known os i)"
    by (rule setKnownSymbolic_runs [where v = None]) auto
  let ?os2 = "?os1\<lparr>knownSymbolics := ks\<rparr>"
  have "os_shape ?os2" "unat x < nbytes ?os2" using assms cm(2) ks(2) by (simp_all add: os_shape_def mask_ok_def)
  then obtain b where b: "markByteFlushed x ?os2 = Inr (?os2\<lparr>flushMask := Some b\<rparr>)" "ba_ok (nbytes os) b"
    "flushed_in (Some b) (unat x)" "\<And>i. i < nbytes os \<Longrightarrow> flushed os i \<Longrightarrow> flushed_in (Some b) i"
    by (rule markByteFlushed_runs) auto
  let ?os' = "?os2\<lparr>flushMask := Some b\<rparr>"
  have "makeSymbolic_byte x os = Inr ?os'" using cm(1) ks(1) b(1) by (simp add: makeSymbolic_byte_def)
  moreover have "os_shape ?os'" "same_list os ?os'"
    using assms(1) cm(2) ks(2) b(2) by (simp_all add: os_shape_def mask_ok_def same_list_def)
  moreover have "only_listed ?os' (unat x)" using cm(3) [OF x] ks(3) [OF x] b(3) by (simp add: only_listed_def conc_in_def)
  moreover have "only_listed ?os' i" if "i < nbytes os" "only_listed os i" for i
    using that cm(3) [OF that(1)] ks(3) [OF that(1)] b(4) [OF that(1)] by (auto simp: only_listed_def conc_in_def)
  ultimately show ?thesis by blast
qed

lemma makeSymbolic_runs:
  assumes "os_shape os" and "upd_head os = No_Update"
  shows "\<exists>os'. makeSymbolic os = Inr os' \<and> os_shape os' \<and> same_list os os' \<and> (\<forall>i<nbytes os. only_listed os' i)"
proof -
  let ?I = "\<lambda>os'. os_shape os' \<and> same_list os os'" and ?Q = "\<lambda>x os'. unat (x :: uint) < nbytes os \<and> only_listed os' (unat x)"
  have step: "\<exists>os''. makeSymbolic_byte x os' = Inr os'' \<and> ?I os'' \<and> ?Q x os'' \<and> (\<forall>y. ?Q y os' \<longrightarrow> ?Q y os'')"
    if x: "x \<in> set (offsets 0 (os_size os))" and I: "?I os'" for x os'
    using makeSymbolic_byte_runs [of os' x] x I by (auto simp: offsets_0 same_list_def)
  have init: "?I os" using assms(1) by (simp add: same_list_def)
  obtain os' where "fold_outcome makeSymbolic_byte (offsets 0 (os_size os)) os = Inr os'" "?I os'"
    "\<forall>x\<in>set (offsets 0 (os_size os)). ?Q x os'"
    using fold_outcome_each [where I = ?I and Q = ?Q, OF step init] by blast
  moreover have "only_listed os' i" if "i < nbytes os" for i
  proof -
    have "unat (of_nat i :: uint) = i" using that by (rule unat_of_nat_below)
    with calculation(3) that show ?thesis by (metis offsets_0)
  qed
  ultimately show ?thesis using assms(2) by (auto simp: makeSymbolic_def)
qed

lemma ObjectState_symbolic_ok:
  assumes "size_ok n" and "byte_array a"
  shows "\<exists>os. ObjectState_symbolic n a = Inr os \<and> rooted os \<and> os_size os = n \<and>
    (\<forall>env. content env os = initial_value env a)"
proof -
  let ?b = "blank_state n (Some a)"
  have b: "os_ok ?b" using blank_state_ok [OF assms(1), of "Some a"] assms(2) by simp
  have s: "os_size ?b = n" "upd_root ?b = Some a" "upd_head ?b = No_Update" by (simp_all add: blank_state_def)
  obtain os1 where os1: "makeSymbolic ?b = Inr os1" "os_shape os1" "same_list ?b os1" "\<forall>i<unat n. only_listed os1 i"
    using makeSymbolic_runs [OF os_ok_shape [OF b] s(3)] s(1) by auto
  let ?os = "os1\<lparr>concreteStore := replicate (unat n) 0\<rparr>"
  have eq: "os_size os1 = n" "upd_root os1 = Some a" "upd_head os1 = No_Update" using os1(3) s by (simp_all add: same_list_def)
  have root: "root_array ?os = a" using eq(2) by (simp add: root_array_def)
  have "cached env ?os i = listed env ?os (int i)" if "i < unat n" for env i
    using os1(4) that by (simp add: cached_def only_listed_def)
  moreover have "known ?os i = None" "flushed ?os i" if "i < unat n" for i using os1(4) that by (simp_all add: only_listed_def)
  ultimately have "byte_ok ?os i" if "i < unat n" for i using that by (simp add: byte_ok_def)
  moreover have "list_ok ?os" using assms(2) eq root by (simp add: list_ok_def byte_array_def)
  moreover have "os_shape ?os" using os1(2) eq(1) by (simp add: os_shape_def)
  ultimately have ok: "os_ok ?os" using eq(1) by (simp add: os_ok_def)
  moreover have "content env ?os = initial_value env a" for env
    using content_flushed [OF ok] os1(4) eq root by (auto simp: only_listed_def listed_def)
  ultimately show ?thesis using os1(1) eq by (auto simp: ObjectState_symbolic_def rooted_def)
qed

section \<open>Reads\<close>

lemma getUpdates_without_root: "upd_root os = None \<Longrightarrow> getUpdates cfg os \<noteq> Inr os'"
  by (auto simp: getUpdates_def outcome_simps new_Array_def pointer_range_def)

lemma read8_keeps_state: "read8 cfg x os = Inr (os', e) \<Longrightarrow> os' = os"
  using getUpdates_without_root [of os cfg] getUpdates_root [of os _ cfg]
  by (cases "upd_root os") (auto simp: read8_def read_array_def outcome_simps split: if_splits)

lemma read_loop_keeps_state:
  "(\<And>k s s' e. rd k s = Inr (s', e) \<Longrightarrow> s' = s) \<Longrightarrow> read_loop rd ks r s = Inr (s', r') \<Longrightarrow> s' = s"
  by (induction ks arbitrary: r s) (force simp: outcome_simps)+

lemma read_const_keeps_state: "read_const cfg x w os = Inr (os', r) \<Longrightarrow> os' = os"
proof (cases "w = Bool")
  case True
  assume "read_const cfg x w os = Inr (os', r)"
  with True show ?thesis by (auto simp: read_const_def read_bool_def outcome_simps dest: read8_keeps_state)
next
  case False
  assume "read_const cfg x w os = Inr (os', r)"
  with False have "read_loop (\<lambda>idx. read8 cfg (x + of_nat idx)) (map (byte_index (isLittleEndian cfg) (w div 8)) [0..<w div 8]) None os
      = Inr (os', r)" by (simp add: read_const_def Let_def outcome_simps)
  then show ?thesis by (rule read_loop_keeps_state [rotated]) (rule read8_keeps_state)
qed

lemma read_const_refines:
  assumes "readable os" and "unat x + n \<le> nbytes os" and "0 < n"
  shows "\<exists>e. read_const (config little address counter) x (8 * n) os = Inr (os, Some e) \<and> welltyped e \<and> getWidth e = 8 * n \<and>
    (\<forall>env. eval env e = load little n (uint x) (content env os))"
proof -
  obtain os' e where r: "read_loop (\<lambda>k. read8 (config little address counter) (x + of_nat k)) (map (byte_index little n) [0..<n]) None os
      = Inr (os', Some e)" "welltyped e" "getWidth e = 8 * n" "\<forall>env. eval env e = load little n (uint x) (content env os)"
    using cs.read_refines [OF assms, of little address counter little] by auto
  then have "read_const (config little address counter) x (8 * n) os = Inr (os', Some e)"
    using assms(3) by (simp add: read_const_def)
  moreover from read_const_keeps_state [OF this] have "os' = os" .
  ultimately show ?thesis using r(2-4) by auto
qed

lemma read_bool_value:
  assumes "byte b"
  shows "\<exists>e. read_bool (Inr (os, b)) = Inr (os, Some e) \<and> welltyped e \<and> getWidth e = 1 \<and> (\<forall>env. eval env e = take_bit 1 (eval env b))"
  using create_ExtractExpr_computes [of b 1 0] assms by (auto simp: read_bool_def computes_def byte_def)

lemma read_const_bool:
  assumes "readable os" and "unat x < nbytes os"
  shows "\<exists>e. read_const (config little address counter) x 1 os = Inr (os, Some e) \<and> welltyped e \<and> getWidth e = 1 \<and>
    (\<forall>env. eval env e = take_bit 1 (content env os (uint x)))"
proof -
  obtain b where "read8 (config little address counter) x os = Inr (os, b)" "byte b" "\<forall>env. eval env b = content env os (uint x)"
    using read8_runs [OF assms, of "config little address counter"] by auto
  with read_bool_value [of b os] show ?thesis by (auto simp: read_const_def)
qed

text \<open>An offset of any width that still depends on the assignment when it is truncated to 32 bits.\<close>

definition truncated_offset :: "expr \<Rightarrow> bool" where
  "truncated_offset off \<longleftrightarrow> welltyped off \<and> (\<exists>env env'. take_bit 32 (eval env off) \<noteq> take_bit 32 (eval env' off))"

lemma truncated_offset_runs:
  assumes "truncated_offset off"
  shows "\<exists>x. create_ZExtExpr off 32 = Inr x \<and> symbolic_offset x \<and> \<not> isConstant x \<and>
    (\<forall>env. eval env x = take_bit 32 (eval env off))"
proof -
  obtain x where x: "create_ZExtExpr off 32 = Inr x" "welltyped x" "getWidth x = 32" "\<And>env. eval env x = take_bit 32 (eval env off)"
    using create_ZExtExpr_computes [of off 32] assms by (auto simp: truncated_offset_def computes_def)
  with assms have "varies x" by (auto simp: truncated_offset_def varies_def)
  with x show ?thesis using varies_not_constant by (auto simp: symbolic_offset_def)
qed

lemma read_expr_symbolic:
  assumes "\<not> isConstant x" and "create_ZExtExpr off 32 = Inr x" and "w = 8 * n"
  shows "read_expr cfg off w os =
    read_loop (\<lambda>idx os. bind_outcome (offset_plus cfg x idx) (\<lambda>o'. read8_symbolic cfg o' os))
      (map (byte_index (isLittleEndian cfg) n) [0..<n]) None os"
  using assms by (cases x) (simp_all add: read_expr_def)

lemma read_expr_refines:
  assumes "rooted os" and "truncated_offset off" and "0 < n" and "n \<le> 2 ^ 32"
  shows "\<exists>os' e. read_expr (config little address counter) off (8 * n) os = Inr (os', Some e) \<and> rooted os' \<and>
    os_size os' = os_size os \<and> (\<forall>env. content env os' = content env os) \<and> welltyped e \<and> getWidth e = 8 * n \<and>
    (\<forall>env. eval env e = load little n (take_bit 32 (eval env off)) (content env os))"
proof -
  obtain x where x: "create_ZExtExpr off 32 = Inr x" "symbolic_offset x" "\<not> isConstant x" "\<And>env. eval env x = take_bit 32 (eval env off)"
    using truncated_offset_runs [OF assms(2)] by blast
  obtain os' e where "read_loop (\<lambda>k os. bind_outcome (offset_plus (config little address counter) x k)
      (\<lambda>o'. read8_symbolic (config little address counter) o' os)) (map (byte_index little n) [0..<n]) None os = Inr (os', Some e)"
    "sy.same os os'" "welltyped e" "getWidth e = 8 * n" "\<forall>env. eval env e = load little n (eval env x) (content env os)"
    using sy.read_refines [OF assms(1) _ assms(3), of x little address counter little] x(2) assms(4) by auto
  then show ?thesis using read_expr_symbolic [OF x(3,1) refl, of "config little address counter" n os] x(4) by (auto simp: sy.same_def)
qed

section \<open>Writes\<close>

text \<open>The bytes that \<open>write16\<close>, \<open>write32\<close> and \<open>write64\<close> shift out are those of the general loop.\<close>

lemma extract_constant_byte:
  assumes "in_width w c" and "8 * i + 8 \<le> w"
  shows "create_ExtractExpr (ConstantExpr w c) (8 * i) 8 = Inr (ConstantExpr 8 (byte_at c i))"
proof (cases "w = 8")
  case True
  with assms show ?thesis by (simp add: create_ExtractExpr.simps byte_at_def take_bit_in_width)
next
  case False
  have "take_bit 8 (take_bit w (drop_bit (8 * i) (signed_value w c))) = byte_at c i"
    using take_drop_signed [of "8 * i" 8 w c] assms(2) by (simp add: byte_at_def take_bit_take_bit min_def)
  with assms False show ?thesis by (simp add: create_ExtractExpr.simps const_Extract_def)
qed

lemma shifted_byte:
  assumes "8 * i + 8 \<le> LENGTH('w::len)"
  shows "(ucast (drop_bit (8 * i) (of_int c :: 'w word)) :: 8 word) = of_int (byte_at c i)"
  using assms
  by (intro bit_word_eqI) (auto simp: byte_at_def bit_unsigned_iff bit_drop_bit_eq bit_word_of_int_iff bit_take_bit_iff)

lemma write_word_slow:
  assumes "in_width w c" and "8 * n \<le> w" and "8 * n \<le> LENGTH('w::len)"
  shows "write_word little n x (of_int c :: 'w word) os =
    write_loop (\<lambda>idx. write8_expr (x + of_nat idx)) little (ConstantExpr w c) n os"
proof -
  have "8 * i + 8 \<le> w" "8 * i + 8 \<le> LENGTH('w)" if "i < n" for i using that assms(2,3) by linarith+
  then show ?thesis
    unfolding write_word_def write_loop_def
    by (intro fold_outcome_cong refl)
      (auto simp: extract_constant_byte [OF assms(1)] shifted_byte write8_expr_def)
qed

lemma write_const_slow:
  assumes "welltyped v" and "getWidth v = 8 * n" and "0 < n" and "isConstant v \<longrightarrow> n \<in> {1, 2, 4, 8} \<or> 8 < n"
  shows "write_const cfg x v os = write_loop (\<lambda>idx. write8_expr (x + of_nat idx)) (isLittleEndian cfg) v n os"
proof -
  have slow: "write_slow cfg x v os = write_loop (\<lambda>idx. write8_expr (x + of_nat idx)) (isLittleEndian cfg) v n os"
    using assms(2,3) by (simp add: write_slow_def)
  show ?thesis
  proof (cases "isConstant v \<and> n \<le> 8")
    case True
    then obtain c where v: "v = ConstantExpr (8 * n) c" "in_width (8 * n) c" using assms(1,2) by (cases v) auto
    have n: "n = 1 \<or> n = 2 \<or> n = 4 \<or> n = 8" using True assms(4) by auto
    have one: "write8 x (of_int c) os = write_loop (\<lambda>idx. write8_expr (x + of_nat idx)) (isLittleEndian cfg) (ConstantExpr 8 c) 1 os"
      if "in_width 8 c"
      using that extract_constant_byte [of 8 c 0]
      by (simp add: write_loop_def write8_expr_def byte_index_def byte_at_def take_bit_in_width bind_outcome_def split: sum.split)
    from n v show ?thesis
      using write_word_slow [of 16 c 2, where 'w = 16] write_word_slow [of 32 c 4, where 'w = 32]
        write_word_slow [of 64 c 8, where 'w = 64] one
      by (auto simp: write_const_def write_small_def write16_def write32_def write64_def)
  next
    case False
    with assms(2) slow show ?thesis by (cases v) (auto simp: write_const_def)
  qed
qed

lemma write_const_refines:
  assumes "readable os" and "unat x + n \<le> nbytes os" and "0 < n" and "welltyped v" and "getWidth v = 8 * n"
    and "isConstant v \<longrightarrow> n \<in> {1, 2, 4, 8} \<or> 8 < n"
  shows "\<exists>os'. write_const (config little address counter) x v os = Inr os' \<and> readable os' \<and> os_size os' = os_size os \<and>
    (\<forall>env. content env os' = store little n (uint x) (eval env v) (content env os))"
  using cs.write_refines [OF assms(1,2,4,5), of little] write_const_slow [OF assms(4,5,3,6), of "config little address counter" x os]
  by simp

lemma write_const_bool:
  assumes "readable os" and "unat x < nbytes os" and "welltyped v" and "getWidth v = 1"
  shows "\<exists>os'. write_const (config little address counter) x v os = Inr os' \<and> readable os' \<and> os_size os' = os_size os \<and>
    (\<forall>env. content env os' = (content env os)(uint x := eval env v))"
proof -
  have "in_width 8 (eval env v)" for env
    using eval_in_width [OF assms(3), of env] assms(4) by (simp add: in_width_mono [of "Suc 0" _ 8])
  then obtain b where b: "create_ZExtExpr v 8 = Inr b" "byte b" "\<And>env. eval env b = eval env v"
    using create_ZExtExpr_computes [OF assms(3), of 8] by (auto simp: computes_def byte_def take_bit_in_width)
  have "write_const (config little address counter) x v os = write8_expr x b os"
  proof (cases "isConstant v")
    case True
    then obtain c where v: "v = ConstantExpr 1 c" "in_width 1 c" using assms(3,4) by (cases v) auto
    then have "in_width 8 c" using in_width_mono [of 1 c 8] by simp
    with v b(1) show ?thesis
      by (auto simp: write_const_def write_small_def create_ZExtExpr_def const_ZExt_def take_bit_in_width write8_expr_def)
  next
    case False
    with assms(4) b(1) show ?thesis by (cases v) (auto simp: write_const_def write_slow_def)
  qed
  with cs.wr_runs [OF assms(1,2) b(2)] b(3) show ?thesis by simp
qed

lemma write_expr_symbolic:
  assumes "\<not> isConstant x" and "create_ZExtExpr off 32 = Inr x" and "getWidth v = 8 * n" and "0 < n"
  shows "write_expr cfg off v os =
    write_loop (\<lambda>idx b os. bind_outcome (offset_plus cfg x idx) (\<lambda>o'. write8_symbolic o' b os)) (isLittleEndian cfg) v n os"
  using assms by (cases x) (simp_all add: write_expr_def)

lemma write_expr_refines:
  assumes "rooted os" and "truncated_offset off" and "0 < n" and "n \<le> 2 ^ 32" and "welltyped v" and "getWidth v = 8 * n"
  shows "\<exists>os'. write_expr (config little address counter) off v os = Inr os' \<and> rooted os' \<and> os_size os' = os_size os \<and>
    (\<forall>env. content env os' = store little n (take_bit 32 (eval env off)) (eval env v) (content env os))"
proof -
  obtain x where x: "create_ZExtExpr off 32 = Inr x" "symbolic_offset x" "\<not> isConstant x" "\<And>env. eval env x = take_bit 32 (eval env off)"
    using truncated_offset_runs [OF assms(2)] by blast
  then show ?thesis
    using sy.write_refines [OF assms(1) _ assms(5,6), of x little address counter little] assms(4)
      write_expr_symbolic [OF x(3,1) assms(6,3), of "config little address counter" os] by simp
qed

end
