(* ===== verification/Object_Memory.thy ===== *)
theory Object_Memory
  imports Object_Access
begin

text \<open>
  The states an object can reach, the properties of \<open>ObjectState\<close> as a byte memory, and the bounds checks of
  \<open>MemoryObject\<close> (\<^verbatim>\<open>src/lib/Core/Memory.h\<close>).
\<close>

section \<open>Operations on the whole object\<close>

lemma fill_ok:
  fixes v :: "8 word"
  assumes "os_ok os"
  defines "os' \<equiv> (makeConcrete os)\<lparr>concreteStore := replicate (nbytes os) v\<rparr>"
  shows "os_ok os'" and "readable os'" and "0 \<le> p \<Longrightarrow> p < uint (os_size os) \<Longrightarrow> content env os' p = uint v"
proof -
  have root: "root_array os' = root_array os" by (simp add: os'_def makeConcrete_def root_array_def split: option.split)
  show ok: "os_ok os'"
    using assms(1) root
    by (simp add: os_ok_def os_shape_def list_ok_def byte_ok_def)
      (simp add: os'_def makeConcrete_def mask_ok_def known_ok_def conc_in_def flushed_in_def known_in_def)
  then show "readable os'" by (simp add: readable_def all_cached_def os'_def makeConcrete_def conc_in_def)
  assume "0 \<le> p" "p < uint (os_size os)"
  then show "content env os' p = uint v"
    using nat_less_unat [of p "os_size os"] by (simp add: content_def cached_def os'_def makeConcrete_def conc_in_def)
qed

lemma copied_mask:
  assumes "nbytes os + 31 < 2 ^ 32" and "mask_ok (nbytes os) m"
  shows "mask_ok (nbytes os) (map_option (take (unat (ba_length (os_size os)))) m)"
    and "i < nbytes os \<Longrightarrow> conc_in (map_option (take (unat (ba_length (os_size os)))) m) i = conc_in m i"
    and "i < nbytes os \<Longrightarrow> flushed_in (map_option (take (unat (ba_length (os_size os)))) m) i = flushed_in m i"
proof -
  have "unat (os_size os + 31) = nbytes os + 31" using assms(1) by (simp add: unat_word_ariths)
  then have len: "unat (ba_length (os_size os)) = (nbytes os + 31) div 32" by (simp add: ba_length_def unat_div)
  then show "mask_ok (nbytes os) (map_option (take (unat (ba_length (os_size os)))) m)"
    using assms(2) by (auto simp: mask_ok_def ba_ok_def min_def split: option.splits)
  assume i: "i < nbytes os"
  then have "i div 32 < (nbytes os + 31) div 32" by linarith
  then show "conc_in (map_option (take (unat (ba_length (os_size os)))) m) i = conc_in m i"
    and "flushed_in (map_option (take (unat (ba_length (os_size os)))) m) i = flushed_in m i"
    using len by (simp_all add: conc_in_def flushed_in_def ba_bit_def split: option.split)
qed

lemma ObjectState_copy_ok:
  assumes "os_ok os" and "\<not> readOnly os"
  shows "\<exists>os'. ObjectState_copy os = Inr os' \<and> os_ok os' \<and> os_size os' = os_size os \<and> upd_root os' = upd_root os \<and>
    os_isTaint os' = os_isTaint os \<and> (\<forall>env. content env os' = content env os)"
proof -
  let ?cut = "map_option (take (unat (ba_length (os_size os))))"
  let ?os' = "os\<lparr>concreteMask := ?cut (concreteMask os), flushMask := ?cut (flushMask os), readOnly := False\<rparr>"
  have sh: "nbytes os + 31 < 2 ^ 32" "mask_ok (nbytes os) (concreteMask os)" "mask_ok (nbytes os) (flushMask os)"
    using assms(1) by (simp_all add: os_ok_def os_shape_def)
  note c = copied_mask [OF sh(1,2)] and f = copied_mask [OF sh(1,3)]
  have l: "same_list os ?os'" by (simp add: same_list_def)
  have same: "same_byte os ?os' i" if "i < nbytes os" for i
    using c(2) [OF that] f(3) [OF that] by (simp add: same_byte_def)
  have "byte_ok ?os' i" if "i < nbytes os" for i
    using same_byte_ok [OF l same [OF that]] assms(1) that by (simp add: os_ok_def)
  moreover have "list_ok ?os'"
    using assms(1) same_list_listed [OF l] by (simp add: os_ok_def list_ok_def)
  moreover have "os_shape ?os'" using assms(1) c(1) f(1) by (simp add: os_ok_def os_shape_def)
  ultimately have "os_ok ?os'" by (simp add: os_ok_def)
  moreover have "content env ?os' = content env os" for env
    using same_byte_cached [OF l same] same_list_listed [OF l] by (auto simp: content_def fun_eq_iff nat_less_unat)
  ultimately show ?thesis using assms(2) by (auto simp: ObjectState_copy_def)
qed

lemma same_state_ok:
  assumes l: "same_list os os'" and same: "\<And>i. same_byte os os' i" and "os_shape os' = os_shape os"
  shows "os_ok os' = os_ok os"
proof -
  have "byte_ok os' i = byte_ok os i" for i using same_byte_ok [OF l same] .
  moreover have "list_ok os' = list_ok os"
    using same_list_listed [OF l] l by (simp add: list_ok_def same_list_def)
  moreover have "nbytes os' = nbytes os" using l by (simp add: same_list_def)
  ultimately show ?thesis using assms(3) by (simp add: os_ok_def)
qed

lemma flags_ok: "os_ok (os\<lparr>readOnly := ro\<rparr>) = os_ok os" "os_ok (os\<lparr>os_isTaint := ta\<rparr>) = os_ok os"
  by (rule same_state_ok; simp add: same_list_def same_byte_def os_shape_def)+


section \<open>Reachable states\<close>

text \<open>
  The accesses are those the interpreter makes after its bounds check: a constant offset inside the
  object, or an offset that depends on the input. The written values have the widths \<open>write\<close> accepts.
\<close>

definition writable :: "expr \<Rightarrow> nat \<Rightarrow> bool" where
  "writable v n \<longleftrightarrow> welltyped v \<and> getWidth v = 8 * n \<and> 0 < n \<and> n \<le> 2 ^ 32 \<and>
     (isConstant v \<longrightarrow> n \<in> {1, 2, 4, 8} \<or> 8 < n)"

inductive os_reach :: "object_state \<Rightarrow> bool" where
  new_concrete: "size_ok n \<Longrightarrow> ObjectState_concrete use address counter n = Inr os \<Longrightarrow> os_reach os"
| new_symbolic: "size_ok n \<Longrightarrow> byte_array a \<Longrightarrow> ObjectState_symbolic n a = Inr os \<Longrightarrow> os_reach os"
| copy: "os_reach os \<Longrightarrow> ObjectState_copy os = Inr os' \<Longrightarrow> os_reach os'"
| zero: "os_reach os \<Longrightarrow> os_reach (initializeToZero os)"
| random: "os_reach os \<Longrightarrow> os_reach (initializeToRandom os)"
| read_only: "os_reach os \<Longrightarrow> os_reach (setReadOnly ro os)"
| taint: "os_reach os \<Longrightarrow> os_reach (insertTaint t os)"
| untaint: "os_reach os \<Longrightarrow> os_reach (eraseTaint t os)"
| read_at: "os_reach os \<Longrightarrow> read_const cfg x w os = Inr (os', r) \<Longrightarrow> os_reach os'"
| read_symbolic: "os_reach os \<Longrightarrow> truncated_offset off \<Longrightarrow> 0 < n \<Longrightarrow> n \<le> 2 ^ 32 \<Longrightarrow>
    read_expr (config little address counter) off (8 * n) os = Inr (os', r) \<Longrightarrow> os_reach os'"
| write_at: "os_reach os \<Longrightarrow> writable v n \<Longrightarrow> unat x + n \<le> nbytes os \<Longrightarrow>
    write_const cfg x v os = Inr os' \<Longrightarrow> os_reach os'"
| write_symbolic: "os_reach os \<Longrightarrow> writable v n \<Longrightarrow> truncated_offset off \<Longrightarrow>
    write_expr (config little address counter) off v os = Inr os' \<Longrightarrow> os_reach os'"

lemma write_loop_invariant:
  assumes "write_loop wr little v n os = Inr os'" and "P os" and "welltyped v" and "getWidth v = 8 * n"
    and "\<And>i b os os'. i < n \<Longrightarrow> byte b \<Longrightarrow> P os \<Longrightarrow> wr i b os = Inr os' \<Longrightarrow> P os'"
  shows "P os'"
  using assms(1) unfolding write_loop_def
proof (rule fold_outcome_invariant)
  fix i s s'
  assume i: "i \<in> set [0..<n]" and s: "P s"
    and run: "bind_outcome (create_ExtractExpr v (8 * i) 8) (\<lambda>b. wr (byte_index little n i) b s) = Inr s'"
  from i have lt: "i < n" by simp
  then obtain b where "create_ExtractExpr v (8 * i) 8 = Inr b" "byte b"
    using create_ExtractExpr_computes [OF assms(3), of 8 "8 * i"] assms(4) by (auto simp: computes_def byte_def)
  with run assms(5) [OF byte_index_less [OF lt]] s show "P s'" by auto
qed (rule assms(2))

lemma write_const_keeps:
  assumes "os_ok os" and "writable v n" and "unat x + n \<le> nbytes os" and "write_const cfg x v os = Inr os'"
  shows "os_ok os'"
proof -
  have v: "welltyped v" "getWidth v = 8 * n" "0 < n" "isConstant v \<longrightarrow> n \<in> {1, 2, 4, 8} \<or> 8 < n"
    using assms(2) by (simp_all add: writable_def)
  have run: "write_loop (\<lambda>idx. write8_expr (x + of_nat idx)) (isLittleEndian cfg) v n os = Inr os'"
    using assms(4) write_const_slow [OF v, of cfg x os] by simp
  have "os_ok os' \<and> os_size os' = os_size os"
  proof (rule write_loop_invariant [OF run _ v(1,2)])
    fix i b os1 os2
    assume "i < n" "byte b" and P: "os_ok os1 \<and> os_size os1 = os_size os" and w: "write8_expr (x + of_nat i) b os1 = Inr os2"
    moreover have "unat (x + of_nat i) = unat x + i" using assms(3) \<open>i < n\<close> by (intro unat_plus_below [of _ _ "os_size os"]) simp
    ultimately show "os_ok os2 \<and> os_size os2 = os_size os"
      using write8_expr_runs [of os1 "x + of_nat i" b] assms(3) by (auto simp: same_list_def)
  qed (use assms(1) in simp)
  then show ?thesis by simp
qed

lemma write_expr_keeps:
  assumes "os_ok os" and "writable v n" and "truncated_offset off" and "write_expr (config little address counter) off v os = Inr os'"
  shows "os_ok os'"
proof -
  have v: "welltyped v" "getWidth v = 8 * n" "0 < n" "n \<le> 2 ^ 32" using assms(2) by (simp_all add: writable_def)
  obtain x where x: "create_ZExtExpr off 32 = Inr x" "symbolic_offset x" "\<not> isConstant x"
    using truncated_offset_runs [OF assms(3)] by blast
  have run: "write_loop (\<lambda>idx b os. bind_outcome (offset_plus (config little address counter) x idx) (\<lambda>o'. write8_symbolic o' b os))
      little v n os = Inr os'"
    using assms(4) write_expr_symbolic [OF x(3,1) v(2,3), of "config little address counter" os] by simp
  show ?thesis
  proof (rule write_loop_invariant [OF run _ v(1,2)])
    fix i b os1 os2
    assume i: "i < n" and P: "byte b" "os_ok os1"
      and w: "bind_outcome (offset_plus (config little address counter) x i) (\<lambda>o'. write8_symbolic o' b os1) = Inr os2"
    have "int i < 2 ^ 32" using i v(4) by simp
    from offset_plus_runs [OF x(2) this, of "config little address counter"] w obtain x' where
      "symbolic_offset x'" "write8_symbolic x' b os1 = Inr os2" by auto
    with write8_symbolic_runs [OF P(2) _ P(1), of x'] show "os_ok os2" by auto
  qed (rule assms(1))
qed

text \<open>A read at a symbolic offset of an object without root array never returns.\<close>

lemma read8_symbolic_without_root:
  assumes "os_ok os" and "upd_root os = None" and "symbolic_offset x"
  shows "\<exists>f. read8_symbolic cfg x os = Inl f"
proof -
  obtain os' where os': "flushRangeForRead 0 (os_size os) os = Inr os'" "kept os os'"
    using flushRangeForRead_runs [OF assms(1)] by blast
  then have "upd_root os' = None" using assms(2) by (simp add: kept_def)
  then have "\<exists>f. getUpdates cfg os' = Inl f" using getUpdates_without_root by (cases "getUpdates cfg os'") auto
  then show ?thesis
    using os'(1) assms(3) varies_not_constant [of x]
    by (auto simp: read8_symbolic_def fastRangeCheckOffset_def read_array_def symbolic_offset_def create_ZExtExpr_def)
qed

lemma read_expr_without_root:
  assumes "os_ok os" and "upd_root os = None" and "truncated_offset off" and "0 < n" and "n \<le> 2 ^ 32"
  shows "\<exists>f. read_expr (config little address counter) off (8 * n) os = Inl f"
proof -
  obtain x where x: "create_ZExtExpr off 32 = Inr x" "symbolic_offset x" "\<not> isConstant x"
    using truncated_offset_runs [OF assms(3)] by blast
  obtain k ks where ks: "map (byte_index little n) [0..<n] = k # ks"
    using assms(4) by (cases "map (byte_index little n) [0..<n]") auto
  have "k \<in> set (map (byte_index little n) [0..<n])" unfolding ks by simp
  then have "k < n" using byte_index_less by auto
  then have "int k < 2 ^ 32" using assms(5) by simp
  from offset_plus_runs [OF x(2) this, of "config little address counter"] obtain x' where
    "offset_plus (config little address counter) x k = Inr x'" "symbolic_offset x'" by auto
  moreover from this(2) obtain f where "read8_symbolic (config little address counter) x' os = Inl f"
    using read8_symbolic_without_root [OF assms(1,2)] by blast
  ultimately show ?thesis
    using read_expr_symbolic [OF x(3,1) refl, of "config little address counter" n os] ks by simp
qed

lemma os_reach_ok: "os_reach os \<Longrightarrow> os_ok os"
proof (induction rule: os_reach.induct)
  case (new_concrete n use address counter os)
  then show ?case using ObjectState_concrete_ok [of n use address counter] by (auto simp: readable_def)
next
  case (new_symbolic n a os)
  then show ?case using ObjectState_symbolic_ok [of n a] by (auto simp: rooted_def)
next
  case (copy os os')
  then have "\<not> readOnly os" by (auto simp: ObjectState_copy_def outcome_simps)
  with copy ObjectState_copy_ok [of os] show ?case by auto
next
  case (zero os)
  then show ?case using fill_ok(1) [of os 0] by (simp add: initializeToZero_def)
next
  case (random os)
  then show ?case using fill_ok(1) [of os "0xAB"] by (simp add: initializeToRandom_def)
next
  case (read_only os ro)
  then show ?case by (simp add: flags_ok setReadOnly_def)
next
  case (taint os t)
  then show ?case by (simp add: flags_ok insertTaint_def)
next
  case (untaint os t)
  then show ?case by (simp add: flags_ok eraseTaint_def)
next
  case (read_at os cfg x w os' r)
  then show ?case using read_const_keeps_state [of cfg x w os os' r] by simp
next
  case (read_symbolic os off n little address counter os' r)
  then have "upd_root os \<noteq> None" using read_expr_without_root [of os off n little address counter] by auto
  with read_symbolic read_expr_refines [of os off n little address counter] show ?case by (auto simp: rooted_def)
next
  case (write_at os v n x cfg os')
  then show ?case by (auto intro: write_const_keeps)
next
  case (write_symbolic os v n off little address counter os')
  then show ?case by (auto intro: write_expr_keeps)
qed

lemma pull_constants_undefined:
  "\<forall>(i, v)\<in>set ws. getWidth i = 32 \<Longrightarrow> pull_constants ws cs = Inl f \<Longrightarrow> \<exists>m. f = Undefined m"
  by (induction ws cs rule: pull_constants.induct) (auto simp: set_index_def split: if_splits)

lemma oldest_first_widths: "updates_ok a us \<Longrightarrow> \<forall>(i, v)\<in>set (oldest_first us). getWidth i = ar_domain a"
  by (induction us rule: oldest_first.induct) auto

lemma getUpdates_undefined:
  assumes "list_ok os" and "upd_root os = None"
  shows "\<exists>m. getUpdates cfg os = Inl (Undefined m)"
proof -
  have w: "\<forall>(i, v)\<in>set (oldest_first (upd_head os)). getWidth i = 32"
    using oldest_first_widths [of "root_array os" "upd_head os"] assms(1) by (simp add: list_ok_def)
  show ?thesis
  proof (cases "pull_constants (oldest_first (upd_head os)) (replicate (nbytes os) 0)")
    case (Inl f)
    with pull_constants_undefined [OF w] assms(2) show ?thesis by (auto simp: getUpdates_def)
  next
    case (Inr r)
    with assms(2) show ?thesis by (cases r) (simp add: getUpdates_def new_Array_def pointer_range_def)
  qed
qed


section \<open>The properties of an object\<close>

text \<open>The offset that the first byte of \<open>buffer\<close> names, as an example of a symbolic one.\<close>

definition byte_offset :: expr where
  "byte_offset = ZExtExpr first_byte 32"

lemma byte_offset_value: "eval env byte_offset = take_bit 8 (env buffer 0)"
  by (simp add: byte_offset_def first_byte_def initial_value_def isSymbolicArray_def buffer_def)

lemma byte_offset_ok [simp]: "truncated_offset byte_offset"
proof -
  have "take_bit 32 (eval (\<lambda>_ _. 0) byte_offset) \<noteq> take_bit 32 (eval (\<lambda>_ _. 1) byte_offset)"
    by (simp add: byte_offset_value)
  then show ?thesis unfolding truncated_offset_def by (auto simp: byte_offset_def)
qed

lemma buffer_object:
  "\<exists>os. ObjectState_symbolic 4 buffer = Inr os \<and> rooted os \<and> os_size os = 4 \<and> (\<forall>env. content env os = initial_value env buffer)"
  using ObjectState_symbolic_ok [of 4 buffer] by (auto simp: size_ok_def byte_array_def)



text \<open>
  (C4) The accesses of an object implement an array of bytes. A read at a constant offset inside the
  object, and at a symbolic offset of an object with a root array, returns an expression with the
  value of the bytes at the offset, in the byte order of the target, and leaves the contents as they
  are. A write replaces exactly those bytes, also where a symbolic offset may name any of them. The
  invariant is kept throughout.
\<close>

theorem ObjectState_refines_bytes:
  assumes "readable os" and "unat x + n \<le> nbytes os" and "writable v n"
    and "rooted os'" and "truncated_offset off"
  shows "(\<exists>e. read_const (config little address counter) x (8 * n) os = Inr (os, Some e) \<and> getWidth e = 8 * n \<and>
      (\<forall>env. eval env e = load little n (uint x) (content env os))) \<and>
    (\<exists>os1. write_const (config little address counter) x v os = Inr os1 \<and> readable os1 \<and>
      (\<forall>env. content env os1 = store little n (uint x) (eval env v) (content env os))) \<and>
    (\<exists>os1 e. read_expr (config little address counter) off (8 * n) os' = Inr (os1, Some e) \<and> rooted os1 \<and> getWidth e = 8 * n \<and>
      (\<forall>env. content env os1 = content env os' \<and>
         eval env e = load little n (take_bit 32 (eval env off)) (content env os'))) \<and>
    (\<exists>os1. write_expr (config little address counter) off v os' = Inr os1 \<and> rooted os1 \<and>
      (\<forall>env. content env os1 = store little n (take_bit 32 (eval env off)) (eval env v) (content env os')))"
proof -
  have v: "0 < n" "n \<le> 2 ^ 32" "welltyped v" "getWidth v = 8 * n" "isConstant v \<longrightarrow> n \<in> {1, 2, 4, 8} \<or> 8 < n"
    using assms(3) by (simp_all add: writable_def)
  note rc = read_const_refines [OF assms(1,2) v(1), of little address counter]
    and wc = write_const_refines [OF assms(1,2) v(1,3-5), of little address counter]
    and re = read_expr_refines [OF assms(4,5) v(1,2), of little address counter]
    and we = write_expr_refines [OF assms(4,5) v(1-4), of little address counter]
  show ?thesis
    by (intro conjI; insert rc wc re we; elim exE conjE; blast)
qed

theorem ObjectState_refines_bytes_witness:
  "\<exists>os os1 e. ObjectState_symbolic 4 buffer = Inr os \<and>
     read_expr (config True 0 0) byte_offset 16 os = Inr (os1, Some e) \<and>
     (\<forall>env. eval env e = load True 2 (take_bit 32 (take_bit 8 (env buffer 0))) (initial_value env buffer))"
proof -
  obtain os where os: "ObjectState_symbolic 4 buffer = Inr os" "rooted os" "os_size os = 4"
    "\<And>env. content env os = initial_value env buffer" using buffer_object by blast
  then have "readable os" by (simp add: rooted_def readable_def)
  then have "\<exists>os1 e. read_expr (config True 0 0) byte_offset (8 * 2) os = Inr (os1, Some e) \<and>
      (\<forall>env. eval env e = load True 2 (take_bit 32 (eval env byte_offset)) (content env os))"
    using ObjectState_refines_bytes [of os 0 2 "ConstantExpr 16 513" os byte_offset True 0 0] os
    by (auto simp: writable_def in_width_def)
  with os show ?thesis by (simp add: byte_offset_value)
qed

lemma read_back: "writable v n \<Longrightarrow> load little n p (store little n p (eval env v) c) = eval env v"
  using load_store [of n little p "eval env v" c] eval_in_width [of v env] by (simp add: writable_def take_bit_in_width)

lemma write_read_const:
  assumes "readable os" and "unat x + n \<le> nbytes os" and "writable v n"
  shows "\<exists>os1 e. write_const (config little address counter) x v os = Inr os1 \<and>
    read_const (config little address counter) x (getWidth v) os1 = Inr (os1, Some e) \<and> (\<forall>env. eval env e = eval env v)"
proof -
  have v: "0 < n" "welltyped v" "getWidth v = 8 * n" "isConstant v \<longrightarrow> n \<in> {1, 2, 4, 8} \<or> 8 < n"
    using assms(3) by (simp_all add: writable_def)
  obtain os1 where os1: "write_const (config little address counter) x v os = Inr os1" "readable os1" "os_size os1 = os_size os"
    "\<And>env. content env os1 = store little n (uint x) (eval env v) (content env os)"
    using write_const_refines [OF assms(1,2) v, of little address counter] by blast
  moreover have "unat x + n \<le> nbytes os1" using assms(2) os1(3) by simp
  from read_const_refines [OF os1(2) this v(1), of little address counter] obtain e where
    "read_const (config little address counter) x (8 * n) os1 = Inr (os1, Some e)"
    "\<And>env. eval env e = load little n (uint x) (content env os1)" by blast
  ultimately show ?thesis using read_back [OF assms(3)] v(3) by auto
qed

lemma write_read_symbolic:
  assumes "rooted os" and "truncated_offset off" and "writable v n"
  shows "\<exists>os1 os2 e. write_expr (config little address counter) off v os = Inr os1 \<and>
    read_expr (config little address counter) off (getWidth v) os1 = Inr (os2, Some e) \<and> (\<forall>env. eval env e = eval env v)"
proof -
  have v: "0 < n" "n \<le> 2 ^ 32" "welltyped v" "getWidth v = 8 * n" using assms(3) by (simp_all add: writable_def)
  obtain os1 where os1: "write_expr (config little address counter) off v os = Inr os1" "rooted os1"
    "\<And>env. content env os1 = store little n (take_bit 32 (eval env off)) (eval env v) (content env os)"
    using write_expr_refines [OF assms(1,2) v, of little address counter] by blast
  moreover from read_expr_refines [OF os1(2) assms(2) v(1,2), of little address counter] obtain os2 e where
    "read_expr (config little address counter) off (8 * n) os1 = Inr (os2, Some e)"
    "\<And>env. eval env e = load little n (take_bit 32 (eval env off)) (content env os1)" by blast
  ultimately show ?thesis using read_back [OF assms(3)] v(4) by auto
qed

lemma write_read_bool:
  assumes "readable os" and "unat x < nbytes os" and "welltyped b" and "getWidth b = 1"
  shows "\<exists>os1 e. write_const (config little address counter) x b os = Inr os1 \<and>
    read_const (config little address counter) x 1 os1 = Inr (os1, Some e) \<and> (\<forall>env. eval env e = eval env b)"
proof -
  obtain os1 where os1: "write_const (config little address counter) x b os = Inr os1" "readable os1" "os_size os1 = os_size os"
    "\<And>env. content env os1 = (content env os)(uint x := eval env b)"
    using write_const_bool [OF assms, of little address counter] by blast
  moreover have "eval env b mod 2 = eval env b" for env using eval_Bool [OF assms(3), of env] assms(4) by auto
  ultimately show ?thesis using read_const_bool [OF os1(2), of x little address counter] assms(2) by auto
qed



text \<open>
  (C23) The special cases of \<open>write\<close> for constants of 8, 16, 32 and 64 bits, which shift the value, do what the
  general case does, which extracts bytes from the expression, for both byte orders and also where
  the access leaves the object.
\<close>

theorem write_small_is_general:
  assumes "in_width w c" and "w \<in> {8, 16, 32, 64}"
  shows "write_const cfg x (ConstantExpr w c) os = write_slow cfg x (ConstantExpr w c) os"
proof -
  have "welltyped (ConstantExpr w c)" "getWidth (ConstantExpr w c) = 8 * (w div 8)" "0 < w div 8" "w \<noteq> 1"
    using assms by auto
  with write_const_slow [of "ConstantExpr w c" "w div 8" cfg x os] assms(2) show ?thesis
    by (auto simp: write_slow_def)
qed

theorem write_small_is_general_witness:
  "write_const (config False 0 0) 1 (ConstantExpr 32 0x01020304) (blank_state 8 None) =
     write_slow (config False 0 0) 1 (ConstantExpr 32 0x01020304) (blank_state 8 None) \<and>
   (case write_const (config False 0 0) 1 (ConstantExpr 32 0x01020304) (blank_state 8 None) of
      Inr os \<Rightarrow> concreteStore os = [0, 1, 2, 3, 4, 0, 0, 0] | Inl _ \<Rightarrow> False)"
proof -
  have "case write_const (config False 0 0) 1 (ConstantExpr 32 0x01020304) (blank_state 8 None) of
      Inr os \<Rightarrow> concreteStore os = [0, 1, 2, 3, 4, 0, 0, 0] | Inl _ \<Rightarrow> False" by code_simp
  with write_small_is_general [of 32 "0x01020304" "config False 0 0" 1 "blank_state 8 None"] show ?thesis
    by (simp add: in_width_def)
qed

lemma after_symbolic_write:
  assumes "os_ok os" and "upd_root os = None" and "unat x < nbytes os" and "symbolic_offset y" and "byte v"
  shows "\<exists>os'. write8_symbolic y v os = Inr os' \<and> (\<exists>m. read8 cfg x os' = Inl (Undefined m))"
proof -
  have off: "getWidth y = 32" "\<not> isConstant y" using assms(4) varies_not_constant by (auto simp: symbolic_offset_def)
  obtain os1 where os1: "flushRangeForWrite 0 (os_size os) os = Inr os1" "kept os os1" "\<forall>i<nbytes os. only_listed os1 i"
    using flushRangeForWrite_runs [OF assms(1)] by blast
  let ?os' = "os1\<lparr>upd_head := UpdateNode y v (upd_head os1)\<rparr>"
  have run: "write8_symbolic y v os = Inr ?os'"
    using off os1 assms(2)
    by (simp add: write8_symbolic_def fastRangeCheckOffset_def create_ZExtExpr_def extend_updates_def kept_def)
  obtain os' where os': "write8_symbolic y v os = Inr os'" "os_ok os'" "upd_root os' = None" "os_size os' = os_size os"
    using write8_symbolic_runs [OF assms(1,4,5)] assms(2) by auto
  with run have eq: "os' = ?os'" by simp
  have "only_listed os' (unat x)" using os1(3) assms(3) eq by (simp add: only_listed_def)
  moreover have sh: "os_shape os'" "unat x < nbytes os'" using os' assms(3) by (simp_all add: os_ok_def)
  moreover obtain m where "getUpdates cfg os' = Inl (Undefined m)"
    using getUpdates_undefined [OF _ os'(3)] os'(2) by (auto simp: os_ok_def)
  ultimately have "read8 cfg x os' = Inl (Undefined m)"
    by (simp add: read8_def isByteConcrete_runs isByteKnownSymbolic_runs isByteFlushed_runs only_listed_def read_array_def)
  with os'(1) show ?thesis by blast
qed

text \<open>
  (C36) An object without root array, which every object with concrete contents is by default, cannot be
  read at a symbolic offset: \<open>getUpdates\<close> passes the bounds of the constant contents in the places of
  \<open>isFloat\<close> and of the begin of the range, so that the constructor of \<open>Array\<close> copies an invalid range. A write at a
  symbolic offset still works, and leaves an object whose bytes cannot be read even at a constant offset.
\<close>

theorem symbolic_read_without_root_undefined:
  assumes "os_reach os" and "upd_root os = None" and "truncated_offset off" and "0 < n" and "n \<le> 2 ^ 32"
    and "symbolic_offset y" and "byte v" and "unat x < nbytes os"
  shows "(\<exists>f. read_expr (config little address counter) off (8 * n) os = Inl f) \<and>
    (\<exists>m. getUpdates (config little address counter) os = Inl (Undefined m)) \<and>
    (\<exists>os'. write8_symbolic y v os = Inr os' \<and> (\<exists>m. read8 (config little address counter) x os' = Inl (Undefined m)))"
proof -
  have ok: "os_ok os" using assms(1) by (rule os_reach_ok)
  with read_expr_without_root [OF ok assms(2-5)] getUpdates_undefined [OF _ assms(2)]
    after_symbolic_write [OF ok assms(2,8,6,7), of "config little address counter"]
  show ?thesis by (auto simp: os_ok_def)
qed

theorem symbolic_read_without_root_undefined_witness:
  "\<exists>f. read_expr (config True 0 0) byte_offset 32 (blank_state 8 None) = Inl f"
proof -
  have "os_reach (blank_state 8 None)"
    by (rule new_concrete [of 8 True 0 0]) (simp_all add: size_ok_def ObjectState_concrete_def)
  moreover have "symbolic_offset byte_offset"
    using truncated_offset_runs [OF byte_offset_ok] by (auto simp: create_ZExtExpr_def byte_offset_def)
  ultimately have "\<exists>f. read_expr (config True 0 0) byte_offset (8 * 4) (blank_state 8 None) = Inl f"
    using symbolic_read_without_root_undefined [of "blank_state 8 None" byte_offset 4 byte_offset first_byte 0 True 0 0]
    by (simp add: blank_state_def byte_def)
  then show ?thesis by simp
qed


section \<open>New symbolic variables\<close>

text \<open>
  \<open>manualMakeSymbolic\<close> returns the value of the first bytes of the new array, in the byte order of the target.
  The array has as many bytes as the variable has bits.
\<close>

lemma manualMakeSymbolic_value:
  assumes "size_ok m" and "unat m = 8 * n" and "0 < n"
  shows "\<exists>e. manualMakeSymbolic (config little address counter) k nm m isFloat = Inr (Some e) \<and> welltyped e \<and>
    getWidth e = 8 * n \<and> (\<forall>env. eval env e = load little n 0 (initial_value env (Array k nm (8 * n) [] 32 8)))"
proof -
  let ?a = "Array k nm (unat m) [] 32 8" and ?cfg = "config little address counter"
  obtain os where os: "ObjectState_symbolic m ?a = Inr os" "rooted os" "os_size os = m" "\<forall>env. content env os = initial_value env ?a"
    using ObjectState_symbolic_ok [OF assms(1) new_Array_plain(2)] by blast
  then have "readable os" "unat 0 + n \<le> nbytes os" using assms(2) by (simp_all add: rooted_def readable_def)
  from read_const_refines [OF this assms(3), of little address counter] obtain e where
    e: "read_const ?cfg 0 (8 * n) os = Inr (os, Some e)" "welltyped e" "getWidth e = 8 * n"
      "\<forall>env. eval env e = load little n 0 (content env os)" by auto
  have "create_ZExtExpr (ConstantExpr 64 0) 32 = Inr (ConstantExpr 32 0)"
    by (simp add: create_ZExtExpr_def create_ExtractExpr.simps const_Extract_def signed_value_def)
  then have "read_expr ?cfg (ConstantExpr 64 0) (unat m) os = Inr (os, Some e)"
    using e(1) assms(2) by (simp add: read_expr_def)
  with os e(2-4) assms(2) show ?thesis by (simp add: manualMakeSymbolic_def new_Array_plain(1))
qed

end
