(* ===== verification/Memory_Bounds.thy ===== *)
theory Memory_Bounds
  imports Expr_Structure
begin

text \<open>
  The address range of an object, \<open>MemoryObject\<close> of \<^verbatim>\<open>src/lib/Core/Memory.h\<close>, and the expressions that say
  whether an access stays inside it. The members for naming, allocation and reporting are left out. \<open>pw\<close> is
  the pointer width of the target, \<open>opt\<close> the option \<open>const-array-opt\<close> of the expression constructors.
\<close>

section \<open>Objects and checks\<close>

record memory_object =
  mo_address :: u64
  mo_size :: uint

text \<open>\<open>ConstantExpr::alloc\<close> of a 64-bit value: the value truncated to the width.\<close>

definition alloc_const :: "nat \<Rightarrow> u64 \<Rightarrow> expr" where
  "alloc_const w v = ConstantExpr w (take_bit w (uint v))"

text \<open>\<open>ConstantExpr::create\<close> asserts that nothing is truncated.\<close>

definition create_const :: "nat \<Rightarrow> u64 \<Rightarrow> expr outcome" where
  "create_const w v =
     bind_outcome (assert_that (uint v = take_bit w (uint v)) ''invalid constant'') (\<lambda>_. Inr (alloc_const w v))"

definition getBaseExpr :: "nat \<Rightarrow> memory_object \<Rightarrow> expr outcome" where
  "getBaseExpr pw mo = create_const pw (mo_address mo)"

definition getSizeExpr :: "nat \<Rightarrow> memory_object \<Rightarrow> expr outcome" where
  "getSizeExpr pw mo = create_const pw (ucast (mo_size mo))"

definition getOffsetExpr :: "bool \<Rightarrow> nat \<Rightarrow> memory_object \<Rightarrow> expr \<Rightarrow> expr outcome" where
  "getOffsetExpr opt pw mo pointer = bind_outcome (getBaseExpr pw mo) (create_SubExpr opt pointer)"

definition getBoundsCheckOffset :: "bool \<Rightarrow> nat \<Rightarrow> memory_object \<Rightarrow> expr \<Rightarrow> expr outcome" where
  "getBoundsCheckOffset opt pw mo offset =
     (if mo_size mo = 0 then create_EqExpr opt offset (alloc_const pw 0)
      else bind_outcome (getSizeExpr pw mo) (create_UltExpr opt offset))"

definition getBoundsCheckOffset_bytes :: "bool \<Rightarrow> nat \<Rightarrow> memory_object \<Rightarrow> expr \<Rightarrow> uint \<Rightarrow> expr outcome" where
  "getBoundsCheckOffset_bytes opt pw mo offset nb =
     (if nb \<le> mo_size mo then create_UltExpr opt offset (alloc_const pw (ucast (mo_size mo - nb + 1)))
      else Inr (alloc_const Bool 0))"

definition getBoundsCheckPointer :: "bool \<Rightarrow> nat \<Rightarrow> memory_object \<Rightarrow> expr \<Rightarrow> expr outcome" where
  "getBoundsCheckPointer opt pw mo pointer =
     bind_outcome (getOffsetExpr opt pw mo pointer) (getBoundsCheckOffset opt pw mo)"

definition getBoundsCheckPointer_bytes :: "bool \<Rightarrow> nat \<Rightarrow> memory_object \<Rightarrow> expr \<Rightarrow> uint \<Rightarrow> expr outcome" where
  "getBoundsCheckPointer_bytes opt pw mo pointer nb =
     bind_outcome (getOffsetExpr opt pw mo pointer) (\<lambda>offset. getBoundsCheckOffset_bytes opt pw mo offset nb)"


section \<open>The checks are exact\<close>

text \<open>An object that fits the address space of the target.\<close>

definition mo_ok :: "nat \<Rightarrow> memory_object \<Rightarrow> bool" where
  "mo_ok pw mo \<longleftrightarrow> 32 < pw \<and> pw \<le> 64 \<and> uint (mo_address mo) < 2 ^ pw \<and> uint (mo_address mo) + uint (mo_size mo) \<le> 2 ^ pw"

lemma alloc_const_ok [simp]: "0 < w \<Longrightarrow> welltyped (alloc_const w v)" "getWidth (alloc_const w v) = w"
  "eval env (alloc_const w v) = take_bit w (uint v)"
  by (simp_all add: alloc_const_def)

lemma uint_wide: "uint (ucast (n :: uint) :: u64) = uint n"
  by (simp add: unsigned_ucast_eq take_bit_int_eq_self unsigned_less [THEN less_trans])

lemma uint_below: "32 < pw \<Longrightarrow> take_bit pw (uint (ucast (n :: uint) :: u64)) = uint n"
proof -
  assume "32 < pw"
  moreover have "in_width 32 (uint n)" using unsigned_less [of n] by (simp add: in_width_def)
  ultimately have "in_width pw (uint n)" using in_width_mono by auto
  then show ?thesis by (simp add: uint_wide take_bit_in_width)
qed

text \<open>The offset, computed modulo the size of the address space, is below a bound inside the object.\<close>

lemma offset_below:
  fixes p a n k w :: int
  assumes "0 \<le> p" "p < w" "0 \<le> a" "0 \<le> k" "k \<le> n" "a + n \<le> w"
  shows "(p - a) mod w < k \<longleftrightarrow> a \<le> p \<and> p < a + k"
proof (cases "a \<le> p")
  case True
  then have "(p - a) mod w = p - a" using assms by (intro mod_pos_pos_trivial) auto
  with True show ?thesis by auto
next
  case False
  have "(p - a) mod w = (p - a + w) mod w" by simp
  also have "\<dots> = p - a + w" using assms False by (intro mod_pos_pos_trivial) auto
  finally show ?thesis using False assms by auto
qed

lemma getOffsetExpr_computes:
  assumes "mo_ok pw mo" and "welltyped p" and "getWidth p = pw"
  shows "computes (getOffsetExpr False pw mo p) pw (\<lambda>env. (eval env p - uint (mo_address mo)) mod 2 ^ pw)"
proof -
  have pw: "0 < pw" "in_width pw (uint (mo_address mo))" using assms(1) by (simp_all add: mo_ok_def in_width_def)
  then have "getBaseExpr pw mo = Inr (alloc_const pw (mo_address mo))"
    by (simp add: getBaseExpr_def create_const_def take_bit_in_width)
  moreover have "sums p (alloc_const pw (mo_address mo)) pw"
    using assms(2,3) pw(1) by (intro create_AddExpr_SubExpr_computes) simp_all
  ultimately have "computes (getOffsetExpr False pw mo p) pw (\<lambda>env. take_bit pw (eval env p - take_bit pw (uint (mo_address mo))))"
    by (simp add: sums_def getOffsetExpr_def)
  then show ?thesis by (rule computes_cong) (simp add: take_bit_eq_mod mod_simps)
qed

lemma create_UltExpr_computes:
  assumes "welltyped l" and "welltyped r" and "getWidth l = getWidth r"
  shows "computes (create_UltExpr False l r) 1 (\<lambda>env. truth (eval env l < eval env r))"
  using order_constructs(1) [OF assms] by (simp add: constructs_def result_width_def isCmp_def)

lemma pointer_in_width: "welltyped p \<Longrightarrow> getWidth p = pw \<Longrightarrow> 0 \<le> eval env p \<and> eval env p < 2 ^ pw"
  using eval_in_width [of p env] by (simp add: in_width_def)

lemma getBoundsCheckPointer_computes:
  assumes "mo_ok pw mo" and "welltyped p" and "getWidth p = pw"
  defines "a \<equiv> uint (mo_address mo)"
  shows "computes (getBoundsCheckPointer False pw mo p) 1
    (\<lambda>env. truth (if mo_size mo = 0 then eval env p = a else a \<le> eval env p \<and> eval env p < a + uint (mo_size mo)))"
  unfolding getBoundsCheckPointer_def
proof (rule computes_bind [OF getOffsetExpr_computes [OF assms(1-3)]])
  fix x assume x: "welltyped x" "getWidth x = pw" "\<And>env. eval env x = (eval env p - uint (mo_address mo)) mod 2 ^ pw"
  have pw: "32 < pw" "a + uint (mo_size mo) \<le> 2 ^ pw" "a < 2 ^ pw" using assms(1) by (simp_all add: mo_ok_def a_def)
  have rng: "0 \<le> eval env p" "eval env p < 2 ^ pw" for env using pointer_in_width [OF assms(2,3)] by simp_all
  show "computes (getBoundsCheckOffset False pw mo x) 1
    (\<lambda>env. truth (if mo_size mo = 0 then eval env p = a else a \<le> eval env p \<and> eval env p < a + uint (mo_size mo)))"
  proof (cases "mo_size mo = 0")
    case True
    have "0 \<le> eval env x" for env using pointer_in_width [OF x(1,2)] by simp
    then have "eval env x = 0 \<longleftrightarrow> eval env p = a" for env
      using offset_below [OF rng [of env], of a 1 1] pw(3) x(3) [of env] by (auto simp: a_def)
    with create_EqExpr_computes [OF x(1), of "alloc_const pw 0"] x(2) pw(1) True show ?thesis
      by (simp add: getBoundsCheckOffset_def)
  next
    case False
    have "eval env x < uint (mo_size mo) \<longleftrightarrow> a \<le> eval env p \<and> eval env p < a + uint (mo_size mo)" for env
      using offset_below [OF rng [of env], of a "uint (mo_size mo)" "uint (mo_size mo)"] pw(2) x(3) by (simp add: a_def)
    moreover have "getSizeExpr pw mo = Inr (alloc_const pw (ucast (mo_size mo)))"
      using uint_below [OF pw(1), of "mo_size mo"] by (simp add: getSizeExpr_def create_const_def uint_wide)
    ultimately show ?thesis
      using create_UltExpr_computes [OF x(1), of "alloc_const pw (ucast (mo_size mo))"] x(2) pw(1) False
      by (simp add: getBoundsCheckOffset_def uint_below)
  qed
qed

lemma getBoundsCheckPointer_bytes_computes:
  assumes "mo_ok pw mo" and "welltyped p" and "getWidth p = pw" and "0 < nb"
  defines "a \<equiv> uint (mo_address mo)"
  shows "computes (getBoundsCheckPointer_bytes False pw mo p nb) 1
    (\<lambda>env. truth (a \<le> eval env p \<and> eval env p + uint nb \<le> a + uint (mo_size mo)))"
  unfolding getBoundsCheckPointer_bytes_def
proof (rule computes_bind [OF getOffsetExpr_computes [OF assms(1-3)]])
  fix x assume x: "welltyped x" "getWidth x = pw" "\<And>env. eval env x = (eval env p - uint (mo_address mo)) mod 2 ^ pw"
  have pw: "32 < pw" "a + uint (mo_size mo) \<le> 2 ^ pw" using assms(1) by (simp_all add: mo_ok_def a_def)
  have rng: "0 \<le> eval env p" "eval env p < 2 ^ pw" for env using pointer_in_width [OF assms(2,3)] by simp_all
  have nb: "0 < uint nb" using assms(4) by (simp add: word_less_def)
  show "computes (getBoundsCheckOffset_bytes False pw mo x nb) 1
    (\<lambda>env. truth (a \<le> eval env p \<and> eval env p + uint nb \<le> a + uint (mo_size mo)))"
  proof (cases "nb \<le> mo_size mo")
    case True
    let ?k = "uint (mo_size mo) - uint nb + 1"
    have le: "uint nb \<le> uint (mo_size mo)" using True by (simp add: word_le_def)
    moreover have "uint (mo_size mo) < 2 ^ 32" using unsigned_less [of "mo_size mo"] by simp
    ultimately have k: "uint (mo_size mo - nb + 1) = ?k" using nb by (simp add: uint_word_ariths mod_simps)
    have "eval env x < ?k \<longleftrightarrow> a \<le> eval env p \<and> eval env p + uint nb \<le> a + uint (mo_size mo)" for env
      using offset_below [OF rng [of env], of a ?k "uint (mo_size mo)"] pw(2) le nb x(3) by (auto simp: a_def)
    with create_UltExpr_computes [OF x(1), of "alloc_const pw (ucast (mo_size mo - nb + 1))"] x(2) pw(1) True k show ?thesis
      by (simp add: getBoundsCheckOffset_bytes_def uint_below)
  next
    case False
    then have "uint (mo_size mo) < uint nb" by (simp add: word_le_def)
    then have "\<not> (a \<le> eval env p \<and> eval env p + uint nb \<le> a + uint (mo_size mo))" for env by auto
    with False show ?thesis by (simp add: getBoundsCheckOffset_bytes_def truth_def)
  qed
qed

text \<open>
  (C21) The bounds checks of an object are exact: on a pointer of any well-typed expression the check for
  one byte is true exactly on the addresses of the object (on its address alone if it is empty),
  and the check for an access of several bytes exactly when all of them lie inside the object,
  although the offset is computed with wrap-around. The object has to fit the address space.
\<close>

theorem bounds_checks_exact:
  assumes "mo_ok pw mo" and "welltyped p" and "getWidth p = pw" and "0 < nb"
  shows "\<exists>e e'. getBoundsCheckPointer False pw mo p = Inr e \<and> getBoundsCheckPointer_bytes False pw mo p nb = Inr e' \<and>
    getWidth e = 1 \<and> getWidth e' = 1 \<and>
    (\<forall>env. (eval env e = 1 \<longleftrightarrow>
        (if mo_size mo = 0 then eval env p = uint (mo_address mo)
         else uint (mo_address mo) \<le> eval env p \<and> eval env p < uint (mo_address mo) + uint (mo_size mo))) \<and>
      (eval env e' = 1 \<longleftrightarrow>
        uint (mo_address mo) \<le> eval env p \<and> eval env p + uint nb \<le> uint (mo_address mo) + uint (mo_size mo)))"
  using getBoundsCheckPointer_computes [OF assms(1-3)] getBoundsCheckPointer_bytes_computes [OF assms]
  by (auto simp: computes_def truth_def)

theorem bounds_checks_exact_witness:
  "\<exists>e'. getBoundsCheckPointer_bytes False 64 \<lparr>mo_address = 100, mo_size = 8\<rparr> (ZExtExpr first_byte 64) 4 = Inr e' \<and>
     (\<forall>env. eval env e' = 1 \<longleftrightarrow> 100 \<le> eval env first_byte \<and> eval env first_byte + 4 \<le> 108)"
  using bounds_checks_exact [of 64 "\<lparr>mo_address = 100, mo_size = 8\<rparr>" "ZExtExpr first_byte 64" 4]
  by (auto simp: mo_ok_def)

end
