(* ===== verification/Find_Reads.thy ===== *)
theory Find_Reads
  imports Expr_Structure
begin

text \<open>
  \<open>findReads\<close> of \<^verbatim>\<open>src/lib/Expr/ExprUtil.cpp\<close>: the reads in an expression, by a search with a stack and a set of
  visited expressions. It ends, and with \<open>visitUpdates\<close> it finds exactly the reads among the
  subexpressions, update lists included.

  The set \<open>updates\<close> of the heads of update lists that were traversed compares heads by value here and by address
  in the code. A list with the content of a traversed one adds nothing, since its expressions have been visited.
\<close>

section \<open>The search\<close>

fun kids :: "expr \<Rightarrow> expr list" where
  "kids (ConstantExpr w v) = []"
| "kids (NotOptimizedExpr e) = [e]"
| "kids (ReadExpr a us i) = [i]"
| "kids (SelectExpr c t f) = [c, t, f]"
| "kids (ConcatExpr l r) = [l, r]"
| "kids (ExtractExpr e off w) = [e]"
| "kids (NotExpr e) = [e]"
| "kids (ZExtExpr e w) = [e]"
| "kids (SExtExpr e w) = [e]"
| "kids (BinaryExpr k l r) = [l, r]"

text \<open>The expressions of an update list, in the order of the loop.\<close>

fun update_exprs :: "updates \<Rightarrow> expr list" where
  "update_exprs No_Update = []"
| "update_exprs (UpdateNode i v next) = i # v # update_exprs next"

definition push_new :: "expr \<Rightarrow> expr list \<times> expr list \<Rightarrow> expr list \<times> expr list" where
  "push_new k = (\<lambda>(stack, visited).
     if \<not> isConstant k \<and> k \<notin> set visited then (k # stack, k # visited) else (stack, visited))"

text \<open>The expressions that a visit of \<open>e\<close> looks at, and the heads it has traversed then.\<close>

fun looked_at :: "bool \<Rightarrow> updates list \<Rightarrow> expr \<Rightarrow> expr list" where
  "looked_at visitUpdates heads (ReadExpr a us i) =
     i # (if visitUpdates \<and> us \<notin> set heads then update_exprs us else [])"
| "looked_at visitUpdates heads e = kids e"

fun seen_heads :: "bool \<Rightarrow> updates list \<Rightarrow> expr \<Rightarrow> updates list" where
  "seen_heads visitUpdates heads (ReadExpr a us i) = (if visitUpdates then List.insert us heads else heads)"
| "seen_heads visitUpdates heads e = heads"

definition isRead :: "expr \<Rightarrow> bool" where
  "isRead e = (case e of ReadExpr _ _ _ \<Rightarrow> True | _ \<Rightarrow> False)"

text \<open>The stack grows at the head of the list. All subexpressions, for the measure.\<close>

fun subs :: "expr \<Rightarrow> expr set" and usubs :: "updates \<Rightarrow> expr set" where
  "subs (ConstantExpr w v) = {ConstantExpr w v}"
| "subs (NotOptimizedExpr e) = insert (NotOptimizedExpr e) (subs e)"
| "subs (ReadExpr a us i) = insert (ReadExpr a us i) (usubs us \<union> subs i)"
| "subs (SelectExpr c t f) = insert (SelectExpr c t f) (subs c \<union> subs t \<union> subs f)"
| "subs (ConcatExpr l r) = insert (ConcatExpr l r) (subs l \<union> subs r)"
| "subs (ExtractExpr e off w) = insert (ExtractExpr e off w) (subs e)"
| "subs (NotExpr e) = insert (NotExpr e) (subs e)"
| "subs (ZExtExpr e w) = insert (ZExtExpr e w) (subs e)"
| "subs (SExtExpr e w) = insert (SExtExpr e w) (subs e)"
| "subs (BinaryExpr k l r) = insert (BinaryExpr k l r) (subs l \<union> subs r)"
| "usubs No_Update = {}"
| "usubs (UpdateNode i v next) = subs i \<union> subs v \<union> usubs next"

lemma subs_self [simp]: "e \<in> subs e"
  by (cases e) auto

lemma finite_subs [simp]: "finite (subs e)" and finite_usubs [simp]: "finite (usubs us)"
  by (induction e and us rule: subs_usubs.induct) auto

lemma usubs_update_exprs: "usubs us = (\<Union>k\<in>set (update_exprs us). subs k)"
  by (induction us rule: update_exprs.induct) auto

lemma looked_at_subs: "k \<in> set (looked_at vu heads e) \<Longrightarrow> subs k \<subseteq> subs e"
  by (cases e) (auto simp: usubs_update_exprs split: if_splits)

definition open_subs :: "expr list \<Rightarrow> expr list \<Rightarrow> expr set" where
  "open_subs stack visited = (\<Union>e\<in>set stack. subs e) - set visited"

lemma push_new_fold:
  fixes U :: "expr set"
  assumes "\<forall>k\<in>set ks. subs k \<subseteq> U" and "(\<Union>e\<in>set stack. subs e) \<subseteq> U" and "finite U"
    and "fold push_new ks (stack, visited) = (stack', visited')"
  shows "(\<Union>e\<in>set stack'. subs e) \<subseteq> U \<and>
    2 * card (U - set visited') + length stack' \<le> 2 * card (U - set visited) + length stack"
  using assms
proof (induction ks arbitrary: stack visited)
  case (Cons k ks)
  show ?case
  proof (cases "\<not> isConstant k \<and> k \<notin> set visited")
    case True
    have "k \<in> U" using Cons.prems(1) subs_self [of k] by auto
    then have "card (U - set (k # visited)) < card (U - set visited)"
      using True Cons.prems(3) by (intro psubset_card_mono) auto
    moreover have "(\<Union>e\<in>set stack'. subs e) \<subseteq> U \<and>
        2 * card (U - set visited') + length stack' \<le> 2 * card (U - set (k # visited)) + length (k # stack)"
      using Cons.IH [of "k # stack" "k # visited"] Cons.prems True by (simp add: push_new_def)
    ultimately show ?thesis by simp
  next
    case False
    then have "push_new k (stack, visited) = (stack, visited)" by (auto simp: push_new_def)
    then show ?thesis using Cons.IH [of stack visited] Cons.prems by simp
  qed
qed simp

function search_reads ::
  "bool \<Rightarrow> expr list \<Rightarrow> expr list \<Rightarrow> updates list \<Rightarrow> expr list \<Rightarrow> expr list" where
  "search_reads vu [] visited heads results = results"
| "search_reads vu (e # stack) visited heads results =
     (case fold push_new (looked_at vu heads e) (stack, visited) of
        (stack', visited') \<Rightarrow>
          search_reads vu stack' visited' (seen_heads vu heads e)
            (if isRead e then results @ [e] else results))"
  by pat_completeness auto

termination search_reads
proof (relation "measure (\<lambda>(vu, stack, visited, heads, results). 2 * card (open_subs stack visited) + length stack)", goal_cases)
  case (2 vu e stack visited heads results stack' visited')
  let ?U = "\<Union>x\<in>set (e # stack). subs x"
  have "(\<Union>e\<in>set stack'. subs e) \<subseteq> ?U \<and>
      2 * card (?U - set visited') + length stack' \<le> 2 * card (?U - set visited) + length stack"
    by (rule push_new_fold [of "looked_at vu heads e"]) (use 2 in \<open>auto dest: looked_at_subs\<close>)
  moreover from this have "card (open_subs stack' visited') \<le> card (?U - set visited')"
    unfolding open_subs_def by (intro card_mono) auto
  ultimately show ?case by (simp add: open_subs_def)
qed simp

definition findReads :: "expr \<Rightarrow> bool \<Rightarrow> expr list" where
  "findReads e visitUpdates =
     (if isConstant e then [] else search_reads visitUpdates [e] [e] [] [])"

section \<open>It finds the reads\<close>

definition closed_under :: "expr set \<Rightarrow> bool" where
  "closed_under V \<longleftrightarrow> (\<forall>x\<in>V. \<forall>k\<in>set (looked_at True [] x). isConstant k \<or> k \<in> V)"

lemma subs_unfold: "subs e = insert e (\<Union>k\<in>set (looked_at True [] e). subs k)"
  by (cases e) (auto simp: usubs_update_exprs)

lemma update_exprs_smaller: "k \<in> set (update_exprs us) \<Longrightarrow> size k < size us"
  by (induction us rule: update_exprs.induct) auto

lemma looked_at_smaller: "k \<in> set (looked_at True [] e) \<Longrightarrow> size k < size e"
  by (cases e) (auto dest: update_exprs_smaller)

lemma closed_under_subs:
  assumes "closed_under V" and "isConstant e \<or> e \<in> V" and "y \<in> subs e"
  shows "isConstant y \<or> y \<in> V"
  using assms(2,3)
proof (induction "size e" arbitrary: e rule: less_induct)
  case less
  show ?case
  proof (cases "y = e")
    case False
    then obtain k where k: "k \<in> set (looked_at True [] e)" "y \<in> subs k" using less.prems(2) subs_unfold [of e] by auto
    then have "\<not> isConstant e" by (cases e) auto
    then have "isConstant k \<or> k \<in> V" using less.prems(1) k(1) assms(1) by (auto simp: closed_under_def)
    with less.hyps [OF looked_at_smaller [OF k(1)]] k(2) show ?thesis by blast
  qed (use less.prems in simp)
qed

definition search_ok :: "expr \<Rightarrow> expr list \<Rightarrow> expr list \<Rightarrow> updates list \<Rightarrow> expr list \<Rightarrow> bool" where
  "search_ok e stack visited heads results \<longleftrightarrow>
     e \<in> set visited \<and> set stack \<subseteq> set visited \<and> set visited \<subseteq> subs e \<and>
     (\<forall>x\<in>set visited - set stack. (isRead x \<longrightarrow> x \<in> set results) \<and>
        (\<forall>k\<in>set (looked_at True [] x). isConstant k \<or> k \<in> set visited)) \<and>
     (\<forall>us\<in>set heads. \<forall>k\<in>set (update_exprs us). isConstant k \<or> k \<in> set visited) \<and>
     set results \<subseteq> {x \<in> set visited. isRead x}"

lemma push_new_result:
  assumes "fold push_new ks (stack, visited) = (stack', visited')"
  shows "set visited' = set visited \<union> {k \<in> set ks. \<not> isConstant k} \<and> set stack \<subseteq> set stack' \<and>
    set stack' \<subseteq> set stack \<union> set visited' \<and> set visited' - set visited \<subseteq> set stack'"
  using assms
proof (induction ks arbitrary: stack visited)
  case (Cons k ks)
  obtain s1 v1 where p: "push_new k (stack, visited) = (s1, v1)" by (cases "push_new k (stack, visited)")
  then have "fold push_new ks (s1, v1) = (stack', visited')" using Cons.prems by simp
  from Cons.IH [OF this] p show ?case by (auto simp: push_new_def split: if_splits)
qed simp

lemma looked_at_True: "set (looked_at True [] x) \<subseteq> set (looked_at True heads x) \<union>
    (case x of ReadExpr a us i \<Rightarrow> if us \<in> set heads then set (update_exprs us) else {} | _ \<Rightarrow> {})"
  by (cases x) auto

lemma subs_trans: "x \<in> subs y \<Longrightarrow> y \<in> subs z \<Longrightarrow> x \<in> subs z"
proof (induction "size z" arbitrary: z rule: less_induct)
  case less
  show ?case
  proof (cases "y = z")
    case False
    then obtain k where k: "k \<in> set (looked_at True [] z)" "y \<in> subs k" using less.prems(2) subs_unfold [of z] by auto
    with less.hyps [OF looked_at_smaller [OF k(1)] less.prems(1)] show ?thesis using subs_unfold [of z] by auto
  qed (use less.prems in simp)
qed

lemma looked_at_covered:
  assumes "\<forall>k\<in>set (looked_at True heads x). isConstant k \<or> k \<in> V"
    and "\<forall>us\<in>set heads. \<forall>k\<in>set (update_exprs us). isConstant k \<or> k \<in> V"
  shows "\<forall>k\<in>set (looked_at True [] x). isConstant k \<or> k \<in> V"
  using assms by (cases x) (auto split: if_splits)

lemma seen_heads_covered:
  assumes "\<forall>k\<in>set (looked_at True heads x). isConstant k \<or> k \<in> V"
    and "\<forall>us\<in>set heads. \<forall>k\<in>set (update_exprs us). isConstant k \<or> k \<in> V"
  shows "\<forall>us\<in>set (seen_heads True heads x). \<forall>k\<in>set (update_exprs us). isConstant k \<or> k \<in> V"
  using assms by (cases x) (auto split: if_splits)

lemma search_step:
  assumes ok: "search_ok e (x # stack) visited heads results"
    and f: "fold push_new (looked_at True heads x) (stack, visited) = (stack', visited')"
  shows "search_ok e stack' visited' (seen_heads True heads x) (if isRead x then results @ [x] else results)"
proof -
  note r = push_new_result [OF f]
  let ?res = "if isRead x then results @ [x] else results"
  have vis: "set visited \<subseteq> set visited'" using r by auto
  have x: "x \<in> set visited" "x \<in> subs e" using ok by (auto simp: search_ok_def)
  have look: "\<forall>k\<in>set (looked_at True heads x). isConstant k \<or> k \<in> set visited'" using r by auto
  have "\<forall>us\<in>set heads. \<forall>k\<in>set (update_exprs us). isConstant k \<or> k \<in> set visited" using ok by (simp add: search_ok_def)
  with vis have hd: "\<forall>us\<in>set heads. \<forall>k\<in>set (update_exprs us). isConstant k \<or> k \<in> set visited'" by blast
  have "set visited' \<subseteq> subs e"
  proof
    fix k assume "k \<in> set visited'"
    then consider "k \<in> set visited" | "k \<in> set (looked_at True heads x)" using r by auto
    then show "k \<in> subs e"
    proof cases
      case 2
      then have "k \<in> subs x" using looked_at_subs [of k True heads x] subs_self [of k] by auto
      then show ?thesis using subs_trans [OF _ x(2)] by blast
    qed (use ok in \<open>auto simp: search_ok_def\<close>)
  qed
  moreover have "(isRead y \<longrightarrow> y \<in> set ?res) \<and> (\<forall>k\<in>set (looked_at True [] y). isConstant k \<or> k \<in> set visited')"
    if y: "y \<in> set visited' - set stack'" for y
  proof (cases "y = x")
    case True
    with looked_at_covered [OF look hd] show ?thesis by simp
  next
    case False
    then have "y \<in> set visited - set (x # stack)" using y r by auto
    then have "(isRead y \<longrightarrow> y \<in> set results) \<and> (\<forall>k\<in>set (looked_at True [] y). isConstant k \<or> k \<in> set visited)"
      using ok unfolding search_ok_def by blast
    with vis show ?thesis by auto
  qed
  moreover have "e \<in> set visited'" "set stack' \<subseteq> set visited'" "set ?res \<subseteq> {x \<in> set visited'. isRead x}"
    using ok r vis x(1) by (auto simp: search_ok_def)
  ultimately show ?thesis using seen_heads_covered [OF look hd] unfolding search_ok_def by simp
qed

lemma search_reads_finds:
  "search_ok e stack visited heads results \<Longrightarrow>
     set (search_reads True stack visited heads results) = {r \<in> subs e. isRead r}"
proof (induction "True" stack visited heads results rule: search_reads.induct)
  case (1 visited heads results)
  then have c: "closed_under (set visited)" and v: "e \<in> set visited" "set visited \<subseteq> subs e"
    and res: "set results \<subseteq> {x \<in> set visited. isRead x}" "\<forall>x\<in>set visited. isRead x \<longrightarrow> x \<in> set results"
    by (auto simp: search_ok_def closed_under_def)
  have "r \<in> set results" if "r \<in> subs e" "isRead r" for r
  proof -
    have "\<not> isConstant r" using that(2) by (cases r) (auto simp: isRead_def)
    with closed_under_subs [OF c _ that(1)] v(1) res(2) that(2) show ?thesis by blast
  qed
  with res(1) v(2) show ?case by auto
next
  case (2 x stack visited heads results)
  obtain stack' visited' where f: "fold push_new (looked_at True heads x) (stack, visited) = (stack', visited')"
    by (cases "fold push_new (looked_at True heads x) (stack, visited)")
  from 2(1) [OF f [symmetric] search_step [OF 2(2) f]] f show ?case by simp
qed

lemma findReads_finds: "set (findReads e True) = {r \<in> subs e. isRead r}"
proof (cases "isConstant e")
  case True
  then show ?thesis by (cases e) (auto simp: findReads_def isRead_def)
next
  case False
  have "search_ok e [e] [e] [] []" by (simp add: search_ok_def)
  from search_reads_finds [OF this] False show ?thesis by (simp add: findReads_def del: search_reads.simps)
qed

end
