(* ===== verification/Independent_Sets.thy ===== *)
theory Independent_Sets
  imports Find_Reads Ordered_Maps "HOL-Library.AList"
begin

text \<open>
  \<^verbatim>\<open>src/lib/Solver/IndependentSolver.cpp\<close>: the constraints of a query that share array elements, directly or through
  others, with its expression. Dropping the rest changes no answer of a solver, as long as the
  constraints can be satisfied.

  The maps and sets that are keyed by the address of an array are keyed by the array here; the order in which the code
  iterates over them does not influence the result. Printing is left out.
\<close>

section \<open>Sets of elements\<close>

text \<open>\<open>DenseSet\<close>: the union reports whether the set has changed.\<close>

definition dense_merge :: "uint list \<Rightarrow> uint list \<Rightarrow> bool \<times> uint list" where
  "dense_merge b s =
     fold (\<lambda>x (modified, s). if modified \<or> x \<notin> set s then (True, set_insert x s) else (modified, s)) b (False, s)"

definition dense_intersects :: "uint list \<Rightarrow> uint list \<Rightarrow> bool" where
  "dense_intersects s b = list_ex (\<lambda>x. x \<in> set b) s"

record element_set =
  es_elements :: "(array \<times> uint list) list"
  es_whole :: "array list"

definition empty_elements :: element_set where
  "empty_elements = \<lparr>es_elements = [], es_whole = []\<rparr>"

definition element_read :: "expr \<Rightarrow> element_set \<Rightarrow> element_set outcome" where
  "element_read re s =
     (case re of
        ReadExpr a us index \<Rightarrow>
          if \<not> isSymbolicArray a \<and> us = No_Update then Inr s
          else if a \<in> set (es_whole s) then Inr s
          else (case index of
                  ConstantExpr w c \<Rightarrow>
                    bind_outcome (assert_that (w \<le> 32) ''Value may be out of range!'')
                      (\<lambda>_. Inr (s\<lparr>es_elements := AList.update a
                         (set_insert (of_int c) (case map_of (es_elements s) a of None \<Rightarrow> [] | Some d \<Rightarrow> d)) (es_elements s)\<rparr>))
                | _ \<Rightarrow> Inr (s\<lparr>es_elements := AList.delete a (es_elements s), es_whole := List.insert a (es_whole s)\<rparr>))
      | _ \<Rightarrow> Inr s)"

definition IndependentElementSet :: "expr \<Rightarrow> element_set outcome" where
  "IndependentElementSet e = fold_outcome element_read (findReads e True) empty_elements"

definition intersects :: "element_set \<Rightarrow> element_set \<Rightarrow> bool" where
  "intersects s b \<longleftrightarrow>
     list_ex (\<lambda>a. a \<in> set (es_whole b) \<or> map_of (es_elements b) a \<noteq> None) (es_whole s) \<or>
     list_ex (\<lambda>(a, d). a \<in> set (es_whole b) \<or>
       (case map_of (es_elements b) a of Some d' \<Rightarrow> dense_intersects d d' | None \<Rightarrow> False)) (es_elements s)"

definition add_whole :: "array \<Rightarrow> bool \<times> element_set \<Rightarrow> bool \<times> element_set" where
  "add_whole a = (\<lambda>(modified, s).
     if map_of (es_elements s) a \<noteq> None then
       (True, s\<lparr>es_elements := AList.delete a (es_elements s), es_whole := List.insert a (es_whole s)\<rparr>)
     else if a \<notin> set (es_whole s) then (True, s\<lparr>es_whole := List.insert a (es_whole s)\<rparr>)
     else (modified, s))"

definition add_elements :: "array \<times> uint list \<Rightarrow> bool \<times> element_set \<Rightarrow> bool \<times> element_set" where
  "add_elements = (\<lambda>(a, d) (modified, s).
     if a \<notin> set (es_whole s) then
       (case map_of (es_elements s) a of
          None \<Rightarrow> (True, s\<lparr>es_elements := AList.update a d (es_elements s)\<rparr>)
        | Some d' \<Rightarrow>
            (case dense_merge d d' of
               (m, d'') \<Rightarrow> (modified \<or> m, s\<lparr>es_elements := AList.update a d'' (es_elements s)\<rparr>)))
     else (modified, s))"

definition es_add :: "element_set \<Rightarrow> element_set \<Rightarrow> bool \<times> element_set" where
  "es_add b s = fold add_elements (es_elements b) (fold add_whole (es_whole b) (False, s))"


section \<open>The closure\<close>

type_synonym worklist = "(expr \<times> element_set) list"

text \<open>One pass over the worklist: the closure, whether nothing has been added, what is left and the result.\<close>

fun closure_pass ::
  "worklist \<Rightarrow> element_set \<Rightarrow> bool \<Rightarrow> expr list \<Rightarrow> element_set \<times> bool \<times> worklist \<times> expr list" where
  "closure_pass [] closure finished result = (closure, finished, [], result)"
| "closure_pass ((c, s) # worklist) closure finished result =
     (if intersects s closure then
        (case es_add s closure of
           (modified, closure') \<Rightarrow> closure_pass worklist closure' (finished \<and> \<not> modified) (result @ [c]))
      else
        (case closure_pass worklist closure finished result of
           (closure', finished', rest, result') \<Rightarrow> (closure', finished', (c, s) # rest, result')))"

lemma closure_pass_shorter:
  "closure_pass wl cl fin res = (cl', fin', rest, res') \<Longrightarrow>
     length rest \<le> length wl \<and> (fin \<and> \<not> fin' \<longrightarrow> length rest < length wl)"
proof (induction wl cl fin res arbitrary: cl' fin' rest res' rule: closure_pass.induct)
  case (2 c s wl cl fin res)
  then show ?case by (fastforce split: if_splits prod.splits)
qed simp

function closure_loop :: "worklist \<Rightarrow> element_set \<Rightarrow> expr list \<Rightarrow> element_set \<times> expr list" where
  "closure_loop worklist closure result =
     (case closure_pass worklist closure True result of
        (closure', finished, rest, result') \<Rightarrow>
          if finished then (closure', result') else closure_loop rest closure' result')"
  by pat_completeness auto

termination closure_loop
  by (relation "measure (\<lambda>(wl, cl, res). length wl)") (auto dest: closure_pass_shorter [OF sym])

declare closure_loop.simps [simp del]

fun make_worklist :: "expr list \<Rightarrow> worklist outcome" where
  "make_worklist [] = Inr []"
| "make_worklist (c # cs) =
     bind_outcome (IndependentElementSet c) (\<lambda>s. bind_outcome (make_worklist cs) (\<lambda>wl. Inr ((c, s) # wl)))"

definition getIndependentConstraints :: "expr list \<Rightarrow> expr \<Rightarrow> (element_set \<times> expr list) outcome" where
  "getIndependentConstraints constraints e =
     bind_outcome (IndependentElementSet e)
       (\<lambda>closure. bind_outcome (make_worklist constraints) (\<lambda>wl. Inr (closure_loop wl closure [])))"

text \<open>
  The three queries that the solver narrows; \<open>solver\<close> stands for the operation of the wrapped solver on a list of
  constraints and an expression.
\<close>

definition independent_query :: "(expr list \<Rightarrow> expr \<Rightarrow> 'r outcome) \<Rightarrow> expr list \<Rightarrow> expr \<Rightarrow> 'r outcome" where
  "independent_query solver constraints e =
     bind_outcome (getIndependentConstraints constraints e) (\<lambda>(_, required). solver required e)"

section \<open>What a set covers\<close>

definition covers :: "element_set \<Rightarrow> array \<Rightarrow> int \<Rightarrow> bool" where
  "covers s a i \<longleftrightarrow> a \<in> set (es_whole s) \<or> (\<exists>d. map_of (es_elements s) a = Some d \<and> i \<in> uint ` set d)"

definition covers_read :: "element_set \<Rightarrow> expr \<Rightarrow> bool" where
  "covers_read s r \<longleftrightarrow> (\<forall>a us index i. r = ReadExpr a us index \<longrightarrow> isSymbolicArray a \<longrightarrow>
     (\<forall>w c. index = ConstantExpr w c \<longrightarrow> i = c) \<longrightarrow> covers s a i)"

definition covers_less :: "element_set \<Rightarrow> element_set \<Rightarrow> bool" where
  "covers_less s s' \<longleftrightarrow> (\<forall>a i. covers s a i \<longrightarrow> covers s' a i)"

lemma covers_less_refl [simp]: "covers_less s s"
  by (simp add: covers_less_def)

lemma covers_less_trans: "covers_less s s' \<Longrightarrow> covers_less s' s'' \<Longrightarrow> covers_less s s''"
  by (auto simp: covers_less_def)

lemma covers_read_mono: "covers_less s s' \<Longrightarrow> covers_read s r \<Longrightarrow> covers_read s' r"
  unfolding covers_less_def covers_read_def by blast

lemma covers_make_whole:
  "covers (s\<lparr>es_elements := AList.delete a (es_elements s), es_whole := List.insert a (es_whole s)\<rparr>) b i \<longleftrightarrow>
     b = a \<or> covers s b i"
  by (auto simp: covers_def delete_conv)

lemma covers_update:
  "a \<notin> set (es_whole s) \<Longrightarrow> covers (s\<lparr>es_elements := AList.update a d (es_elements s)\<rparr>) b i \<longleftrightarrow>
     (if b = a then i \<in> uint ` set d else covers s b i)"
  by (auto simp: covers_def update_conv)

text \<open>The reads of an expression have 32-bit indices, as those of all objects have.\<close>

definition index32 :: "expr \<Rightarrow> bool" where
  "index32 r \<longleftrightarrow> (\<forall>a us index. r = ReadExpr a us index \<longrightarrow> welltyped index \<and> getWidth index = 32)"

lemma element_read_runs:
  assumes "index32 r"
  shows "\<exists>s'. element_read r s = Inr s' \<and> covers_less s s' \<and> covers_read s' r"
proof (cases r)
  case (ReadExpr a us index)
  then have ix: "welltyped index" "getWidth index = 32" using assms by (simp_all add: index32_def)
  consider "\<not> isSymbolicArray a \<and> us = No_Update" | "a \<in> set (es_whole s)" "\<not> (\<not> isSymbolicArray a \<and> us = No_Update)"
    | "a \<notin> set (es_whole s)" "\<not> (\<not> isSymbolicArray a \<and> us = No_Update)" by blast
  then show ?thesis
  proof cases
    case 1
    then show ?thesis using ReadExpr by (simp add: element_read_def covers_read_def)
  next
    case 2
    then show ?thesis using ReadExpr by (auto simp: element_read_def covers_read_def covers_def)
  next
    case 3
    show ?thesis
    proof (cases "isConstant index")
      case True
      then obtain c where c: "index = ConstantExpr 32 c" "in_width 32 c" using ix by (cases index) auto
      let ?d = "case map_of (es_elements s) a of None \<Rightarrow> [] | Some d \<Rightarrow> d"
      let ?s' = "s\<lparr>es_elements := AList.update a (set_insert (of_int c) ?d) (es_elements s)\<rparr>"
      have run: "element_read r s = Inr ?s'" using 3 ReadExpr c(1) by (auto simp: element_read_def)
      have "uint (of_int c :: uint) = c" using c(2) in_width_def [of 32 c] by (simp add: unsigned_of_int take_bit_in_width)
      then have cov: "covers ?s' b i \<longleftrightarrow> (if b = a then i = c \<or> i \<in> uint ` set ?d else covers s b i)" for b i
        using 3(1) by (auto simp: covers_update)
      have "covers s a i \<longleftrightarrow> i \<in> uint ` set ?d" for i using 3(1) by (cases "map_of (es_elements s) a") (simp_all add: covers_def)
      then have "covers_less s ?s'" using cov by (auto simp: covers_less_def)
      moreover have "covers_read ?s' r" using ReadExpr c(1) cov by (simp add: covers_read_def)
      ultimately show ?thesis using run by blast
    next
      case False
      let ?s' = "s\<lparr>es_elements := AList.delete a (es_elements s), es_whole := List.insert a (es_whole s)\<rparr>"
      have "element_read r s = Inr ?s'" using 3 ReadExpr False by (cases index) (auto simp: element_read_def)
      moreover have "covers_less s ?s'" by (simp add: covers_less_def covers_make_whole)
      moreover have "covers_read ?s' r" using ReadExpr False by (cases index) (simp_all add: covers_read_def covers_make_whole)
      ultimately show ?thesis by blast
    qed
  qed
qed (auto simp: element_read_def covers_read_def)

lemma fold_element_read:
  "\<forall>r\<in>set rs. index32 r \<Longrightarrow>
     \<exists>s'. fold_outcome element_read rs s = Inr s' \<and> covers_less s s' \<and> (\<forall>r\<in>set rs. covers_read s' r)"
proof (induction rs arbitrary: s)
  case (Cons r rs)
  obtain s1 where s1: "element_read r s = Inr s1" "covers_less s s1" "covers_read s1 r"
    using element_read_runs [of r s] Cons.prems by auto
  obtain s2 where "fold_outcome element_read rs s1 = Inr s2" "covers_less s1 s2" "\<forall>r\<in>set rs. covers_read s2 r"
    using Cons.IH [of s1] Cons.prems by auto
  with s1 show ?case using covers_less_trans covers_read_mono by auto
qed simp

definition reads32 :: "expr \<Rightarrow> bool" where
  "reads32 e \<longleftrightarrow> (\<forall>r\<in>subs e. index32 r)"

lemma IndependentElementSet_covers:
  assumes "reads32 e"
  shows "\<exists>s. IndependentElementSet e = Inr s \<and> (\<forall>r\<in>subs e. covers_read s r)"
proof -
  have "\<forall>r\<in>set (findReads e True). index32 r" using assms findReads_finds [of e] by (auto simp: reads32_def)
  from fold_element_read [OF this, of empty_elements] obtain s where
    s: "IndependentElementSet e = Inr s" "\<forall>r\<in>set (findReads e True). covers_read s r"
    by (auto simp: IndependentElementSet_def)
  moreover have "covers_read s r" if "r \<in> subs e" for r
  proof (cases "isRead r")
    case True
    with that s(2) findReads_finds [of e] show ?thesis by auto
  qed (auto simp: isRead_def covers_read_def)
  ultimately show ?thesis by blast
qed


section \<open>The value depends on the covered elements only\<close>

text \<open>An assignment gives values to symbolic arrays; it cannot change a constant one.\<close>

definition assigns :: "env \<Rightarrow> bool" where
  "assigns env \<longleftrightarrow> (\<forall>a. \<not> isSymbolicArray a \<longrightarrow> env a = (\<lambda>_. 0))"

definition agree :: "element_set \<Rightarrow> env \<Rightarrow> env \<Rightarrow> bool" where
  "agree s env env' \<longleftrightarrow> (\<forall>a i. covers s a i \<longrightarrow> env a i = env' a i)"

lemma initial_value_agree:
  assumes "assigns env" and "assigns env'" and "isSymbolicArray a \<Longrightarrow> env a x = env' a x"
  shows "initial_value env a x = initial_value env' a x"
  using assms by (cases "isSymbolicArray a") (simp_all add: initial_value_def assigns_def)

lemma eval_agree:
  assumes "assigns env" and "assigns env'" and "agree s env env'"
  shows "\<forall>r\<in>subs e. covers_read s r \<Longrightarrow> eval env e = eval env' e"
    and "\<forall>r\<in>usubs us. covers_read s r \<Longrightarrow> (isSymbolicArray a \<Longrightarrow> env a x = env' a x) \<Longrightarrow>
      evalRead env a x us = evalRead env' a x us"
proof (induction e and us arbitrary: and a x rule: subs_usubs.induct)
  case (3 a us i)
  have i: "eval env i = eval env' i" using 3 by simp
  have "covers_read s (ReadExpr a us i)" using 3 by simp
  then have "env a (eval env i) = env' a (eval env i)" if "isSymbolicArray a"
    using that assms(3) by (cases i) (auto simp: covers_read_def agree_def)
  with 3 i show ?case by simp
qed (use initial_value_agree [OF assms(1,2)] in auto)

section \<open>Union and intersection\<close>

lemma dense_merge_result:
  assumes "dense_merge b s = (m, s')"
  shows "set s' = set s \<union> set b" and "\<not> m \<Longrightarrow> s' = s"
proof -
  have step: "set s2 = set s1 \<union> set b \<and> (m1 \<longrightarrow> m2) \<and> (\<not> m2 \<longrightarrow> s2 = s1)"
    if "fold (\<lambda>x (modified, s). if modified \<or> x \<notin> set s then (True, set_insert x s) else (modified, s)) b (m1, s1) = (m2, s2)"
    for m1 s1 m2 s2
    using that by (induction b arbitrary: m1 s1) (auto split: if_splits)
  from step [of False s m s'] assms show "set s' = set s \<union> set b" "\<not> m \<Longrightarrow> s' = s" by (auto simp: dense_merge_def)
qed

lemma covers_empty_whole:
  "map_of (es_elements s) a = None \<Longrightarrow> covers (s\<lparr>es_whole := List.insert a (es_whole s)\<rparr>) b i \<longleftrightarrow> b = a \<or> covers s b i"
  by (auto simp: covers_def)

lemma add_whole_result:
  assumes "add_whole a (m, s) = (m', s')"
  shows "covers_less s s' \<and> (\<forall>i. covers s' a i) \<and> (m \<longrightarrow> m') \<and> (\<not> m' \<longrightarrow> s' = s)"
proof -
  consider "map_of (es_elements s) a \<noteq> None" | "map_of (es_elements s) a = None" "a \<notin> set (es_whole s)"
    | "map_of (es_elements s) a = None" "a \<in> set (es_whole s)" by blast
  then show ?thesis
  proof cases
    case 1
    with assms have "m'" "s' = s\<lparr>es_elements := AList.delete a (es_elements s), es_whole := List.insert a (es_whole s)\<rparr>"
      by (simp_all add: add_whole_def)
    then show ?thesis by (simp add: covers_less_def covers_make_whole)
  next
    case 2
    with assms have "m'" "s' = s\<lparr>es_whole := List.insert a (es_whole s)\<rparr>" by (simp_all add: add_whole_def)
    then show ?thesis using covers_empty_whole [OF 2(1)] by (simp add: covers_less_def)
  next
    case 3
    with assms show ?thesis by (simp add: add_whole_def covers_def)
  qed
qed

lemma add_elements_result:
  assumes "add_elements (a, d) (m, s) = (m', s')"
  shows "covers_less s s' \<and> (\<forall>i\<in>uint ` set d. covers s' a i) \<and> (m \<longrightarrow> m') \<and> (\<not> m' \<longrightarrow> s' = s)"
proof (cases "a \<in> set (es_whole s)")
  case True
  with assms show ?thesis by (auto simp: add_elements_def covers_def)
next
  case False
  show ?thesis
  proof (cases "map_of (es_elements s) a")
    case None
    then have "\<not> covers s a i" for i using False by (simp add: covers_def)
    with None False assms show ?thesis by (auto simp: add_elements_def covers_less_def covers_update)
  next
    case (Some d')
    obtain k d'' where k: "dense_merge d d' = (k, d'')" by (cases "dense_merge d d'")
    note r = dense_merge_result [OF k]
    have s': "m' = (m \<or> k)" "s' = s\<lparr>es_elements := AList.update a d'' (es_elements s)\<rparr>"
      using assms False Some k by (auto simp: add_elements_def)
    have "covers s a i \<longleftrightarrow> i \<in> uint ` set d'" for i using False Some by (simp add: covers_def)
    then have "covers_less s s'" "\<forall>i\<in>uint ` set d. covers s' a i"
      using False r(1) s'(2) by (auto simp: covers_less_def covers_update)
    moreover have "s' = s" if "\<not> m'" using that s' r(2) Some by (simp add: update_triv)
    ultimately show ?thesis using s'(1) by auto
  qed
qed

lemma fold_add_result:
  assumes "\<And>x m s m' s'. x \<in> set xs \<Longrightarrow> f x (m, s) = (m', s') \<Longrightarrow>
      covers_less s s' \<and> P x s' \<and> (m \<longrightarrow> m') \<and> (\<not> m' \<longrightarrow> s' = s)"
    and "\<And>x s s'. covers_less s s' \<Longrightarrow> P x s \<Longrightarrow> P x s'" and "fold f xs (m, s) = (m', s')"
  shows "covers_less s s' \<and> (\<forall>x\<in>set xs. P x s') \<and> (m \<longrightarrow> m') \<and> (\<not> m' \<longrightarrow> s' = s)"
  using assms(1,3)
proof (induction xs arbitrary: m s)
  case (Cons x xs)
  obtain m1 s1 where f: "f x (m, s) = (m1, s1)" by (cases "f x (m, s)")
  have one: "covers_less s s1 \<and> P x s1 \<and> (m \<longrightarrow> m1) \<and> (\<not> m1 \<longrightarrow> s1 = s)" using Cons.prems(1) [OF _ f] by simp
  have rest: "covers_less s1 s' \<and> (\<forall>x\<in>set xs. P x s') \<and> (m1 \<longrightarrow> m') \<and> (\<not> m' \<longrightarrow> s' = s1)"
  proof (rule Cons.IH)
    show "fold f xs (m1, s1) = (m', s')" using Cons.prems(2) f by simp
  qed (rule Cons.prems(1), simp_all)
  have "covers_less s s'" using covers_less_trans [of s s1 s'] one rest by blast
  moreover have "P x s'" using assms(2) [of s1 s' x] one rest by blast
  ultimately show ?case using one rest by auto
qed simp

lemma es_add_result:
  assumes "es_add b s = (m, s')"
  shows "covers_less s s' \<and> covers_less b s' \<and> (\<not> m \<longrightarrow> s' = s)"
proof -
  obtain m1 s1 where f1: "fold add_whole (es_whole b) (False, s) = (m1, s1)" by (cases "fold add_whole (es_whole b) (False, s)")
  then have f2: "fold add_elements (es_elements b) (m1, s1) = (m, s')" using assms by (simp add: es_add_def)
  have w: "covers_less s s1 \<and> (\<forall>a\<in>set (es_whole b). \<forall>i. covers s1 a i) \<and> (False \<longrightarrow> m1) \<and> (\<not> m1 \<longrightarrow> s1 = s)"
  proof (rule fold_add_result [OF _ _ f1])
    fix a m s m' s' assume "add_whole a (m, s) = (m', s')"
    then show "covers_less s s' \<and> (\<forall>i. covers s' a i) \<and> (m \<longrightarrow> m') \<and> (\<not> m' \<longrightarrow> s' = s)" by (rule add_whole_result)
  qed (simp add: covers_less_def)
  have e: "covers_less s1 s' \<and> (\<forall>(a, d)\<in>set (es_elements b). \<forall>i\<in>uint ` set d. covers s' a i) \<and> (m1 \<longrightarrow> m) \<and> (\<not> m \<longrightarrow> s' = s1)"
  proof -
    have "covers_less s1 s' \<and> (\<forall>x\<in>set (es_elements b). \<forall>i\<in>uint ` set (snd x). covers s' (fst x) i) \<and> (m1 \<longrightarrow> m) \<and> (\<not> m \<longrightarrow> s' = s1)"
    proof (rule fold_add_result [OF _ _ f2])
      fix x m s m' s' assume "add_elements x (m, s) = (m', s')"
      then show "covers_less s s' \<and> (\<forall>i\<in>uint ` set (snd x). covers s' (fst x) i) \<and> (m \<longrightarrow> m') \<and> (\<not> m' \<longrightarrow> s' = s)"
        using add_elements_result [of "fst x" "snd x" m s m' s'] by simp
    qed (simp add: covers_less_def)
    then show ?thesis by auto
  qed
  have "covers s' a i" if c: "covers b a i" for a i
  proof (cases "a \<in> set (es_whole b)")
    case True
    with w e show ?thesis by (auto simp: covers_less_def)
  next
    case False
    with c obtain d where "(a, d) \<in> set (es_elements b)" "i \<in> uint ` set d" by (auto simp: covers_def dest: map_of_SomeD)
    with e show ?thesis by fastforce
  qed
  with w e show ?thesis using covers_less_trans by (auto simp: covers_less_def)
qed

lemma not_intersects:
  assumes "\<not> intersects s b" and "covers s a i"
  shows "\<not> covers b a i"
proof (cases "a \<in> set (es_whole s)")
  case True
  with assms(1) show ?thesis by (auto simp: intersects_def covers_def list_ex_iff)
next
  case False
  with assms(2) obtain d where d: "(a, d) \<in> set (es_elements s)" "i \<in> uint ` set d"
    by (auto simp: covers_def dest: map_of_SomeD)
  then have "a \<notin> set (es_whole b)" "\<And>d'. map_of (es_elements b) a = Some d' \<Longrightarrow> \<not> dense_intersects d d'"
    using assms(1) by (fastforce simp: intersects_def list_ex_iff)+
  with d(2) show ?thesis by (auto simp: covers_def dense_intersects_def list_ex_iff dest: word_uint_eq_iff [THEN iffD2])
qed

section \<open>The narrowed query\<close>

text \<open>A split of a worklist: the constraints taken, covered by the closure, and the rest.\<close>

definition splits :: "worklist \<Rightarrow> element_set \<Rightarrow> expr list \<Rightarrow> worklist \<Rightarrow> bool" where
  "splits wl cl new rest \<longleftrightarrow> set rest \<subseteq> set wl \<and> fst ` set wl = set new \<union> fst ` set rest \<and>
     (\<forall>c\<in>set new. \<exists>s. (c, s) \<in> set wl \<and> covers_less s cl)"

lemma closure_pass_result:
  "closure_pass wl cl fin res = (cl', fin', rest, res') \<Longrightarrow>
     covers_less cl cl' \<and> (\<exists>new. res' = res @ new \<and> splits wl cl' new rest) \<and>
     (fin' \<longrightarrow> fin \<and> cl' = cl \<and> (\<forall>(c, s)\<in>set rest. \<not> intersects s cl))"
proof (induction wl arbitrary: cl fin res cl' fin' rest res')
  case Nil
  then show ?case by (auto simp: splits_def)
next
  case (Cons x wl)
  obtain c s where x: "x = (c, s)" by (cases x)
  show ?case
  proof (cases "intersects s cl")
    case True
    obtain m cl1 where a: "es_add s cl = (m, cl1)" by (cases "es_add s cl")
    note add = es_add_result [OF a]
    from True a x Cons.prems have "closure_pass wl cl1 (fin \<and> \<not> m) (res @ [c]) = (cl', fin', rest, res')" by simp
    from Cons.IH [OF this] obtain new where ih: "covers_less cl1 cl'" "res' = (res @ [c]) @ new" "splits wl cl' new rest"
      "fin' \<longrightarrow> (fin \<and> \<not> m) \<and> cl' = cl1 \<and> (\<forall>(c, s)\<in>set rest. \<not> intersects s cl1)" by blast
    have "covers_less cl cl'" "covers_less s cl'" using add covers_less_trans [OF _ ih(1)] by blast+
    then have "splits (x # wl) cl' (c # new) rest" using ih(3) x by (auto simp: splits_def)
    with \<open>covers_less cl cl'\<close> ih(2,4) add show ?thesis by auto
  next
    case False
    obtain cl1 fin1 rest1 res1 where p: "closure_pass wl cl fin res = (cl1, fin1, rest1, res1)"
      by (cases "closure_pass wl cl fin res")
    with False x Cons.prems have eq: "cl' = cl1" "fin' = fin1" "rest = x # rest1" "res' = res1" by auto
    from Cons.IH [OF p] obtain new where ih: "covers_less cl cl1" "res1 = res @ new" "splits wl cl1 new rest1"
      "fin1 \<longrightarrow> fin \<and> cl1 = cl \<and> (\<forall>(c, s)\<in>set rest1. \<not> intersects s cl)" by blast
    have "splits (x # wl) cl1 new (x # rest1)" using ih(3) by (auto simp: splits_def)
    with ih False x eq show ?thesis by auto
  qed
qed

lemma closure_loop_result:
  "closure_loop wl cl res = (cl', res') \<Longrightarrow>
     covers_less cl cl' \<and> (\<exists>new rest. res' = res @ new \<and> splits wl cl' new rest \<and> (\<forall>(c, s)\<in>set rest. \<not> intersects s cl'))"
proof (induction wl cl res rule: closure_loop.induct)
  case (1 wl cl res)
  obtain cl1 fin rest1 res1 where p: "closure_pass wl cl True res = (cl1, fin, rest1, res1)"
    by (cases "closure_pass wl cl True res")
  from closure_pass_result [OF p] obtain new1 where one: "covers_less cl cl1" "res1 = res @ new1" "splits wl cl1 new1 rest1"
    "fin \<longrightarrow> cl1 = cl \<and> (\<forall>(c, s)\<in>set rest1. \<not> intersects s cl)" by blast
  show ?case
  proof (cases fin)
    case True
    with "1.prems" p have "cl' = cl1" "res' = res1" by (simp_all add: closure_loop.simps [of wl])
    with one True show ?thesis by blast
  next
    case False
    with "1.prems" p have "closure_loop rest1 cl1 res1 = (cl', res')" by (simp add: closure_loop.simps [of wl])
    from "1.IH" [OF p [symmetric] refl refl False this] obtain new rest where two: "covers_less cl1 cl'" "res' = res1 @ new"
      "splits rest1 cl' new rest" "\<forall>(c, s)\<in>set rest. \<not> intersects s cl'" by blast
    have "\<exists>s. (c, s) \<in> set wl \<and> covers_less s cl'" if "c \<in> set new1" for c
      using that one(3) covers_less_trans [OF _ two(1)] unfolding splits_def by blast
    moreover have "\<exists>s. (c, s) \<in> set wl \<and> covers_less s cl'" if "c \<in> set new" for c
      using that one(3) two(3) unfolding splits_def by blast
    moreover have "set rest \<subseteq> set wl" "fst ` set wl = set (new1 @ new) \<union> fst ` set rest"
      using one(3) two(3) by (auto simp: splits_def)
    ultimately have "splits wl cl' (new1 @ new) rest" by (auto simp: splits_def)
    moreover have "covers_less cl cl'" using covers_less_trans [OF one(1) two(1)] .
    ultimately show ?thesis using one(2) two(2,4) by auto
  qed
qed

lemma make_worklist_result:
  "\<forall>c\<in>set cs. reads32 c \<Longrightarrow>
     \<exists>wl. make_worklist cs = Inr wl \<and> fst ` set wl = set cs \<and> (\<forall>(c, s)\<in>set wl. \<forall>r\<in>subs c. covers_read s r)"
proof (induction cs)
  case (Cons c cs)
  obtain s where "IndependentElementSet c = Inr s" "\<forall>r\<in>subs c. covers_read s r"
    using IndependentElementSet_covers [of c] Cons.prems by auto
  with Cons show ?case by auto
qed simp

definition satisfies :: "env \<Rightarrow> expr list \<Rightarrow> bool" where
  "satisfies env cs \<longleftrightarrow> assigns env \<and> (\<forall>c\<in>set cs. eval env c = 1)"

text \<open>Two assignments, put together along the closure.\<close>

definition merge :: "element_set \<Rightarrow> env \<Rightarrow> env \<Rightarrow> env" where
  "merge cl env env' = (\<lambda>a i. if covers cl a i then env a i else env' a i)"

lemma assigns_merge: "assigns env \<Longrightarrow> assigns env' \<Longrightarrow> assigns (merge cl env env')"
  by (auto simp: assigns_def merge_def)

lemma merge_inside:
  assumes "assigns env" and "assigns env'" and "covers_less s cl" and "\<forall>r\<in>subs e. covers_read s r"
  shows "eval (merge cl env env') e = eval env e"
proof (rule eval_agree(1) [OF _ assms(1) _ assms(4)])
  show "assigns (merge cl env env')" using assms(1,2) by (rule assigns_merge)
  show "agree s (merge cl env env') env" using assms(3) by (auto simp: agree_def merge_def covers_less_def)
qed

lemma merge_outside:
  assumes "assigns env" and "assigns env'" and "\<not> intersects s cl" and "\<forall>r\<in>subs e. covers_read s r"
  shows "eval (merge cl env env') e = eval env' e"
proof (rule eval_agree(1) [OF _ assms(2) _ assms(4)])
  show "assigns (merge cl env env')" using assms(1,2) by (rule assigns_merge)
  show "agree s (merge cl env env') env'" using not_intersects [OF assms(3)] by (auto simp: agree_def merge_def)
qed

lemma closure_separates:
  assumes wl: "\<forall>(c, s)\<in>set wl. \<forall>r\<in>subs c. covers_read s r" and "splits wl cl required rest"
    and "\<forall>(c, s)\<in>set rest. \<not> intersects s cl"
    and "satisfies env required" and "satisfies env' cs" and "fst ` set wl = set cs"
  shows "satisfies (merge cl env env') cs"
proof -
  have env: "assigns env" "assigns env'" using assms(4,5) by (simp_all add: satisfies_def)
  have "eval (merge cl env env') c = 1" if c: "c \<in> set cs" for c
  proof -
    have "set cs = set required \<union> fst ` set rest" using assms(2,6) by (simp add: splits_def)
    then consider "c \<in> set required" | s where "(c, s) \<in> set rest" using c by force
    then show ?thesis
    proof cases
      case 1
      then obtain s where s: "(c, s) \<in> set wl" "covers_less s cl" using assms(2) by (auto simp: splits_def)
      then have "\<forall>r\<in>subs c. covers_read s r" using wl by auto
      from merge_inside [OF env s(2) this] 1 assms(4) show ?thesis by (simp add: satisfies_def)
    next
      case 2
      then have "(c, s) \<in> set wl" using assms(2) by (auto simp: splits_def)
      then have "\<forall>r\<in>subs c. covers_read s r" "\<not> intersects s cl" using wl assms(3) 2 by auto
      from merge_outside [OF env this(2,1)] c assms(5) show ?thesis by (simp add: satisfies_def)
    qed
  qed
  with assigns_merge [OF env] show ?thesis by (simp add: satisfies_def)
qed

text \<open>
  (C13) Narrowing a query to the constraints that are connected with its expression changes no answer: the
  computation of the connected constraints ends, the wrapped solver gets some of the constraints, and
  if all constraints can be satisfied together, the expression has the same possible values under
  the constraints passed on as under all of them. In particular it is valid, or can be true, in
  both cases or in none.
\<close>

theorem independent_constraints_sound:
  assumes "\<forall>c\<in>set (e # cs). reads32 c" and "satisfies env0 cs"
  shows "\<exists>required. independent_query solver cs e = solver required e \<and> set required \<subseteq> set cs \<and>
    {eval env e | env. satisfies env required} = {eval env e | env. satisfies env cs}"
proof -
  obtain s0 where s0: "IndependentElementSet e = Inr s0" "\<forall>r\<in>subs e. covers_read s0 r"
    using IndependentElementSet_covers [of e] assms(1) by auto
  obtain wl where wl: "make_worklist cs = Inr wl" "fst ` set wl = set cs" "\<forall>(c, s)\<in>set wl. \<forall>r\<in>subs c. covers_read s r"
    using make_worklist_result [of cs] assms(1) by auto
  obtain cl required where l: "closure_loop wl s0 [] = (cl, required)" by (cases "closure_loop wl s0 []")
  from closure_loop_result [OF l] obtain rest where r: "covers_less s0 cl" "splits wl cl required rest"
    "\<forall>(c, s)\<in>set rest. \<not> intersects s cl" by auto
  have "independent_query solver cs e = solver required e"
    using s0(1) wl(1) l by (simp add: independent_query_def getIndependentConstraints_def)
  moreover have sub: "set required \<subseteq> set cs" using r(2) wl(2) by (auto simp: splits_def)
  moreover have "\<exists>env'. satisfies env' cs \<and> eval env' e = eval env e" if "satisfies env required" for env
  proof (intro exI conjI)
    show "satisfies (merge cl env env0) cs"
      by (rule closure_separates [OF wl(3) r(2,3) that assms(2) wl(2)])
    show "eval (merge cl env env0) e = eval env e"
      using that assms(2) merge_inside [OF _ _ r(1) s0(2)] by (simp add: satisfies_def)
  qed
  moreover have "satisfies env required" if "satisfies env cs" for env using that sub by (auto simp: satisfies_def)
  ultimately show ?thesis by (intro exI [of _ required]) (auto, metis)
qed

text \<open>Two constraints on different arrays: a query about the first needs the first one only.\<close>

definition other_byte :: expr where
  "other_byte = ReadExpr (Array 2 ''other'' 4 [] 32 8) No_Update (ConstantExpr 32 1)"

abbreviation below :: "expr \<Rightarrow> int \<Rightarrow> expr" where
  "below e c \<equiv> BinaryExpr UltExpr e (ConstantExpr 8 c)"

theorem independent_constraints_sound_witness:
  "\<exists>required. independent_query (\<lambda>cs e. Inr cs) [below first_byte 10, below other_byte 20] (below first_byte 12) = Inr required \<and>
     required = [below first_byte 10] \<and>
     {eval env (below first_byte 12) | env. satisfies env required} =
       {eval env (below first_byte 12) | env. satisfies env [below first_byte 10, below other_byte 20]}"
proof -
  have "independent_query (\<lambda>cs e. Inr cs) [below first_byte 10, below other_byte 20] (below first_byte 12) =
      Inr [below first_byte 10]" by code_simp
  moreover have "satisfies (\<lambda>_ _. 0) [below first_byte 10, below other_byte 20]"
    by (simp add: satisfies_def assigns_def first_byte_def other_byte_def initial_value_def isSymbolicArray_def buffer_def truth_def)
  moreover have "\<forall>c\<in>set [below first_byte 12, below first_byte 10, below other_byte 20]. reads32 c"
    by (simp add: reads32_def index32_def first_byte_def other_byte_def in_width_def)
  ultimately show ?thesis
    using independent_constraints_sound [of "below first_byte 12" "[below first_byte 10, below other_byte 20]" "\<lambda>_ _. 0" "\<lambda>cs e. Inr cs"]
    by auto
qed

end
