(* ===== verification/Spec2Isabelle.thy ===== *)
theory Spec2Isabelle
  imports Runtime_Clocks Special_Elements Expr_Structure Runtime_Data Filter_Correct Dtam_Correct Object_Memory Memory_Bounds Independent_Sets
begin

text \<open>
  A verification library for Cap Taint Analysis, a fork of KLEE that runs multithreaded programs symbolically,
  records a trace of every run, explores other schedules and decides which accesses of global
  variables taint can reach. The project's own code is in \<^verbatim>\<open>src/lib/Core\<close>; the expressions it computes with
  are those of \<^verbatim>\<open>src/lib/Expr\<close> and \<^verbatim>\<open>src/include/klee/Expr.h\<close>.

  \<^bold>\<open>The program.\<close> The executor (\<^verbatim>\<open>Executor.cpp\<close>) interprets one instruction of one thread per round. Which thread
  that is, a thread scheduler says (\<^verbatim>\<open>ThreadScheduler.cpp\<close>), possibly guided by a prefix of events of an earlier run
  (\<^verbatim>\<open>Prefix.cpp\<close>). Calls of the pthread library go to the managers of mutexes, condition variables and barriers
  (\<^verbatim>\<open>MutexManager.cpp\<close>, \<^verbatim>\<open>CondManager.cpp\<close>, \<^verbatim>\<open>BarrierManager.cpp\<close>), which block and release threads and keep them in waiting
  queues (\<^verbatim>\<open>CondScheduler.cpp\<close>, \<^verbatim>\<open>MutexScheduler.cpp\<close>, \<^verbatim>\<open>Scheduler.h\<close>). The run is recorded as events in a trace (\<^verbatim>\<open>Event.cpp\<close>,
  \<^verbatim>\<open>Trace.cpp\<close>), kept by \<^verbatim>\<open>RuntimeDataManager.cpp\<close>, which also tells whether a trace is new. A new trace is filtered down
  to the variables its branches and assertions depend on (\<^verbatim>\<open>DealWithSymbolicExpr.cpp\<close>), and taint is propagated over its
  accesses (\<^verbatim>\<open>DTAM.cpp\<close>, \<^verbatim>\<open>DTAMPoint.cpp\<close>). Symbolic values are expressions, built by simplifying constructors
  (\<^verbatim>\<open>Expr.cpp\<close>), and the contents of a memory object are bytes, concrete or symbolic (\<^verbatim>\<open>Memory.cpp\<close>). Queries
  about them are narrowed to the constraints that matter before a solver sees them (\<^verbatim>\<open>IndependentSolver.cpp\<close>).

  \<^bold>\<open>Theories.\<close>

  \<^item> \<open>Prelude\<close>: \<open>unsigned\<close> as 32-bit and \<open>uint64_t\<close> as 64-bit words; the outcome of code that can hit an assertion, an
    undefined operation or an exception; lemmas on lists and maps. \<open>Decimal_Names\<close>: \<^verbatim>\<open>Transfer::uint64toString\<close> and
    that different numbers have different texts. \<open>Ordered_Maps\<close>: \<open>std::set\<close> and \<open>std::map\<close> with their order, against the
    contract \<open>dictionary\<close>.
  \<^item> \<open>Events\<close>: events, the addresses of a vector access and the replayed prefix, with its cursor. \<open>Trace_Model\<close>:
    the trace record, every insertion, the abstract by which traces are compared and the lookup of an access
    by name. \<open>Runtime_Data\<close>: the traces of all runs, the tested ones and the prefixes to run.
  \<^item> \<open>Scheduler_Spec\<close>: the contracts \<open>wait_queue\<close>, \<open>fifo_queue\<close>, \<open>lifo_queue\<close>, \<open>thread_pool\<close> and \<open>thread_queue\<close>. \<open>Wait_Schedulers\<close> and
    \<open>Thread_Schedulers\<close>: the classes of the sources, each an interpretation of its contract, with the exact order
    in which waiters and threads are served.
  \<^item> \<open>Lock_Spec\<close>: a table of locks and the contracts \<open>lock_service\<close> and \<open>blocking_service\<close>. \<open>Mutex_Manager\<close> refines it and thereby excludes
    two holders. \<open>Cond_Manager\<close> and \<open>Barrier_Manager\<close>: which threads a signal, a broadcast and an arrival
    release.
  \<^item> \<open>Thread_List\<close>: threads, their frames and vector clocks, and the threads of an execution state.
    \<open>Pthread_Runtime\<close>: the pthread handlers of the executor, the end of a thread, the choice of the next one and a
    round of the main loop. \<open>Thread_Consistency\<close>, \<open>Runtime_Invariant\<close> and \<open>Runtime_Runs\<close>: the tables of scheduler, managers and joins
    agree with the states of the threads in every reachable state; the choice finds a thread that can go on, and
    never ends when there is none. \<open>Runtime_Clocks\<close>: clocks and the final status. \<open>Special_Elements\<close>: the
    synchronisation objects of an allocation, by the walk over its type.
  \<^item> \<open>Klee_Expr\<close>: expressions, widths, constants and values under an assignment of the arrays.
    \<open>Expr_Create\<close>: all simplifying constructors. \<open>Expr_Correct\<close> and \<open>Expr_Structure\<close>: they run into no assertion on well-typed
    operands and keep width and value.
  \<^item> \<open>Symbolic_Names\<close>: the variable of a symbolic value, and the variables and tainted values of an expression.
    \<open>Symbolic_Filter\<close>: the three filters over a trace, and the contract \<open>cursor_loop\<close> of a loop that iterates over a set it
    extends. \<open>Filter_Correct\<close>: the filters against the closure of the dependencies.
  \<^item> \<open>Dtam\<close>: the graph of accesses, its pruning by vector clocks and the search. \<open>Dtam_Correct\<close>: what it taints is what
    the graph of the trace reaches.
  \<^item> \<open>Bit_Array\<close>: sets of offsets as bits, against the contract \<open>bit_map\<close>. \<open>Object_State\<close>: \<open>ObjectState\<close> with its concrete bytes,
    its two masks, the cached expressions and the update list. \<open>Byte_Store\<close>: the specification \<open>load\<close> and \<open>store\<close> on an array
    of bytes and the contract \<open>byte_store\<close> of the access to one byte. \<open>Object_Correct\<close>: the invariant of the caches, and
    that flushing keeps the contents. \<open>Object_Access\<close>: accesses at constant and at symbolic offsets are interpretations
    of \<open>byte_store\<close>, so that reads and writes implement \<open>load\<close> and \<open>store\<close>. \<open>Object_Memory\<close>: the reachable states of an
    object, the round trip, and what happens to objects without root array. \<open>Memory_Bounds\<close>: the bounds checks of
    \<open>MemoryObject\<close> are exact.
  \<^item> \<open>Find_Reads\<close>: the search for the reads of an expression (\<^verbatim>\<open>ExprUtil.cpp\<close>), which ends and finds them all. \<open>Independent_Sets\<close>: the
    constraints of a query that share array elements with its expression (\<^verbatim>\<open>IndependentSolver.cpp\<close>), and that the other
    constraints of a satisfiable set do not influence the answer.

  \<^bold>\<open>How the model corresponds to the code.\<close> A class is a record whose fields carry the names of its members
  behind a short prefix; a method is a function of the same name (suffixed or prefixed where two classes share a
  name) from the state to the new state. Objects that are shared through pointers live in a
  store and are referred to by addresses or, where a container owns them, by their key; an address that \<open>new\<close>
  returns is a counter or an argument. A \<open>bool\<close> result with an error text is a sum. An assertion, a
  dereference of null, an access out of range and a use of an invalid iterator are values of \<open>failure\<close>. What the
  program reads of LLVM (the name of a function, the opcode and the lines of an instruction, the
  layout of a type) is an argument or part of the data.

  \<^bold>\<open>Termination and bounds.\<close> All loops of the sources that end are total functions with a termination proof; no fuel is
  used. The one loop that may run forever, the choice of the next thread, has its non-termination
  as a result, which the theorems decide. Loops over a growing set end because their cursor increases
  within a finite set, the taint search because it taints a point or shortens its stack, and
  the comparison of traces, the filters and the searches are proved to return.

  \<^bold>\<open>Assumptions.\<close> Widths of expressions are natural numbers: the 32-bit \<open>Width\<close> does not overflow in expressions that
  fit in memory. The theorems on constructors are for the default \<open>const-array-opt=false\<close>. Sizes of containers
  are below \<open>2 ^ 32\<close> where the code counts them with an \<open>unsigned\<close>; where it matters (barriers, vector clocks, array elements)
  the word is kept. Iterators of a vector that was shortened in place are positions in it; a
  reallocation makes them invalid, which the capacity in \<open>filterUselessByTaint\<close> decides. A memory object is smaller than
  \<open>2 ^ 32 - 31\<close> bytes, so that the length of its masks does not wrap, and a symbolic offset is one whose low 32 bits
  depend on the values of the arrays.

  \<^bold>\<open>Not modelled.\<close> The interpretation of instructions other than the pthread calls, the address space and the listeners that
  fill the trace work on LLVM's classes, on the host's memory and on the solver throughout. The encoding of a
  trace for Z3 and the rest of the solver chain end in calls into libraries that are not part of the sources.
  The KQuery parser and printers, module passes, searchers, statistics, timers, options, tools and the C runtime
  are taken over from KLEE or are input and output. Of modelled classes, printing, destructors, hashing, reference
  counts and measured times are left out.
\<close>

end
